(* ===== verification/IC_Prelude.thy ===== *)
theory IC_Prelude
  imports Main "HOL-Library.Multiset"
begin

text \<open>
  Shared vocabulary of the development: the lemma collections, the result
  type of operations that may raise, the database table as the ORM presents
  it (rows with a key, selected by a domain, written by key), and generic
  facts on lists.
\<close>

section \<open>Lemma collections\<close>

named_theorems table_simps \<open>how reads see a table after a write\<close>
named_theorems frame_simps \<open>what an operation leaves unchanged\<close>
named_theorems model_defs \<open>definitions unfolded when a closed term is evaluated\<close>

section \<open>Results of operations that may raise\<close>

type_synonym ('e, 'a) result = "'e + 'a"

definition raises :: "('e, 'a) result \<Rightarrow> bool" where
  "raises r \<longleftrightarrow> (case r of Inl _ \<Rightarrow> True | Inr _ \<Rightarrow> False)"

lemma raises_simps [simp]: "raises (Inl e)" "\<not> raises (Inr x)"
  by (simp_all add: raises_def)

lemma seq_ok: "(case r of Inl e \<Rightarrow> Inl e | Inr (_::unit) \<Rightarrow> k) = Inr y \<longleftrightarrow> r = Inr () \<and> k = Inr y"
  by (cases r) auto

lemma map_sum_InrE:
  assumes "map_sum f g r = Inr y"
  obtains x where "r = Inr x" "y = g x"
  using assms by (cases r) auto

section \<open>Lists\<close>

lemma find_Some_set: "find P xs = Some x \<Longrightarrow> x \<in> set xs \<and> P x"
  by (auto simp: find_Some_iff)

lemma find_None_all: "find P xs = None \<longleftrightarrow> (\<forall>x \<in> set xs. \<not> P x)"
  by (auto simp: find_None_iff)

lemma find_distinct_key:
  assumes "distinct (map f xs)" and "x \<in> set xs"
  shows "find (\<lambda>y. f y = f x) xs = Some x"
  using assms by (induction xs) (auto simp: rev_image_eqI)

lemma filter_positions:
  assumes "i < k" and "k < length (filter P xs)"
  shows "\<exists>m n. m < n \<and> n < length xs \<and> xs ! m = filter P xs ! i \<and> xs ! n = filter P xs ! k"
  using assms
proof (induction xs arbitrary: i k)
  case (Cons x xs)
  show ?case
  proof (cases "P x")
    case False
    then obtain m n where "m < n" "n < length xs"
      "xs ! m = filter P (x # xs) ! i" "xs ! n = filter P (x # xs) ! k"
      using Cons.IH [of i k] Cons.prems by auto
    then show ?thesis by (intro exI [of _ "Suc m"] exI [of _ "Suc n"]) simp
  next
    case True
    obtain k' where k: "k = Suc k'" using Cons.prems by (cases k) auto
    show ?thesis
    proof (cases i)
      case 0
      have "k' < length (filter P xs)" using Cons.prems k True by simp
      then have "filter P xs ! k' \<in> set xs" using nth_mem by fastforce
      then obtain n where "n < length xs" "xs ! n = filter P xs ! k'"
        by (auto simp: in_set_conv_nth)
      then show ?thesis using 0 k True by (intro exI [of _ 0] exI [of _ "Suc n"]) simp
    next
      case (Suc i')
      then obtain m n where "m < n" "n < length xs"
        "xs ! m = filter P xs ! i'" "xs ! n = filter P xs ! k'"
        using Cons.IH [of i' k'] Cons.prems k True by auto
      then show ?thesis using Suc k True
        by (intro exI [of _ "Suc m"] exI [of _ "Suc n"]) simp
    qed
  qed
qed simp

text \<open>The elements of a list, each at its first place: an ordered set, as
  recordsets and the keys of a dict are.\<close>

definition uniq :: "'a list \<Rightarrow> 'a list" where
  "uniq xs = rev (remdups (rev xs))"

lemma set_uniq [simp]: "set (uniq xs) = set xs"
  by (simp add: uniq_def)

lemma distinct_uniq [simp]: "distinct (uniq xs)"
  by (simp add: uniq_def)

lemma uniq_Nil [simp]: "uniq xs = [] \<longleftrightarrow> xs = []"
  by (simp add: uniq_def)

lemma uniq_append1: "uniq (xs @ [x]) = (if x \<in> set xs then uniq xs else uniq xs @ [x])"
  by (simp add: uniq_def)

lemma uniq_simps [simp]:
  "uniq [] = []"
  "uniq (x # xs) = x # filter (\<lambda>y. y \<noteq> x) (uniq xs)"
proof -
  show "uniq (x # xs) = x # filter (\<lambda>y. y \<noteq> x) (uniq xs)"
  proof (induction xs rule: rev_induct)
    case (snoc y ys)
    have "uniq (x # ys @ [y]) = uniq ((x # ys) @ [y])" by simp
    with snoc show ?case by (simp only: uniq_append1) (auto simp: uniq_def)
  qed (simp add: uniq_def)
qed (simp add: uniq_def)

text \<open>In a sorted list, what \<^const>\<open>uniq\<close> puts first was seen first.\<close>

lemma uniq_map_order:
  assumes "i < k" and "k < length (uniq (map f xs))" and "b \<in> set xs" "f b = uniq (map f xs) ! k"
    and "sorted_wrt R xs"
  shows "\<exists>a \<in> set xs. f a = uniq (map f xs) ! i \<and> R a b"
  using assms
proof (induction xs arbitrary: i k b)
  case (Cons x xs)
  let ?u = "filter (\<lambda>y. y \<noteq> f x) (uniq (map f xs))"
  obtain k' where k: "k = Suc k'" and k': "k' < length ?u"
    using Cons.prems(1,2) by (cases k) auto
  have fb: "f b = ?u ! k'" using Cons.prems(4) k by simp
  then have "f b \<in> set ?u" using nth_mem [OF k'] by (simp only:)
  then have b: "b \<in> set xs" "f b \<noteq> f x" using Cons.prems(3) by auto
  show ?case
  proof (cases i)
    case 0
    then show ?thesis using b Cons.prems(5) by auto
  next
    case (Suc i')
    then have "i' < k'" using Cons.prems(1) k by simp
    then obtain m n where mn: "m < n" "n < length (uniq (map f xs))"
      "uniq (map f xs) ! m = ?u ! i'" "uniq (map f xs) ! n = f b"
      using filter_positions [OF _ k'] fb by metis
    then obtain a where "a \<in> set xs" "f a = uniq (map f xs) ! m" "R a b"
      using Cons.IH [of m n b] b Cons.prems(5) by auto
    then show ?thesis using Suc mn by auto
  qed
qed simp

lemma set_map_filter: "set (List.map_filter f xs) = {y. \<exists>x \<in> set xs. f x = Some y}"
  by (induction xs) (auto simp: List.map_filter_def split: option.splits)

section \<open>Integer division\<close>

lemma le_div_iff:
  assumes "0 < (k::int)"
  shows "a \<le> b div k \<longleftrightarrow> a * k \<le> b"
proof
  assume "a \<le> b div k"
  with assms have "a * k \<le> (b div k) * k" by (simp add: mult_right_mono)
  also have "\<dots> \<le> b" using assms by (simp flip: minus_mod_eq_div_mult)
  finally show "a * k \<le> b" .
next
  assume "a * k \<le> b"
  from zdiv_mono1 [OF this assms] assms show "a \<le> b div k" by simp
qed

end
