(* ===== verification/Rate_Limit.thy ===== *)
theory Rate_Limit
  imports IC_Prelude
begin

text \<open>
  The request counter of the panel: \<^verbatim>\<open>models/cloud_rate_limit.py\<close> (one row per
  bucket, tumbling window, atomic upsert) and the gate the HTTP controllers
  call, \<^verbatim>\<open>controllers/_rate_limit.py\<close>. Timestamps are microseconds, as
  PostgreSQL keeps them; the table is a partial map because \<^verbatim>\<open>bucket\<close> is
  unique.
\<close>

section \<open>Data\<close>

record rl_row =
  window_start :: int
  count :: int

type_synonym rl_table = "string \<rightharpoonup> rl_row"

datatype rl_error = KeyError string | ValueError

definition RATE_LIMIT_DEFAULTS :: "(string \<times> int) list" where
  "RATE_LIMIT_DEFAULTS =
     [(''rate_limit_webhook_per_min'', 300),
      (''rate_limit_terminal_per_min'', 30),
      (''rate_limit_terminal_user_per_min'', 10),
      (''rate_limit_host_console_per_min'', 3),
      (''rate_limit_connect_per_min'', 20),
      (''rate_limit_connect_user_per_min'', 10),
      (''rate_limit_logs_per_min'', 60),
      (''rate_limit_log_search_per_min'', 6),
      (''rate_limit_mail_reads_per_min'', 30),
      (''rate_limit_github_previews_per_hour'', 10),
      (''rate_limit_github_imports_per_hour'', 5)]"

text \<open>What a call reads of its environment: the test flag, the context flag,
  the settings singleton (\<^verbatim>\<open>getattr(settings, key, 0) or 0\<close>) and the
  transaction's time.\<close>

record rl_env =
  test_enable :: bool
  force_rate_limit :: bool
  settings :: "string \<Rightarrow> int option"
  now :: int

section \<open>Operations\<close>

definition get_cap :: "rl_env \<Rightarrow> string \<Rightarrow> (rl_error, int) result" where
  "get_cap e key =
     (case map_of RATE_LIMIT_DEFAULTS key of
        None \<Rightarrow> Inl (KeyError key)
      | Some dflt \<Rightarrow>
          let v = (case settings e key of None \<Rightarrow> 0 | Some v \<Rightarrow> v)
          in Inr (if v > 0 then v else dflt))"

definition expired :: "int \<Rightarrow> int \<Rightarrow> rl_row \<Rightarrow> bool" where
  "expired t w r \<longleftrightarrow> t - window_start r \<ge> 1000000 * w"

definition upsert_row :: "int \<Rightarrow> int \<Rightarrow> rl_row option \<Rightarrow> rl_row" where
  "upsert_row t w ro =
     (case ro of
        None \<Rightarrow> \<lparr>window_start = t, count = 1\<rparr>
      | Some r \<Rightarrow>
          \<lparr>window_start = (if expired t w r then t else window_start r),
           count = (if expired t w r then 1 else count r + 1)\<rparr>)"

definition hit ::
  "rl_env \<Rightarrow> string \<Rightarrow> string option \<Rightarrow> int option \<Rightarrow> int \<Rightarrow> rl_table
     \<Rightarrow> (rl_error, bool \<times> rl_table) result" where
  "hit e bucket cap_key max_per_window window_seconds tab =
     (if test_enable e \<and> \<not> force_rate_limit e then Inr (True, tab)
      else
        (case (case max_per_window of
                 Some m \<Rightarrow> Inr m
               | None \<Rightarrow> (case cap_key of None \<Rightarrow> Inl ValueError | Some k \<Rightarrow> get_cap e k))
         of Inl err \<Rightarrow> Inl err
          | Inr cap \<Rightarrow>
              let r = upsert_row (now e) window_seconds (tab bucket)
              in Inr (count r \<le> cap, tab(bucket \<mapsto> r))))"

definition gc :: "int \<Rightarrow> int \<Rightarrow> rl_table \<Rightarrow> rl_table" where
  "gc t older_than_hours tab =
     (\<lambda>b. case tab b of
            None \<Rightarrow> None
          | Some r \<Rightarrow>
              if window_start r < t - older_than_hours * 3600 * 1000000 then None else Some r)"

record rule =
  bucket :: string
  message :: "string option"
  cap_key :: "string option"
  max_per_window :: "int option"

fun first_tripped ::
  "rl_env \<Rightarrow> rule list \<Rightarrow> rl_table \<Rightarrow> (rl_error, rule option \<times> rl_table) result" where
  "first_tripped e [] tab = Inr (None, tab)"
| "first_tripped e (r # rs) tab =
     (case hit e (bucket r)
             (case cap_key r of None \<Rightarrow> None | Some k \<Rightarrow> if k = [] then None else Some k)
             (max_per_window r) 60 tab
      of Inl err \<Rightarrow> Inl err
       | Inr (ok, tab') \<Rightarrow>
           if \<not> ok then Inr (Some r, tab') else first_tripped e rs tab')"

definition rate_gate_json ::
  "rl_env \<Rightarrow> rule list \<Rightarrow> rl_table \<Rightarrow> (rl_error, string option option \<times> rl_table) result" where
  "rate_gate_json e rs tab =
     (case first_tripped e rs tab of
        Inl err \<Rightarrow> Inl err
      | Inr (ro, tab') \<Rightarrow> Inr (map_option message ro, tab'))"

section \<open>A sequence of hits on one bucket\<close>

text \<open>\<open>run_row c w ro ts\<close> is the row after hits at the times \<open>ts\<close>, with which
  of them were let through under the cap \<open>c\<close>.\<close>

fun run_row :: "int \<Rightarrow> int \<Rightarrow> rl_row option \<Rightarrow> int list \<Rightarrow> (int \<times> bool) list" where
  "run_row c w ro [] = []"
| "run_row c w ro (t # ts) =
     (let r = upsert_row t w ro in (t, count r \<le> c) # run_row c w (Some r) ts)"

text \<open>The same sequence through \<^const>\<open>hit\<close> itself.\<close>

fun run_hits ::
  "rl_env \<Rightarrow> string \<Rightarrow> int \<Rightarrow> int \<Rightarrow> int list \<Rightarrow> rl_table
     \<Rightarrow> (rl_error, (int \<times> bool) list) result" where
  "run_hits e b c w [] tab = Inr []"
| "run_hits e b c w (t # ts) tab =
     (case hit (e\<lparr>now := t\<rparr>) b None (Some c) w tab of
        Inl err \<Rightarrow> Inl err
      | Inr (ok, tab') \<Rightarrow>
          (case run_hits e b c w ts tab' of
             Inl err \<Rightarrow> Inl err
           | Inr os \<Rightarrow> Inr ((t, ok) # os)))"

definition allowed_in :: "int \<Rightarrow> int \<Rightarrow> (int \<times> bool) list \<Rightarrow> int" where
  "allowed_in s e os = int (length (filter (\<lambda>(t, ok). ok \<and> s \<le> t \<and> t < e) os))"

lemma allowed_in_simps [simp]:
  "allowed_in s e [] = 0"
  "allowed_in s e ((t, ok) # os) =
     (if ok \<and> s \<le> t \<and> t < e then 1 else 0) + allowed_in s e os"
  by (simp_all add: allowed_in_def)

lemma allowed_in_late:
  "\<forall>t \<in> set ts. e \<le> t \<Longrightarrow> allowed_in s e (run_row c w ro ts) = 0"
  by (induction ts arbitrary: ro) (auto simp: Let_def)

lemma allowed_in_early:
  assumes "s' \<le> s"
  shows "allowed_in s e os \<le> allowed_in s' e os"
  using assms by (induction os) auto

definition left_over :: "int \<Rightarrow> rl_row \<Rightarrow> int" where
  "left_over c r = max 0 (c - count r)"

lemma within_one_window:
  assumes "sorted ts" and "e \<le> window_start r + 1000000 * w"
  shows "allowed_in s e (run_row c w (Some r) ts) \<le> left_over c r"
  using assms
proof (induction ts arbitrary: r)
  case Nil
  then show ?case by (simp add: left_over_def)
next
  case (Cons t ts)
  show ?case
  proof (cases "e \<le> t")
    case True
    with Cons.prems have "\<forall>u \<in> set (t # ts). e \<le> u" by auto
    then have "allowed_in s e (run_row c w (Some r) (t # ts)) = 0" by (rule allowed_in_late)
    then show ?thesis by (simp add: left_over_def)
  next
    case False
    define r' where "r' = upsert_row t w (Some r)"
    from False Cons.prems have "\<not> expired t w r" by (simp add: expired_def)
    then have r': "window_start r' = window_start r" "count r' = count r + 1"
      by (simp_all add: r'_def upsert_row_def)
    have "allowed_in s e (run_row c w (Some r') ts) \<le> left_over c r'"
      using Cons.IH [of r'] Cons.prems r' by simp
    then show ?thesis using r' by (auto simp: Let_def left_over_def simp flip: r'_def)
  qed
qed

lemma within_two_windows:
  assumes "sorted ts" and "0 \<le> c" and "e \<le> window_start r + 2 * (1000000 * w)"
  shows "allowed_in s e (run_row c w (Some r) ts) \<le> left_over c r + c"
  using assms
proof (induction ts arbitrary: r)
  case Nil
  then show ?case by (simp add: left_over_def)
next
  case (Cons t ts)
  define r' where "r' = upsert_row t w (Some r)"
  show ?case
  proof (cases "expired t w r")
    case True
    then have r': "window_start r' = t" "count r' = 1"
      by (simp_all add: r'_def upsert_row_def)
    from True Cons.prems have "e \<le> window_start r' + 1000000 * w"
      using r' by (simp add: expired_def)
    with Cons.prems have "allowed_in s e (run_row c w (Some r') ts) \<le> left_over c r'"
      by (intro within_one_window) auto
    then show ?thesis using r' Cons.prems
      by (auto simp: Let_def left_over_def simp flip: r'_def)
  next
    case False
    then have r': "window_start r' = window_start r" "count r' = count r + 1"
      by (simp_all add: r'_def upsert_row_def)
    have "allowed_in s e (run_row c w (Some r') ts) \<le> left_over c r' + c"
      using Cons.IH [of r'] Cons.prems r' by simp
    then show ?thesis using r' by (auto simp: Let_def left_over_def simp flip: r'_def)
  qed
qed

text \<open>A row whose count is not negative, as every row the upsert writes.\<close>

definition row_ok :: "rl_row option \<Rightarrow> bool" where
  "row_ok ro \<longleftrightarrow> (case ro of None \<Rightarrow> True | Some r \<Rightarrow> 0 \<le> count r)"

lemma upsert_row_ok [simp]: "row_ok ro \<Longrightarrow> row_ok (Some (upsert_row t w ro))"
  by (auto simp: row_ok_def upsert_row_def split: option.splits)

lemma any_interval_row:
  assumes "sorted ts" and "0 \<le> c" and "0 \<le> w" and "row_ok ro"
  shows "allowed_in s (s + 1000000 * w) (run_row c w ro ts) \<le> 2 * c"
  using assms
proof (induction ts arbitrary: ro)
  case Nil
  then show ?case by simp
next
  case (Cons t ts)
  let ?e = "s + 1000000 * w"
  define r' where "r' = upsert_row t w ro"
  have ok': "row_ok (Some r')" using Cons.prems by (simp add: r'_def)
  have rest: "allowed_in s ?e (run_row c w (Some r') ts) \<le> 2 * c"
    using Cons ok' by simp
  show ?case
  proof (cases "s \<le> t")
    case False
    then show ?thesis using rest by (simp add: Let_def flip: r'_def)
  next
    case True
    show ?thesis
    proof (cases "\<exists>r. ro = Some r \<and> s - 1000000 * w \<le> window_start r")
      case True
      then obtain r where r: "ro = Some r" "?e \<le> window_start r + 2 * (1000000 * w)" by auto
      have "allowed_in s ?e (run_row c w (Some r) (t # ts)) \<le> left_over c r + c"
        using Cons.prems r by (intro within_two_windows) auto
      then show ?thesis using r Cons.prems by (auto simp: left_over_def row_ok_def)
    next
      case False
      have new: "window_start r' = t" "count r' = 1"
        using False \<open>s \<le> t\<close> by (auto simp: r'_def upsert_row_def expired_def split: option.splits)
      have "allowed_in s ?e (run_row c w (Some r') ts) \<le> left_over c r'"
        using Cons.prems new \<open>s \<le> t\<close> by (intro within_one_window) auto
      then show ?thesis using new Cons.prems
        by (auto simp: Let_def left_over_def simp flip: r'_def)
    qed
  qed
qed

text \<open>Whether a hit is counted at all: not in test mode, unless forced.\<close>

definition counting :: "rl_env \<Rightarrow> bool" where
  "counting e \<longleftrightarrow> \<not> test_enable e \<or> force_rate_limit e"

lemma run_hits_eq:
  "run_hits e b c w ts tab =
     Inr (if counting e then run_row c w (tab b) ts else map (\<lambda>t. (t, True)) ts)"
  by (induction ts arbitrary: tab) (auto simp: hit_def Let_def counting_def)

section \<open>Properties\<close>

text \<open>
  C36. Whatever requests arrive on a bucket, in order of time, and whatever
  the bucket's row held before, the counter lets at most twice the cap
  through in any interval as long as the window: a tumbling window resets at
  most once inside it. No request raises.
\<close>

theorem hits_in_any_interval:
  assumes "sorted ts" and "0 \<le> c" and "0 \<le> w" and "row_ok (tab b)" and "counting e"
  shows "\<exists>os. run_hits e b c w ts tab = Inr os
           \<and> map fst os = ts \<and> allowed_in s (s + 1000000 * w) os \<le> 2 * c"
proof -
  have "map fst (run_row c w ro ts) = ts" for ro
    by (induction ts arbitrary: ro) (auto simp: Let_def)
  then show ?thesis
    using any_interval_row [OF assms(1-4)] assms(5) by (simp add: run_hits_eq)
qed


theorem hits_in_any_interval_witness:
  "\<exists>os. run_hits \<lparr>test_enable = False, force_rate_limit = False, settings = (\<lambda>_. None), now = 0\<rparr>
           ''connect_user:7'' 2 60 [0, 1, 59000000, 60000000, 60000001, 60000002] Map.empty = Inr os
         \<and> map fst os = [0, 1, 59000000, 60000000, 60000001, 60000002]
         \<and> allowed_in 1 (1 + 1000000 * 60) os \<le> 2 * 2"
  by (rule hits_in_any_interval) (simp_all add: row_ok_def counting_def)

lemma gc_row:
  assumes "w \<le> h * 3600" and "t \<le> u"
  shows "upsert_row u w (gc t h tab b) = upsert_row u w (tab b)"
proof (cases "tab b")
  case None
  then show ?thesis by (simp add: gc_def)
next
  case (Some r)
  have "expired u w r" if "window_start r < t - h * 3600 * 1000000"
    using that assms by (simp add: expired_def)
  with Some show ?thesis by (auto simp: gc_def upsert_row_def)
qed

text \<open>
  The daily garbage collection is invisible: as long as the window is no
  longer than the age at which rows are removed, every request after it is
  answered as it would have been without it, on every bucket.
\<close>

theorem gc_invisible:
  assumes "w \<le> h * 3600" and "\<forall>u \<in> set ts. t \<le> u"
  shows "run_hits e b c w ts (gc t h tab) = run_hits e b c w ts tab"
proof -
  have "run_row c w (gc t h tab b) ts = run_row c w (tab b) ts"
    using assms by (cases ts) (simp_all add: gc_row Let_def)
  then show ?thesis by (simp add: run_hits_eq)
qed

theorem gc_invisible_witness:
  "run_hits \<lparr>test_enable = False, force_rate_limit = False, settings = (\<lambda>_. None), now = 0\<rparr>
     ''logs:3'' 1 60 [200000000000] (gc 190000000000 24 [''logs:3'' \<mapsto> \<lparr>window_start = 5, count = 9\<rparr>])
   = run_hits \<lparr>test_enable = False, force_rate_limit = False, settings = (\<lambda>_. None), now = 0\<rparr>
     ''logs:3'' 1 60 [200000000000] [''logs:3'' \<mapsto> \<lparr>window_start = 5, count = 9\<rparr>]"
  by (rule gc_invisible) simp_all

end
