(* ===== verification/Restore_Space.thy ===== *)
theory Restore_Space
  imports IC_Prelude
begin

text \<open>
  How much of a host's disk a restore may take: \<^verbatim>\<open>incubacloud/restore_space.py\<close>.
  Sizes are Python integers. The refusals are values that carry the numbers
  the message prints.
\<close>

definition GIB :: int where
  "GIB = 1024 ^ 3"

definition RESERVE_BYTES :: int where
  "RESERVE_BYTES = 5 * GIB"

definition UNPACK_FACTOR :: int where
  "UNPACK_FACTOR = 2"

definition largest_download :: "int \<Rightarrow> int" where
  "largest_download free = max 0 ((free - RESERVE_BYTES) div (1 + UNPACK_FACTOR))"

definition room_needed :: "int \<Rightarrow> int \<Rightarrow> int" where
  "room_needed archive_bytes copies = RESERVE_BYTES + archive_bytes * (copies + UNPACK_FACTOR)"

record disks =
  job_disk :: int
  docker_disk :: int
  shared :: bool

definition free_of :: "disks \<Rightarrow> int" where
  "free_of d = min (job_disk d) (docker_disk d)"

text \<open>Text the measuring command printed: digits, words and lines, as
  \<^verbatim>\<open>str.isdigit\<close>, \<^verbatim>\<open>str.split\<close> and \<^verbatim>\<open>str.splitlines\<close> read ASCII text.\<close>

definition is_digit :: "char \<Rightarrow> bool" where
  "is_digit c \<longleftrightarrow> c \<in> set ''0123456789''"

definition isdigit :: "string \<Rightarrow> bool" where
  "isdigit s \<longleftrightarrow> s \<noteq> [] \<and> list_all is_digit s"

definition digit_val :: "char \<Rightarrow> int" where
  "digit_val c = int (of_char c) - 48"

fun to_int :: "int \<Rightarrow> string \<Rightarrow> int" where
  "to_int acc [] = acc"
| "to_int acc (c # cs) = to_int (10 * acc + digit_val c) cs"

definition is_space :: "char \<Rightarrow> bool" where
  "is_space c \<longleftrightarrow> (of_char c :: nat) \<in> {9, 10, 11, 12, 13, 28, 29, 30, 31, 32}"

definition is_newline :: "char \<Rightarrow> bool" where
  "is_newline c \<longleftrightarrow> (of_char c :: nat) \<in> {10, 11, 12, 13, 28, 29, 30}"

definition strip :: "string \<Rightarrow> string" where
  "strip s = rev (dropWhile is_space (rev (dropWhile is_space s)))"

fun words :: "string \<Rightarrow> string \<Rightarrow> string list" where
  "words acc [] = (if acc = [] then [] else [rev acc])"
| "words acc (c # cs) =
     (if is_space c then (if acc = [] then words [] cs else rev acc # words [] cs)
      else words (c # acc) cs)"

fun splitlines :: "string \<Rightarrow> string \<Rightarrow> string list" where
  "splitlines acc [] = (if acc = [] then [] else [rev acc])"
| "splitlines acc (c # cs) =
     (if of_char c = (13 :: nat) then
        rev acc # (case cs of [] \<Rightarrow> [] | d # ds \<Rightarrow>
                     if of_char d = (10 :: nat) then splitlines [] ds else splitlines [] cs)
      else if is_newline c then rev acc # splitlines [] cs
      else splitlines (c # acc) cs)"

definition last2 :: "'a list \<Rightarrow> 'a list" where
  "last2 xs = drop (length xs - 2) xs"

definition parse_free :: "string \<Rightarrow> int option" where
  "parse_free stdout =
     (let text = splitlines [] (strip stdout);
          val = (if text \<noteq> [] then strip (last text) else [])
      in if isdigit val then Some (to_int 0 val) else None)"

definition parse_row :: "string \<Rightarrow> (int \<times> int) option" where
  "parse_row line =
     (let ws = words [] line
      in if length ws \<noteq> 2 \<or> \<not> list_all isdigit ws then None
         else Some (to_int 0 (ws ! 0), to_int 0 (ws ! 1)))"

definition parse_disks :: "string \<Rightarrow> disks option" where
  "parse_disks stdout =
     (let rows = map parse_row (last2 (splitlines [] (strip stdout)))
      in if None \<in> set rows \<or> length rows \<noteq> 2 then None
         else (let a = the (rows ! 0); b = the (rows ! 1)
               in Some \<lparr>job_disk = snd a, docker_disk = snd b, shared = (fst a = fst b)\<rparr>))"

text \<open>\<^verbatim>\<open>//\<close> raises on a zero divisor: \<open>None\<close>.\<close>

definition largest_archive :: "disks \<Rightarrow> int \<Rightarrow> int option" where
  "largest_archive d on_job_disk =
     (if shared d then
        (if on_job_disk + UNPACK_FACTOR = 0 then None
         else Some (max 0 ((free_of d - RESERVE_BYTES) div (on_job_disk + UNPACK_FACTOR))))
      else if on_job_disk = 0 then None
      else Some (max 0 (min (job_disk d div on_job_disk)
                            ((docker_disk d - RESERVE_BYTES) div UNPACK_FACTOR))))"

datatype refusal =
    NoRoom int int          \<comment> \<open>one disk: bytes free, bytes needed\<close>
  | NoRoomInTmp int int     \<comment> \<open>the job's disk\<close>
  | NoRoomForInstances int int  \<comment> \<open>Docker's disk\<close>

definition room_refusal :: "disks \<Rightarrow> int \<Rightarrow> int \<Rightarrow> refusal option" where
  "room_refusal d archive_bytes copies =
     (if shared d then
        (let needed = room_needed archive_bytes copies
         in if free_of d < needed then Some (NoRoom (free_of d) needed) else None)
      else if job_disk d < archive_bytes * copies then
        Some (NoRoomInTmp (job_disk d) (archive_bytes * copies))
      else if docker_disk d < RESERVE_BYTES + archive_bytes * UNPACK_FACTOR then
        Some (NoRoomForInstances (docker_disk d) (RESERVE_BYTES + archive_bytes * UNPACK_FACTOR))
      else None)"

section \<open>Properties\<close>

text \<open>
  The two questions a restore asks agree: an archive of at least one byte
  is refused for lack of room exactly when it is larger than the largest
  archive the same disks allow for the same number of copies, on one disk or
  on two.
\<close>

theorem room_refusal_iff_larger:
  assumes "0 < archive_bytes" and "0 < copies"
  shows "\<exists>m. largest_archive d copies = Some m
            \<and> (room_refusal d archive_bytes copies = None \<longleftrightarrow> archive_bytes \<le> m)"
  using assms
  by (auto simp: largest_archive_def room_refusal_def room_needed_def UNPACK_FACTOR_def
      Let_def le_div_iff le_max_iff_disj algebra_simps)

theorem room_refusal_iff_larger_witness:
  "\<exists>m. largest_archive \<lparr>job_disk = 9 * GIB, docker_disk = 9 * GIB, shared = True\<rparr> 2 = Some m
     \<and> (room_refusal \<lparr>job_disk = 9 * GIB, docker_disk = 9 * GIB, shared = True\<rparr> GIB 2 = None
        \<longleftrightarrow> GIB \<le> m)"
  by (rule room_refusal_iff_larger) (simp_all add: GIB_def)

text \<open>
  What a restore may take leaves the reserve: an archive no larger than
  the allowance, written in that many copies and unpacked, leaves at least
  five GiB free on the disk the host's instances are kept on, and never more
  than what is free is written to \<^verbatim>\<open>/tmp\<close>.
\<close>

theorem largest_archive_leaves_reserve:
  assumes "largest_archive d n = Some m" and "0 < n" and "0 \<le> a" and "a \<le> m" and "0 < m"
  shows "(if shared d then RESERVE_BYTES \<le> free_of d - a * (n + UNPACK_FACTOR)
          else a * n \<le> job_disk d \<and> RESERVE_BYTES \<le> docker_disk d - a * UNPACK_FACTOR)"
  using assms
  by (auto simp: largest_archive_def UNPACK_FACTOR_def le_div_iff le_max_iff_disj max_def
      algebra_simps split: if_splits)

theorem largest_archive_leaves_reserve_witness:
  "(if shared \<lparr>job_disk = 4 * GIB, docker_disk = 9 * GIB, shared = False\<rparr>
    then RESERVE_BYTES \<le> free_of \<lparr>job_disk = 4 * GIB, docker_disk = 9 * GIB, shared = False\<rparr>
                           - GIB * (2 + UNPACK_FACTOR)
    else GIB * 2 \<le> job_disk \<lparr>job_disk = 4 * GIB, docker_disk = 9 * GIB, shared = False\<rparr>
         \<and> RESERVE_BYTES \<le> docker_disk \<lparr>job_disk = 4 * GIB, docker_disk = 9 * GIB, shared = False\<rparr>
                              - GIB * UNPACK_FACTOR)"
  by (rule largest_archive_leaves_reserve [where m = "2 * GIB"])
     (simp_all add: largest_archive_def GIB_def RESERVE_BYTES_def UNPACK_FACTOR_def free_of_def)

end
