(* ===== verification/Json.thy ===== *)
theory Json
  imports Complex_Main IC_Prelude
begin

text \<open>
  Decoded JSON values as Python holds them: what a job's \<^verbatim>\<open>payload\<close> stores
  and what an MCP tool receives and answers. A string is the list of its
  code points; a dict keeps the order of insertion, so it is an association
  list; a float is its exact value or one of the three special ones.
\<close>

type_synonym pystr = "nat list"

definition lit :: "string \<Rightarrow> pystr" where
  "lit s = map of_char s"

lemma lit_eq: "lit s = lit t \<longleftrightarrow> s = t"
  by (auto simp: lit_def inj_map_eq_map inj_of_char)

text \<open>\<^verbatim>\<open>str.isspace\<close>, the characters \<^verbatim>\<open>\s\<close> matches.\<close>

definition py_space :: "nat \<Rightarrow> bool" where
  "py_space c \<longleftrightarrow> 9 \<le> c \<and> c \<le> 13 \<or> 28 \<le> c \<and> c \<le> 32 \<or> c \<in> {133, 160, 5760, 8232, 8233, 8239, 8287, 12288} \<or>
     8192 \<le> c \<and> c \<le> 8202"

datatype pyfloat = Fin rat | PosInf | NegInf | NaN

datatype json =
    JNull
  | JBool bool
  | JInt int
  | JFloat pyfloat
  | JStr pystr
  | JList "json list"
  | JObj "(pystr \<times> json) list"

type_synonym dict = "(pystr \<times> json) list"

section \<open>Dictionaries\<close>

text \<open>\<^verbatim>\<open>d.get(key)\<close>: \<^const>\<open>JNull\<close> for a missing key.\<close>

definition dget :: "dict \<Rightarrow> string \<Rightarrow> json" where
  "dget d k = (case map_of d (lit k) of None \<Rightarrow> JNull | Some v \<Rightarrow> v)"

text \<open>\<^verbatim>\<open>d.get(key, '')\<close>.\<close>

definition dget_str :: "dict \<Rightarrow> string \<Rightarrow> json" where
  "dget_str d k = (case map_of d (lit k) of None \<Rightarrow> JStr [] | Some v \<Rightarrow> v)"

text \<open>\<^verbatim>\<open>d[key] = v\<close>: in place when the key is there, at the end otherwise.\<close>

fun dset :: "pystr \<Rightarrow> json \<Rightarrow> dict \<Rightarrow> dict" where
  "dset k v [] = [(k, v)]"
| "dset k v ((k', v') # d) = (if k = k' then (k, v) # d else (k', v') # dset k v d)"

lemma map_of_dset: "map_of (dset k v d) = (map_of d)(k \<mapsto> v)"
  by (induction k v d rule: dset.induct) auto

lemma fst_dset: "fst ` set (dset k v d) = insert k (fst ` set d)"
  by (induction k v d rule: dset.induct) auto

lemma distinct_dset: "distinct (map fst d) \<Longrightarrow> distinct (map fst (dset k v d))"
  by (induction k v d rule: dset.induct) (auto simp: fst_dset)

section \<open>Truth and equality\<close>

fun truthy :: "json \<Rightarrow> bool" where
  "truthy JNull = False"
| "truthy (JBool b) = b"
| "truthy (JInt i) = (i \<noteq> 0)"
| "truthy (JFloat f) = (f \<noteq> Fin 0)"
| "truthy (JStr s) = (s \<noteq> [])"
| "truthy (JList xs) = (xs \<noteq> [])"
| "truthy (JObj d) = (d \<noteq> [])"

text \<open>Python compares numbers by value, booleans among them.\<close>

fun num_of :: "json \<Rightarrow> rat option" where
  "num_of (JBool b) = Some (of_bool b)"
| "num_of (JInt i) = Some (of_int i)"
| "num_of (JFloat (Fin q)) = Some q"
| "num_of _ = None"

lemma size_zip_elem: "(x, y) \<in> set (zip xs ys) \<Longrightarrow> size x < Suc (size_list size xs)"
  by (meson le_imp_less_Suc set_zip_leftD size_list_estimation' order_refl)

lemma size_obj_elem:
  "(k, x) \<in> set xs \<Longrightarrow> size x < Suc (size_list (size_prod (\<lambda>_. 0) size) xs)"
  by (induction xs) auto

function json_eq :: "json \<Rightarrow> json \<Rightarrow> bool" where
  "json_eq a b =
     (case (a, b) of
        (JNull, JNull) \<Rightarrow> True
      | (JFloat PosInf, JFloat PosInf) \<Rightarrow> True
      | (JFloat NegInf, JFloat NegInf) \<Rightarrow> True
      | (JStr s, JStr t) \<Rightarrow> s = t
      | (JList xs, JList ys) \<Rightarrow>
          length xs = length ys \<and> (\<forall>(x, y) \<in> set (zip xs ys). json_eq x y)
      | (JObj xs, JObj ys) \<Rightarrow>
          length xs = length ys \<and>
          (\<forall>(k, x) \<in> set xs. case map_of ys k of None \<Rightarrow> False | Some y \<Rightarrow> json_eq x y)
      | _ \<Rightarrow> num_of a \<noteq> None \<and> num_of a = num_of b)"
  by pat_completeness auto

termination
  by (relation "measure (\<lambda>(a, b). size a)") (auto dest: size_zip_elem size_obj_elem)

declare json_eq.simps [simp del]

text \<open>A value without a NaN anywhere and without repeated keys is equal to
  itself.\<close>

fun wf_json :: "json \<Rightarrow> bool" where
  "wf_json (JFloat f) = (f \<noteq> NaN)"
| "wf_json (JList xs) = list_all wf_json xs"
| "wf_json (JObj d) = (distinct (map fst d) \<and> list_all (\<lambda>(k, v). wf_json v) d)"
| "wf_json _ = True"

lemma json_eq_refl: "wf_json a \<Longrightarrow> json_eq a a"
proof (induction a)
  case (JFloat f)
  then show ?case by (cases f) (simp_all add: json_eq.simps)
next
  case (JList xs)
  then show ?case
    by (auto simp: json_eq.simps [of "JList xs"] zip_same list_all_iff)
next
  case (JObj d)
  have "case map_of d k of None \<Rightarrow> False | Some y \<Rightarrow> json_eq x y" if "(k, x) \<in> set d" for k x
    using JObj that by (auto simp: list_all_iff intro: JObj.IH)
  then show ?case by (auto simp: json_eq.simps [of "JObj d"])
qed (simp_all add: json_eq.simps)

end
