(* ===== verification/Py_Text.thy ===== *)
theory Py_Text
  imports Json
begin

text \<open>
  Python's operations on texts that the components share, a text being the list of its
  code points: numbers as text, stripping, splitting, the ASCII letters.
\<close>

section \<open>Numbers as text\<close>

function decimal :: "nat \<Rightarrow> pystr" where
  "decimal n = (if n < 10 then [48 + n] else decimal (n div 10) @ [48 + n mod 10])"
  by pat_completeness auto

termination
  by (relation "measure id") auto

definition hex_digit :: "nat \<Rightarrow> nat" where
  "hex_digit n = (if n < 10 then 48 + n else 87 + n)"

text \<open>\<^verbatim>\<open>int(text)\<close> and \<^verbatim>\<open>int(text, 16)\<close> of ASCII digits.\<close>

definition digit :: "nat \<Rightarrow> bool" where
  "digit c \<longleftrightarrow> 48 \<le> c \<and> c \<le> 57"

definition hex :: "nat \<Rightarrow> bool" where
  "hex c \<longleftrightarrow> digit c \<or> 65 \<le> c \<and> c \<le> 70 \<or> 97 \<le> c \<and> c \<le> 102"

definition hex_value :: "nat \<Rightarrow> nat" where
  "hex_value c = (if digit c then c - 48 else if c \<le> 70 then c - 55 else c - 87)"

definition of_digits :: "nat \<Rightarrow> (nat \<Rightarrow> nat) \<Rightarrow> pystr \<Rightarrow> nat" where
  "of_digits base value s = fold (\<lambda>c n. base * n + value c) s 0"

definition decimal_value :: "pystr \<Rightarrow> nat" where
  "decimal_value s = of_digits 10 (\<lambda>c. c - 48) s"

section \<open>Stripping and splitting\<close>

text \<open>\<^verbatim>\<open>str.splitlines\<close>, \<^verbatim>\<open>str.lstrip\<close> and \<^verbatim>\<open>str.strip\<close>.\<close>

definition line_end :: "nat \<Rightarrow> bool" where
  "line_end c \<longleftrightarrow> 10 \<le> c \<and> c \<le> 13 \<or> 28 \<le> c \<and> c \<le> 30 \<or> c \<in> {133, 8232, 8233}"

fun split_lines :: "pystr \<Rightarrow> pystr \<Rightarrow> pystr list" where
  "split_lines line [] = (if line = [] then [] else [line])"
| "split_lines line (c # s) =
     (if c = 13 \<and> s \<noteq> [] \<and> hd s = 10 then line # split_lines [] (tl s)
      else if line_end c then line # split_lines [] s
      else split_lines (line @ [c]) s)"

definition lstrip :: "pystr \<Rightarrow> pystr" where
  "lstrip s = dropWhile py_space s"

definition strip :: "pystr \<Rightarrow> pystr" where
  "strip s = rev (dropWhile py_space (rev (lstrip s)))"

definition rstrip_char :: "nat \<Rightarrow> pystr \<Rightarrow> pystr" where
  "rstrip_char c s = rev (dropWhile (\<lambda>x. x = c) (rev s))"

text \<open>\<^verbatim>\<open>s.split(sep)\<close> for a separator of one character, or a class of them.\<close>

fun split_where :: "(nat \<Rightarrow> bool) \<Rightarrow> pystr \<Rightarrow> pystr list" where
  "split_where P [] = [[]]"
| "split_where P (c # s) =
     (if P c then [] # split_where P s
      else case split_where P s of [] \<Rightarrow> [[c]] | w # ws \<Rightarrow> (c # w) # ws)"

abbreviation split_on :: "nat \<Rightarrow> pystr \<Rightarrow> pystr list" where
  "split_on c \<equiv> split_where (\<lambda>x. x = c)"

text \<open>\<^verbatim>\<open>s.split()\<close>.\<close>

definition words :: "pystr \<Rightarrow> pystr list" where
  "words s = filter (\<lambda>w. w \<noteq> []) (split_where py_space s)"

text \<open>\<^verbatim>\<open>sep.join(parts)\<close> for a separator of one character.\<close>

fun join_with :: "nat \<Rightarrow> pystr list \<Rightarrow> pystr" where
  "join_with c [] = []"
| "join_with c [w] = w"
| "join_with c (w # ws) = w @ c # join_with c ws"

definition ascii :: "pystr \<Rightarrow> bool" where
  "ascii s \<longleftrightarrow> list_all (\<lambda>c. c < 128) s"

definition ascii_lower :: "nat \<Rightarrow> nat" where
  "ascii_lower c = (if 65 \<le> c \<and> c \<le> 90 then c + 32 else c)"

lemma split_where_nonempty [simp]: "split_where P s \<noteq> []"
  by (induction s) (auto split: list.split)

lemma split_where_none: "\<forall>c \<in> set s. \<not> P c \<Longrightarrow> split_where P s = [s]"
  by (induction s) auto

lemma split_where_pieces: "w \<in> set (split_where P s) \<Longrightarrow> c \<in> set w \<Longrightarrow> c \<in> set s \<and> \<not> P c"
proof (induction s arbitrary: w)
  case (Cons x s)
  obtain v vs where v: "split_where P s = v # vs" by (cases "split_where P s") auto
  show ?case using Cons.prems Cons.IH[of w] Cons.IH[of v] v by (auto split: if_splits)
qed simp

lemma join_split: "join_with c (split_on c s) = s"
proof (induction s)
  case (Cons x s)
  obtain v vs where v: "split_on c s = v # vs" by (cases "split_on c s") auto
  then show ?case using Cons by (cases vs) auto
qed simp

lemma split_append: "P c \<Longrightarrow> split_where P (s @ c # t) = split_where P s @ split_where P t"
proof (induction s)
  case (Cons x s)
  obtain v vs where v: "split_where P s = v # vs" by (cases "split_where P s") auto
  with Cons show ?case by auto
qed simp

lemma strip_idle:
  assumes "\<forall>c \<in> set s. \<not> py_space c"
  shows "strip s = s"
proof -
  have "dropWhile py_space t = t" if "set t \<subseteq> set s" for t
    using that assms by (cases t) auto
  then show ?thesis by (simp add: strip_def lstrip_def)
qed

lemma strip_subset: "set (strip s) \<subseteq> set s"
  by (auto simp: strip_def lstrip_def dest!: set_dropWhileD)

end
