(* ===== verification/Net_Address.thy ===== *)
theory Net_Address
  imports Py_Text "HOL-Library.Word"
begin

text \<open>
  Addresses and networks as Python's \<^verbatim>\<open>ipaddress\<close> reads, prints and classifies them: what
  the checks of \<^verbatim>\<open>incubacloud/net\<close> rest on. An address is a word of its length, an IPv6 one
  with its zone; a network is its first address, zone included, and the length of its prefix.
\<close>

unbundle bit_operations_syntax

section \<open>Addresses and networks\<close>

datatype ip = V4 "32 word" | V6 "128 word" pystr

datatype net = Net4 "32 word" nat | Net6z "128 word" nat pystr

abbreviation Net6 :: "128 word \<Rightarrow> nat \<Rightarrow> net" where
  "Net6 a n \<equiv> Net6z a n []"

definition netmask :: "nat \<Rightarrow> 'a::len word" where
  "netmask n = NOT (mask (LENGTH('a) - n))"

text \<open>\<^verbatim>\<open>address in network\<close>: never across versions.\<close>

fun in_net :: "ip \<Rightarrow> net \<Rightarrow> bool" where
  "in_net (V4 a) (Net4 b n) \<longleftrightarrow> a AND netmask n = b"
| "in_net (V6 a z) (Net6z b n w) \<longleftrightarrow> a AND netmask n = b"
| "in_net _ _ \<longleftrightarrow> False"

definition in_any :: "ip \<Rightarrow> net list \<Rightarrow> bool" where
  "in_any ip ns \<longleftrightarrow> list_ex (in_net ip) ns"

text \<open>\<^verbatim>\<open>ipv4_mapped\<close>.\<close>

fun ipv4_mapped :: "ip \<Rightarrow> ip option" where
  "ipv4_mapped (V6 a z) = (if drop_bit 32 a = 0xFFFF then Some (V4 (ucast a)) else None)"
| "ipv4_mapped (V4 a) = None"

fun version_of :: "ip \<Rightarrow> nat" where
  "version_of (V4 a) = 4"
| "version_of (V6 a z) = 6"

fun net_version :: "net \<Rightarrow> nat" where
  "net_version (Net4 a n) = 4"
| "net_version (Net6z a n z) = 6"

section \<open>Reading\<close>

fun all_some :: "'a option list \<Rightarrow> 'a list option" where
  "all_some [] = Some []"
| "all_some (None # xs) = None"
| "all_some (Some x # xs) = map_option ((#) x) (all_some xs)"

definition parse_octet :: "pystr \<Rightarrow> nat option" where
  "parse_octet s =
     (if s = [] \<or> \<not> list_all digit s \<or> 3 < length s \<or> (s \<noteq> [48] \<and> hd s = 48) \<or> 255 < decimal_value s
      then None else Some (decimal_value s))"

definition parse_v4 :: "pystr \<Rightarrow> (32 word) option" where
  "parse_v4 s =
     (case map parse_octet (split_on 46 s) of
        [Some a, Some b, Some c, Some d] \<Rightarrow> Some (of_nat (((a * 256 + b) * 256 + c) * 256 + d))
      | _ \<Rightarrow> None)"

definition parse_hextet :: "pystr \<Rightarrow> nat option" where
  "parse_hextet s =
     (if s = [] \<or> \<not> list_all hex s \<or> 4 < length s then None else Some (of_digits 16 hex_value s))"

definition hextets :: "pystr list \<Rightarrow> nat list option" where
  "hextets ps = all_some (map parse_hextet ps)"

definition of_hextets :: "nat list \<Rightarrow> nat" where
  "of_hextets hs = fold (\<lambda>h n. 65536 * n + h) hs 0"

text \<open>The parts between colons, a dotted last one as two hextets.\<close>

definition v6_parts :: "pystr \<Rightarrow> pystr list option" where
  "v6_parts s =
     (let parts = split_on 58 s; end = last parts in
      if length parts < 3 then None
      else if 46 \<in> set end
           then case parse_v4 end of
                  None \<Rightarrow> None
                | Some a \<Rightarrow> Some (butlast parts @
                    [map hex_digit [unat a div 65536 div 4096, unat a div 65536 div 256 mod 16,
                                    unat a div 65536 div 16 mod 16, unat a div 65536 mod 16],
                     map hex_digit [unat a mod 65536 div 4096, unat a mod 65536 div 256 mod 16,
                                    unat a mod 65536 div 16 mod 16, unat a mod 16]])
           else Some parts)"

definition parse_v6_digits :: "pystr \<Rightarrow> (128 word) option" where
  "parse_v6_digits s =
     (case v6_parts s of
        None \<Rightarrow> None
      | Some parts \<Rightarrow>
          let len = length parts; skips = filter (\<lambda>i. parts ! i = []) [1..<len - 1] in
          if 9 < len then None
          else case skips of
              [] \<Rightarrow>
                if len \<noteq> 8 then None else map_option (\<lambda>hs. of_nat (of_hextets hs)) (hextets parts)
            | [i] \<Rightarrow>
                let hi = (if hd parts = [] then i - 1 else i);
                    lo = (if last parts = [] then len - i - 2 else len - i - 1)
                in if hd parts = [] \<and> hi \<noteq> 0 \<or> last parts = [] \<and> lo \<noteq> 0 \<or> 8 \<le> hi + lo then None
                   else (case (hextets (take hi parts), hextets (drop (len - lo) parts)) of
                           (Some hs, Some ls) \<Rightarrow>
                             Some (of_nat (of_hextets (hs @ replicate (8 - (hi + lo)) 0 @ ls)))
                         | _ \<Rightarrow> None)
            | _ \<Rightarrow> None)"

definition parse_v6 :: "pystr \<Rightarrow> ip option" where
  "parse_v6 s =
     (let zoned = 37 \<in> set s; digits = takeWhile (\<lambda>c. c \<noteq> 37) s; zone = drop (Suc (length digits)) s in
      if 47 \<in> set s \<or> zoned \<and> (zone = [] \<or> 37 \<in> set zone) then None
      else map_option (\<lambda>a. V6 a zone) (parse_v6_digits digits))"

text \<open>\<^verbatim>\<open>ipaddress.ip_address(text)\<close>, \<open>None\<close> where it raises \<^verbatim>\<open>ValueError\<close>.\<close>

definition ip_address :: "pystr \<Rightarrow> ip option" where
  "ip_address s = (case parse_v4 s of Some a \<Rightarrow> Some (V4 a) | None \<Rightarrow> parse_v6 s)"

text \<open>The length of a prefix: a number, or for IPv4 the mask itself or its complement.\<close>

definition prefix_number :: "nat \<Rightarrow> pystr \<Rightarrow> nat option" where
  "prefix_number most s =
     (if s = [] \<or> \<not> list_all digit s \<or> most < decimal_value s then None else Some (decimal_value s))"

definition prefix_of_mask :: "32 word \<Rightarrow> nat option" where
  "prefix_of_mask a = find (\<lambda>n. a = netmask n) [0..<33]"

definition prefix_v4 :: "pystr \<Rightarrow> nat option" where
  "prefix_v4 s =
     (case prefix_number 32 s of
        Some n \<Rightarrow> Some n
      | None \<Rightarrow>
          (case parse_v4 s of
             None \<Rightarrow> None
           | Some a \<Rightarrow> (case prefix_of_mask a of Some n \<Rightarrow> Some n | None \<Rightarrow> prefix_of_mask (NOT a))))"

text \<open>\<^verbatim>\<open>ipaddress.ip_network(text, strict=False)\<close>: the bits past the prefix are dropped,
  and the zone with them when there are any.\<close>

definition network4 :: "pystr \<Rightarrow> pystr option \<Rightarrow> net option" where
  "network4 addr pre =
     (case (parse_v4 addr, case pre of None \<Rightarrow> Some 32 | Some p \<Rightarrow> prefix_v4 p) of
        (Some a, Some n) \<Rightarrow> Some (Net4 (a AND netmask n) n)
      | _ \<Rightarrow> None)"

definition network6 :: "pystr \<Rightarrow> pystr option \<Rightarrow> net option" where
  "network6 addr pre =
     (case (parse_v6 addr, case pre of None \<Rightarrow> Some 128 | Some p \<Rightarrow> prefix_number 128 p) of
        (Some (V6 a z), Some n) \<Rightarrow> Some (Net6z (a AND netmask n) n (if a AND netmask n = a then z else []))
      | _ \<Rightarrow> None)"

definition ip_network :: "pystr \<Rightarrow> net option" where
  "ip_network s =
     (let try = (\<lambda>addr pre. case network4 addr pre of Some n \<Rightarrow> Some n | None \<Rightarrow> network6 addr pre)
      in case split_on 47 s of
           [addr] \<Rightarrow> try addr None
         | [addr, pre] \<Rightarrow> try addr (Some pre)
         | _ \<Rightarrow> None)"

section \<open>Printing\<close>

definition show_v4 :: "32 word \<Rightarrow> pystr" where
  "show_v4 a =
     (let n = unat a in
      decimal (n div 16777216) @ 46 # decimal (n div 65536 mod 256) @ 46 # decimal (n div 256 mod 256) @
        46 # decimal (n mod 256))"

definition hextets_of :: "128 word \<Rightarrow> nat list" where
  "hextets_of a = map (\<lambda>i. unat (drop_bit (16 * i) a) mod 65536) [7, 6, 5, 4, 3, 2, 1, 0]"

definition show_hextet :: "nat \<Rightarrow> pystr" where
  "show_hextet h =
     (let ds = dropWhile (\<lambda>d. d = 0) [h div 4096, h div 256 mod 16, h div 16 mod 16, h mod 16]
      in if ds = [] then [48] else map hex_digit ds)"

text \<open>The first of the longest runs of zeros: where it starts and how long it is.\<close>

definition zero_run :: "nat list \<Rightarrow> nat \<Rightarrow> nat" where
  "zero_run hs i = length (takeWhile (\<lambda>h. h = 0) (drop i hs))"

definition longest_run :: "nat list \<Rightarrow> nat \<times> nat" where
  "longest_run hs =
     fold (\<lambda>i (j, n). if n < zero_run hs i then (i, zero_run hs i) else (j, n)) [0..<length hs] (0, 0)"

definition compress_hextets :: "nat list \<Rightarrow> pystr list" where
  "compress_hextets hs =
     (let (i, n) = longest_run hs; parts = map show_hextet hs in
      if 1 < n
      then (if i = 0 then [[]] else []) @ take i parts @ [[]] @ drop (i + n) parts @
             (if i + n = length hs then [[]] else [])
      else parts)"

fun show_ip :: "ip \<Rightarrow> pystr" where
  "show_ip (V4 a) = show_v4 a"
| "show_ip (V6 a z) = join_with 58 (compress_hextets (hextets_of a)) @ (if z = [] then [] else 37 # z)"

fun show_net :: "net \<Rightarrow> pystr" where
  "show_net (Net4 a n) = show_ip (V4 a) @ 47 # decimal n"
| "show_net (Net6z a n z) = show_ip (V6 a z) @ 47 # decimal n"

section \<open>Classes of addresses\<close>

definition n6 :: "128 word \<Rightarrow> nat \<Rightarrow> net" where
  "n6 head n = Net6 (push_bit 112 head) n"

definition PRIVATE_NETWORKS :: "net list" where
  "PRIVATE_NETWORKS =
     [Net4 0 8, Net4 0x0A000000 8, Net4 0x7F000000 8, Net4 0xA9FE0000 16, Net4 0xAC100000 12,
      Net4 0xC0000000 24, Net4 0xC00000AA 31, Net4 0xC0000200 24, Net4 0xC0A80000 16, Net4 0xC6120000 15,
      Net4 0xC6336400 24, Net4 0xCB007100 24, Net4 0xF0000000 4, Net4 0xFFFFFFFF 32,
      Net6 1 128, Net6 0 128, Net6 0xFFFF00000000 96, Net6 (push_bit 80 0x64FF9B0001) 48, n6 0x100 64,
      n6 0x2001 23, Net6 (push_bit 96 0x20010DB8) 32, n6 0x2002 16, n6 0xFC00 7, n6 0xFE80 10]"

definition PRIVATE_EXCEPTIONS :: "net list" where
  "PRIVATE_EXCEPTIONS =
     [Net4 0xC0000009 32, Net4 0xC000000A 32,
      Net6 (push_bit 96 0x20010001 + 1) 128, Net6 (push_bit 96 0x20010001 + 2) 128, Net6 (push_bit 96 0x20010003) 32,
      Net6 (push_bit 80 0x200100040112) 48, Net6 (push_bit 96 0x20010020) 28, Net6 (push_bit 96 0x20010030) 28]"

definition RESERVED_NETWORKS :: "net list" where
  "RESERVED_NETWORKS =
     [Net4 0xF0000000 4, n6 0 8, n6 0x100 8, n6 0x200 7, n6 0x400 6, n6 0x800 5, n6 0x1000 4, n6 0x4000 3,
      n6 0x6000 3, n6 0x8000 3, n6 0xA000 3, n6 0xC000 3, n6 0xE000 4, n6 0xF000 5, n6 0xF800 6, n6 0xFE00 9]"

definition SHARED_NETWORK :: net where
  "SHARED_NETWORK = Net4 0x64400000 10"

definition unmapped :: "ip \<Rightarrow> ip" where
  "unmapped ip = (case ipv4_mapped ip of None \<Rightarrow> ip | Some v4 \<Rightarrow> v4)"

definition is_private :: "ip \<Rightarrow> bool" where
  "is_private ip \<longleftrightarrow> in_any (unmapped ip) PRIVATE_NETWORKS \<and> \<not> in_any (unmapped ip) PRIVATE_EXCEPTIONS"

definition is_global :: "ip \<Rightarrow> bool" where
  "is_global ip \<longleftrightarrow> \<not> in_net ip SHARED_NETWORK \<and> \<not> is_private ip"

definition is_loopback :: "ip \<Rightarrow> bool" where
  "is_loopback ip \<longleftrightarrow> (case ip of V4 a \<Rightarrow> in_net ip (Net4 0x7F000000 8) | V6 a z \<Rightarrow> a = 1)"

definition is_link_local :: "ip \<Rightarrow> bool" where
  "is_link_local ip \<longleftrightarrow> in_any ip [Net4 0xA9FE0000 16, n6 0xFE80 10]"

definition is_unspecified :: "ip \<Rightarrow> bool" where
  "is_unspecified ip \<longleftrightarrow> (case ip of V4 a \<Rightarrow> a = 0 | V6 a z \<Rightarrow> a = 0)"

definition is_reserved :: "ip \<Rightarrow> bool" where
  "is_reserved ip \<longleftrightarrow> in_any ip RESERVED_NETWORKS"

definition is_multicast :: "ip \<Rightarrow> bool" where
  "is_multicast ip \<longleftrightarrow> in_any ip [Net4 0xE0000000 4, n6 0xFF00 8]"

text \<open>A network is private when its first and its last address are, within one range.\<close>

fun net_ends :: "net \<Rightarrow> ip \<times> ip" where
  "net_ends (Net4 a n) = (V4 a, V4 (a OR mask (32 - n)))"
| "net_ends (Net6z a n z) = (V6 a z, V6 (a OR mask (128 - n)) [])"

definition net_private :: "net \<Rightarrow> bool" where
  "net_private n \<longleftrightarrow>
     (let (lo, hi) = net_ends n in
      list_ex (\<lambda>p. in_net lo p \<and> in_net hi p) PRIVATE_NETWORKS \<and> \<not> in_any lo PRIVATE_EXCEPTIONS \<and>
      \<not> in_any hi PRIVATE_EXCEPTIONS)"

definition net_global :: "net \<Rightarrow> bool" where
  "net_global n \<longleftrightarrow>
     (let (lo, hi) = net_ends n in \<not> (in_net lo SHARED_NETWORK \<and> in_net hi SHARED_NETWORK) \<and> \<not> net_private n)"

end
