(* ===== verification/Client_Address.thy ===== *)
theory Client_Address
  imports Net_Address
begin

text \<open>
  Whose address a request is recorded under: the walk along the proxies the installation
  declares (\<^verbatim>\<open>incubacloud/net/trusted_proxies.py\<close>, \<^verbatim>\<open>controllers/_client_ip.py\<close>) and the
  correction of the forwarded chain behind a CDN (\<^verbatim>\<open>incubacloud/net/real_ip.py\<close>), with the
  recognition of the panel's own proxy by name. The answers of the resolver and the clock
  are arguments; log lines are left out, but not the time of the last complaint.
\<close>

section \<open>Declared proxies\<close>

text \<open>The stored field may be missing; commas and line ends separate.\<close>

definition entries_of :: "pystr option \<Rightarrow> pystr list" where
  "entries_of raw =
     (case raw of
        None \<Rightarrow> []
      | Some s \<Rightarrow>
          filter (\<lambda>e. e \<noteq> []) (map strip (split_lines [] (map (\<lambda>c. if c = 44 then 10 else c) s))))"

definition parse_ranges :: "pystr option \<Rightarrow> pystr list" where
  "parse_ranges raw = map show_net (List.map_filter ip_network (entries_of raw))"

definition invalid_ranges :: "pystr option \<Rightarrow> pystr list" where
  "invalid_ranges raw = filter (\<lambda>e. ip_network e = None) (entries_of raw)"

definition networks_of :: "pystr list \<Rightarrow> net list" where
  "networks_of ranges = List.map_filter (\<lambda>e. ip_network (strip e)) ranges"

text \<open>An entry is trusted when it is an address inside one of the networks.\<close>

definition trusted :: "net list \<Rightarrow> pystr \<Rightarrow> bool" where
  "trusted ns s \<longleftrightarrow> (case ip_address s of None \<Rightarrow> False | Some a \<Rightarrow> in_any a ns)"

datatype forwarded = As_text pystr | As_list "pystr list"

fun chain_of :: "forwarded \<Rightarrow> pystr list" where
  "chain_of (As_text s) = filter (\<lambda>e. e \<noteq> []) (map strip (split_on 44 s))"
| "chain_of (As_list es) = filter (\<lambda>e. e \<noteq> []) (map strip es)"

definition client_ip :: "pystr option \<Rightarrow> forwarded \<Rightarrow> pystr list \<Rightarrow> pystr" where
  "client_ip remote_addr forwarded_for ranges =
     (let remote = (case remote_addr of None \<Rightarrow> [] | Some r \<Rightarrow> strip r); ns = networks_of ranges in
      if ns = [] then remote
      else if remote \<noteq> [] \<and> \<not> trusted ns remote then remote
      else case find (\<lambda>e. \<not> trusted ns e) (rev (chain_of forwarded_for)) of
             Some e \<Rightarrow> e
           | None \<Rightarrow> remote)"

text \<open>The controllers' helper, when there is a request to read: \<^verbatim>\<open>unknown\<close> for no address.\<close>

definition caller_ip :: "pystr option \<Rightarrow> pystr list \<Rightarrow> pystr list \<Rightarrow> pystr" where
  "caller_ip remote_addr access_route ranges =
     (let resolved = client_ip remote_addr (As_list access_route) ranges
      in if resolved = [] then lit ''unknown'' else resolved)"

section \<open>The panel's own proxy\<close>

definition PROXY_TTL_SECONDS :: rat where "PROXY_TTL_SECONDS = 30"
definition PROXY_RETRY_SECONDS :: rat where "PROXY_RETRY_SECONDS = 5"
definition PROXY_STALE_SECONDS :: rat where "PROXY_STALE_SECONDS = 300"
definition PROXY_COMPLAINT_SECONDS :: rat where "PROXY_COMPLAINT_SECONDS = 600"

definition OWN_PROXY_NETWORKS :: "net list" where
  "OWN_PROXY_NETWORKS =
     [Net4 0x7F000000 8, Net6 1 128, Net4 0x0A000000 8, Net4 0xAC100000 12, Net4 0xC0A80000 16, n6 0xFC00 7]"

definition comma_words :: "pystr \<Rightarrow> pystr list" where
  "comma_words s = words (map (\<lambda>c. if c = 44 then 32 else c) s)"

definition parse_networks :: "pystr \<Rightarrow> net list" where
  "parse_networks raw = List.map_filter ip_network (comma_words raw)"

definition cdn_networks :: "pystr \<Rightarrow> net list" where
  "cdn_networks raw = filter net_global (parse_networks raw)"

text \<open>\<^verbatim>\<open>_address\<close>: a mapped IPv4 address is the IPv4 address it is.\<close>

definition address :: "pystr \<Rightarrow> ip option" where
  "address s = map_option unmapped (ip_address (strip s))"

definition on_private :: "ip \<Rightarrow> bool" where
  "on_private a \<longleftrightarrow> in_any a OWN_PROXY_NETWORKS"

definition from_cdn :: "pystr \<Rightarrow> net list \<Rightarrow> bool" where
  "from_cdn s ns \<longleftrightarrow> (case address s of None \<Rightarrow> False | Some a \<Rightarrow> is_global a \<and> in_any a ns)"

record own_proxy =
  entries :: "pystr list"
  answer :: "ip list"
  good :: bool
  unnamed :: bool
  asked_at :: "rat option"
  failing_since :: "rat option"
  complained_at :: "rat option"

definition proxy_of :: "pystr \<Rightarrow> own_proxy" where
  "proxy_of raw =
     \<lparr>entries = comma_words raw, answer = [], good = False, unnamed = False, asked_at = None,
      failing_since = None, complained_at = None\<rparr>"

definition literals :: "own_proxy \<Rightarrow> ip list" where
  "literals p = List.map_filter address (entries p)"

definition names :: "own_proxy \<Rightarrow> pystr list" where
  "names p = filter (\<lambda>e. address e = None) (entries p)"

text \<open>\<open>resolve\<close>: what the resolver answers now to a name, \<open>None\<close> for an error. A zone after
  a per cent sign is dropped.\<close>

definition ask_names :: "(pystr \<Rightarrow> pystr list option) \<Rightarrow> own_proxy \<Rightarrow> ip list" where
  "ask_names resolve p =
     concat (map (\<lambda>n. case resolve n of
                         None \<Rightarrow> []
                       | Some raws \<Rightarrow> List.map_filter (\<lambda>r. address (takeWhile (\<lambda>c. c \<noteq> 37) r)) raws) (names p))"

definition refresh :: "(pystr \<Rightarrow> pystr list option) \<Rightarrow> rat \<Rightarrow> bool \<Rightarrow> own_proxy \<Rightarrow> own_proxy" where
  "refresh resolve now starting p =
     (let found = ask_names resolve p; p1 = p\<lparr>asked_at := Some now\<rparr> in
      if found \<noteq> [] then p1\<lparr>answer := found, good := True, unnamed := False, failing_since := None\<rparr>
      else
        let since = (case failing_since p1 of None \<Rightarrow> now | Some t \<Rightarrow> t); p2 = p1\<lparr>failing_since := Some since\<rparr> in
        if good p2 \<and> now - since < PROXY_STALE_SECONDS then p2
        else
          let p3 = p2\<lparr>unnamed := True\<rparr> in
          if starting then p3
          else if (case complained_at p3 of None \<Rightarrow> True | Some t \<Rightarrow> PROXY_COMPLAINT_SECONDS \<le> now - t)
               then p3\<lparr>complained_at := Some now\<rparr>
               else p3)"

definition due :: "ip \<Rightarrow> rat \<Rightarrow> own_proxy \<Rightarrow> bool" where
  "due a now p \<longleftrightarrow>
     (case asked_at p of
        None \<Rightarrow> True
      | Some t \<Rightarrow>
          PROXY_TTL_SECONDS \<le> now - t \<or>
          PROXY_RETRY_SECONDS \<le> now - t \<and> (unnamed p \<or> a \<notin> set (answer p)))"

definition look_up :: "(pystr \<Rightarrow> pystr list option) \<Rightarrow> rat \<Rightarrow> own_proxy \<Rightarrow> bool \<times> own_proxy" where
  "look_up resolve now p =
     (if names p = [] then (True, p)
      else let p' = refresh resolve now True p in (\<not> unnamed p', p'))"

definition is_ours ::
    "(pystr \<Rightarrow> pystr list option) \<Rightarrow> rat \<Rightarrow> pystr \<Rightarrow> own_proxy \<Rightarrow> bool \<times> own_proxy" where
  "is_ours resolve now s p =
     (case address s of
        None \<Rightarrow> (False, p)
      | Some a \<Rightarrow>
          if entries p = [] then (on_private a, p)
          else if a \<in> set (literals p) then (True, p)
          else if names p = [] then (False, p)
          else let p' = (if due a now p then refresh resolve now False p else p)
               in (if unnamed p' then on_private a else a \<in> set (answer p'), p'))"

section \<open>The correction of the chain\<close>

type_synonym environ = "pystr \<rightharpoonup> pystr"

definition FORWARDED :: pystr where "FORWARDED = lit ''HTTP_X_FORWARDED_FOR''"
definition REMOTE :: pystr where "REMOTE = lit ''REMOTE_ADDR''"

text \<open>The name of a header is ASCII.\<close>

definition environ_key :: "pystr \<Rightarrow> pystr" where
  "environ_key header =
     lit ''HTTP_'' @ map (\<lambda>c. if 97 \<le> c \<and> c \<le> 122 then c - 32 else if c = 45 then 95 else c) (strip header)"

definition read_env :: "environ \<Rightarrow> pystr \<Rightarrow> pystr" where
  "read_env e k = (case e k of None \<Rightarrow> [] | Some v \<Rightarrow> v)"

definition last_hop :: "environ \<Rightarrow> pystr" where
  "last_hop e =
     (let es = filter (\<lambda>x. x \<noteq> []) (map strip (split_on 44 (read_env e FORWARDED)))
      in if es = [] then [] else last es)"

datatype speaker = Our_proxy | The_cdn | Nobody

definition speaker_of ::
    "(pystr \<Rightarrow> pystr list option) \<Rightarrow> rat \<Rightarrow> environ \<Rightarrow> net list \<Rightarrow> own_proxy \<Rightarrow> speaker \<times> own_proxy" where
  "speaker_of resolve now e ns p =
     (let (ours, p') = is_ours resolve now (read_env e REMOTE) p in
      (if ours then Our_proxy else if from_cdn (read_env e REMOTE) ns then The_cdn else Nobody, p'))"

definition claim :: "environ \<Rightarrow> pystr \<Rightarrow> net list \<Rightarrow> speaker \<Rightarrow> pystr option" where
  "claim e header ns who =
     (if who = Nobody \<or> (who = Our_proxy \<and> \<not> from_cdn (last_hop e) ns) then None
      else let claimed = strip (hd (split_on 44 (read_env e (environ_key header))))
           in if 37 \<in> set claimed then None else map_option show_ip (address claimed))"

definition rewrite ::
    "(pystr \<Rightarrow> pystr list option) \<Rightarrow> rat \<Rightarrow> pystr \<Rightarrow> net list \<Rightarrow> environ \<Rightarrow> own_proxy \<Rightarrow>
       pystr option \<times> environ \<times> own_proxy" where
  "rewrite resolve now header ns e p =
     (if header = [] \<or> ns = [] then (None, e, p)
      else
        let (who, p') = speaker_of resolve now e ns p in
        case claim e header ns who of
          Some client \<Rightarrow> (Some client, e(FORWARDED \<mapsto> client), p')
        | None \<Rightarrow>
            (None, if who = Nobody \<and> e FORWARDED \<noteq> None then e(FORWARDED \<mapsto> read_env e REMOTE) else e, p'))"

text \<open>What Odoo takes for the visitor: the last entry of the chain, or the connection when
  there is none.\<close>

definition odoo_reads :: "environ \<Rightarrow> pystr" where
  "odoo_reads e =
     (let v = strip (last (split_on 44 (read_env e FORWARDED)))
      in if v = [] then read_env e REMOTE else v)"

end
