(* ===== verification/Address_Facts.thy ===== *)
theory Address_Facts
  imports Client_Address
begin

text \<open>
  Whose word is taken for a visitor's address: what a caller writes into the headers of a
  request changes nothing unless a proxy the installation declared, its own proxy or the
  CDN vouches for it; and who counts as the own proxy follows from the resolver's answers.
\<close>

section \<open>The declared proxies\<close>

declare decimal.simps [simp del]

lemmas read_text = lit_def ip_address_def ip_network_def network4_def network6_def prefix_v4_def prefix_number_def parse_v4_def
  parse_octet_def decimal_value_def of_digits_def digit_def netmask_def py_space_def strip_def lstrip_def mask_eq_exp_minus_1

text \<open>An entry as a proxy writes it: no comma and no space.\<close>

definition plain :: "pystr \<Rightarrow> bool" where
  "plain s \<longleftrightarrow> s \<noteq> [] \<and> (\<forall>c \<in> set s. c \<noteq> 44 \<and> \<not> py_space c)"

lemma plain_strip: "plain s \<Longrightarrow> strip s = s"
  by (rule strip_idle) (simp add: plain_def)

lemma plain_split: "plain s \<Longrightarrow> split_on 44 s = [s]"
  by (rule split_where_none) (auto simp: plain_def)

lemma join_plain_split: "es \<noteq> [] \<Longrightarrow> \<forall>e \<in> set es. plain e \<Longrightarrow> split_on 44 (join_with 44 es) = es"
proof (induction "44::nat" es rule: join_with.induct)
  case (3 w v ws)
  then have "split_on 44 (w @ 44 # join_with 44 (v # ws)) = w # v # ws"
    by (subst split_append) (auto simp: plain_split)
  then show ?case by simp
qed (auto simp: plain_split)

lemma strip_plain: "\<forall>e \<in> set es. plain e \<Longrightarrow> filter (\<lambda>e. e \<noteq> []) (map strip es) = es"
  by (induction es) (auto simp: plain_strip, auto simp: plain_def)

lemma closest_untrusted:
  assumes "plain c" and "\<not> trusted (networks_of ranges) c"
    and "\<forall>h \<in> set hops. plain h \<and> trusted (networks_of ranges) h"
  shows "find (\<lambda>e. \<not> trusted (networks_of ranges) e) (rev (es @ c # hops)) = Some c"
proof -
  have "find (\<lambda>e. \<not> trusted (networks_of ranges) e) (rev hops) = None"
    using assms(3) by (auto simp: find_None_iff)
  moreover have "find P (xs @ ys) = (case find P xs of None \<Rightarrow> find P ys | Some x \<Rightarrow> Some x)" for P and xs ys :: "pystr list"
    by (induction xs) auto
  ultimately show ?thesis using assms(2) by simp
qed

text \<open>C11. A forged chain changes nothing. Whatever a caller puts into the forwarded chain, as
  a header or as entries, the address is the one the first declared proxy on the way saw
  the connection from; and a caller that connects from anywhere else is known by its
  connection, whatever it sends.\<close>

theorem forged_chain_changes_nothing:
  assumes "plain c" and "\<not> trusted (networks_of ranges) c" and "networks_of ranges \<noteq> []"
    and "plain r" and "trusted (networks_of ranges) r"
    and "\<forall>h \<in> set hops. plain h \<and> trusted (networks_of ranges) h"
  shows "client_ip (Some r) (As_list (forged @ c # hops)) ranges = c \<and>
    client_ip (Some r) (As_text (sent @ 44 # join_with 44 (c # hops))) ranges = c \<and>
    client_ip (Some c) chain ranges = c"
proof -
  have keep: "filter (\<lambda>e. e \<noteq> []) (map strip (es @ c # hops)) = filter (\<lambda>e. e \<noteq> []) (map strip es) @ c # hops" for es
    using strip_plain[of "c # hops"] assms(1,6) by auto
  have "split_on 44 (sent @ 44 # join_with 44 (c # hops)) = split_on 44 sent @ c # hops"
    using join_plain_split[of "c # hops"] assms(1,6) by (subst split_append) auto
  then have "chain_of (As_text (sent @ 44 # join_with 44 (c # hops))) =
      filter (\<lambda>e. e \<noteq> []) (map strip (split_on 44 sent)) @ c # hops"
    using keep by simp
  moreover have "chain_of (As_list (forged @ c # hops)) = filter (\<lambda>e. e \<noteq> []) (map strip forged) @ c # hops"
    using keep by simp
  ultimately show ?thesis
    using closest_untrusted[OF assms(1,2,6)] assms plain_strip
    by (simp add: client_ip_def plain_def del: chain_of.simps)
qed

theorem forged_chain_changes_nothing_witness:
  "client_ip (Some (lit ''10.0.0.2'')) (As_text (lit ''6.6.6.6'' @ 44 # join_with 44 [lit ''8.8.8.8'', lit ''10.0.0.3''])) [lit ''10.0.0.0/8''] =
     lit ''8.8.8.8''"
proof -
  have net: "networks_of [lit ''10.0.0.0/8''] = [Net4 0x0A000000 8]"
    by (simp add: networks_of_def List.map_filter_simps plain_strip plain_def read_text)
  have ips: "ip_address (lit ''10.0.0.2'') = Some (V4 0x0A000002)" "ip_address (lit ''10.0.0.3'') = Some (V4 0x0A000003)"
    "ip_address (lit ''8.8.8.8'') = Some (V4 0x08080808)"
    by (simp_all add: read_text)
  have "plain (lit ''10.0.0.2'')" "plain (lit ''10.0.0.3'')" "plain (lit ''8.8.8.8'')"
    by (simp_all add: plain_def lit_def py_space_def)
  moreover have "trusted [Net4 0x0A000000 8] (lit ''10.0.0.2'')" "trusted [Net4 0x0A000000 8] (lit ''10.0.0.3'')"
    "\<not> trusted [Net4 0x0A000000 8] (lit ''8.8.8.8'')"
    by (simp_all add: trusted_def ips in_any_def netmask_def mask_eq_exp_minus_1)
  ultimately show ?thesis
    using forged_chain_changes_nothing[of "lit ''8.8.8.8''" "[lit ''10.0.0.0/8'']" "lit ''10.0.0.2''" "[lit ''10.0.0.3'']"]
    by (simp add: net)
qed

section \<open>Addresses as text\<close>

lemma decimal_digits: "c \<in> set (decimal n) \<Longrightarrow> digit c"
proof (induction n rule: decimal.induct)
  case (1 n)
  then show ?case by (subst (asm) (2) decimal.simps) (auto simp: digit_def split: if_splits)
qed

lemma decimal_nonempty: "decimal n \<noteq> []"
  by (subst decimal.simps) auto

lemma hex_clean: "hex c \<Longrightarrow> c \<noteq> 44 \<and> c \<noteq> 37 \<and> \<not> py_space c"
  by (auto simp: hex_def digit_def py_space_def)

lemma digit_clean: "digit c \<Longrightarrow> c \<noteq> 44 \<and> c \<noteq> 37 \<and> \<not> py_space c"
  by (simp add: hex_clean hex_def)

lemma show_hextet_hex:
  assumes "h < 65536" and "c \<in> set (show_hextet h)"
  shows "hex c"
proof -
  have d: "hex (hex_digit k)" if "k < 16" for k
    using that by (auto simp: hex_digit_def hex_def digit_def)
  define ds where "ds = dropWhile (\<lambda>d. d = 0) [h div 4096, h div 256 mod 16, h div 16 mod 16, h mod 16]"
  have "k < 16" if "k \<in> set ds" for k
  proof -
    have "k \<in> {h div 4096, h div 256 mod 16, h div 16 mod 16, h mod 16}"
      using set_dropWhileD[OF that[unfolded ds_def]] by (simp only: list.set)
    then show ?thesis using less_mult_imp_div_less[of h 16 4096] assms(1) by auto
  qed
  moreover have "show_hextet h = (if ds = [] then [48] else map hex_digit ds)"
    by (simp only: show_hextet_def Let_def ds_def)
  moreover have "hex 48" by (simp add: hex_def digit_def)
  ultimately show ?thesis using assms(2) d by (auto split: if_splits)
qed

lemma hextets_bound: "h \<in> set (hextets_of a) \<Longrightarrow> h < 65536"
  by (auto simp: hextets_of_def)

lemma compressed_chars:
  assumes "\<forall>h \<in> set hs. h < 65536" and "w \<in> set (compress_hextets hs)" and "c \<in> set w"
  shows "hex c"
proof -
  have "w \<in> set (map show_hextet hs)" if "w \<noteq> []"
    using assms(2) that by (auto simp: compress_hextets_def Let_def dest: in_set_takeD in_set_dropD split: prod.splits if_splits)
  moreover have "w \<noteq> []" using assms(3) by auto
  ultimately obtain h where "h \<in> set hs" "w = show_hextet h" by auto
  with assms show ?thesis using show_hextet_hex by blast
qed

lemma join_chars: "c \<in> set (join_with d ws) \<Longrightarrow> c = d \<or> (\<exists>w \<in> set ws. c \<in> set w)"
  by (induction d ws rule: join_with.induct) auto

lemma join_nonempty: "2 \<le> length ws \<Longrightarrow> join_with d ws \<noteq> []"
  by (cases "(d, ws)" rule: join_with.cases) auto

lemma compressed_parts: "length hs = 8 \<Longrightarrow> 2 \<le> length (compress_hextets hs)"
  by (auto simp: compress_hextets_def Let_def split: prod.splits)

lemma show_v4_plain: "plain (show_v4 a)"
proof -
  have "c = 46 \<or> digit c" if "c \<in> set (show_v4 a)" for c
    using that decimal_digits by (auto simp: show_v4_def Let_def)
  moreover have "\<not> py_space 46" by (simp add: py_space_def)
  ultimately show ?thesis using digit_clean by (force simp: plain_def show_v4_def Let_def)
qed

lemma show_v6_plain: "plain (show_ip (V6 a []))"
proof -
  let ?ws = "compress_hextets (hextets_of a)"
  have "c = 58 \<or> hex c" if "c \<in> set (join_with 58 ?ws)" for c
    using join_chars[OF that] compressed_chars[of "hextets_of a"] hextets_bound[of _ a] by blast
  moreover have "join_with 58 ?ws \<noteq> []"
    by (rule join_nonempty, rule compressed_parts) (simp add: hextets_of_def)
  moreover have "\<not> py_space 58" by (simp add: py_space_def)
  ultimately show ?thesis using hex_clean by (force simp: plain_def)
qed

lemma ip_address_zone: "37 \<notin> set s \<Longrightarrow> ip_address s = Some (V6 a z) \<Longrightarrow> z = []"
proof -
  assume "37 \<notin> set s" and ip: "ip_address s = Some (V6 a z)"
  then have tw: "takeWhile (\<lambda>c. c \<noteq> 37) s = s" by (auto simp: takeWhile_eq_all_conv)
  show "z = []" using ip unfolding ip_address_def parse_v6_def Let_def tw by (auto split: option.splits if_splits)
qed

lemma show_address_plain:
  assumes "37 \<notin> set s" and "address s = Some a"
  shows "plain (show_ip a)"
proof -
  obtain b where b: "ip_address (strip s) = Some b" "a = unmapped b" using assms(2) by (auto simp: address_def)
  show ?thesis
  proof (cases b)
    case (V6 x z)
    have "z = []" using ip_address_zone[of "strip s" x z] assms(1) strip_subset b(1) V6 by blast
    then show ?thesis using b(2) V6 show_v4_plain show_v6_plain by (auto simp: unmapped_def split: option.splits if_splits)
  qed (use b(2) show_v4_plain in \<open>simp add: unmapped_def\<close>)
qed

section \<open>Behind a CDN\<close>

lemma strip_strip: "strip (strip s) = strip s"
proof -
  let ?t = "lstrip s"
  have "lstrip (strip s) = strip s"
  proof (cases "strip s")
    case (Cons c r)
    obtain u where "?t = strip s @ u"
      unfolding strip_def by (metis rev_append rev_rev_ident takeWhile_dropWhile_id)
    then have "hd ?t = c" "?t \<noteq> []" using Cons by auto
    then have "\<not> py_space c" using hd_dropWhile[of py_space s] by (auto simp: lstrip_def)
    then show ?thesis using Cons by (simp add: lstrip_def)
  qed (simp add: lstrip_def)
  then show ?thesis by (simp add: strip_def)
qed

lemma FORWARDED_not_REMOTE: "FORWARDED \<noteq> REMOTE"
  by (simp add: FORWARDED_def REMOTE_def lit_eq)

lemma odoo_reads_written: "plain c \<Longrightarrow> odoo_reads (e(FORWARDED \<mapsto> c)) = c"
  by (simp add: odoo_reads_def read_env_def plain_split plain_strip plain_def)

lemma claim_plain: "claim e header ns who = Some c \<Longrightarrow> plain c"
  by (auto simp: claim_def Let_def intro: show_address_plain split: if_splits)

lemma no_chain_reads_connection: "e FORWARDED = None \<Longrightarrow> odoo_reads e = read_env e REMOTE"
  by (simp add: odoo_reads_def read_env_def strip_def lstrip_def)

text \<open>C10. Whose word Odoo takes. A caller that is neither the own proxy nor a public address of
  the CDN is recorded under its connection, whatever it puts into the forwarded chain or
  the CDN's header. Through the own proxy, a connection that did not come from the CDN
  keeps the address the proxy appended. Only where the connection, or the one the own
  proxy saw, is a public address of the CDN's is the address the CDN's header names, and
  then it is that address in its one spelling, and no other.\<close>

theorem only_the_cdn_names_a_visitor:
  assumes "rewrite resolve now header ns e p = (client, e', p')" and "header \<noteq> []" and "ns \<noteq> []"
    and "speaker_of resolve now e ns p = (who, p')" and "plain (read_env e REMOTE)"
  shows "(who = Nobody \<longrightarrow> odoo_reads e' = read_env e REMOTE) \<and>
    (who = Our_proxy \<and> \<not> from_cdn (last_hop e) ns \<longrightarrow> e' = e) \<and>
    (case client of
       None \<Rightarrow> who \<noteq> Nobody \<longrightarrow> e' = e
     | Some c \<Rightarrow> odoo_reads e' = c \<and> from_cdn (if who = Our_proxy then last_hop e else read_env e REMOTE) ns \<and>
         (\<exists>a. address (hd (split_on 44 (read_env e (environ_key header)))) = Some a \<and> c = show_ip a))"
proof -
  show ?thesis
  proof (cases "claim e header ns who")
    case None
    then show ?thesis
      using assms odoo_reads_written[OF assms(5)] no_chain_reads_connection[of e]
      by (auto simp: rewrite_def claim_def split: if_splits)
  next
    case (Some c)
    have "from_cdn (read_env e REMOTE) ns" if "who = The_cdn"
      using assms(4) that by (auto simp: speaker_of_def split: prod.splits if_splits)
    then show ?thesis
      using assms Some odoo_reads_written[OF claim_plain[OF Some]]
      by (cases who) (auto simp: rewrite_def claim_def address_def strip_strip Let_def split: if_splits)
  qed
qed

definition neighbour_env :: environ where
  "neighbour_env = [REMOTE \<mapsto> lit ''10.0.0.9'', FORWARDED \<mapsto> lit ''6.6.6.6'', environ_key (lit ''CF-IP'') \<mapsto> lit ''7.7.7.7'']"

theorem only_the_cdn_names_a_visitor_witness:
  "\<exists>e'. rewrite (\<lambda>_. None) 0 (lit ''CF-IP'') [Net4 0xADF53000 20] neighbour_env (proxy_of (lit ''10.0.0.2'')) =
     (None, e', proxy_of (lit ''10.0.0.2'')) \<and> odoo_reads e' = lit ''10.0.0.9''"
proof -
  let ?p = "proxy_of (lit ''10.0.0.2'')" and ?ns = "[Net4 0xADF53000 20]" and ?h = "lit ''CF-IP''"
  have ip: "address (lit ''10.0.0.9'') = Some (V4 0x0A000009)" "address (lit ''10.0.0.2'') = Some (V4 0x0A000002)"
    by (simp_all add: address_def read_text unmapped_def)
  have remote: "read_env neighbour_env REMOTE = lit ''10.0.0.9''"
    by (simp add: neighbour_env_def read_env_def REMOTE_def FORWARDED_def environ_key_def lit_def)
  have "entries ?p = [lit ''10.0.0.2'']"
    by (simp add: proxy_of_def comma_words_def words_def lit_def py_space_def)
  then have "is_ours (\<lambda>_. None) 0 (lit ''10.0.0.9'') ?p = (False, ?p)"
    by (simp add: is_ours_def ip literals_def names_def List.map_filter_simps)
  moreover have "\<not> from_cdn (lit ''10.0.0.9'') ?ns"
    by (simp add: from_cdn_def ip in_any_def netmask_def mask_eq_exp_minus_1)
  ultimately have who: "speaker_of (\<lambda>_. None) 0 neighbour_env ?ns ?p = (Nobody, ?p)"
    by (simp add: speaker_of_def remote)
  then obtain e' where r: "rewrite (\<lambda>_. None) 0 ?h ?ns neighbour_env ?p = (None, e', ?p)"
    by (simp add: rewrite_def claim_def lit_def)
  have "plain (read_env neighbour_env REMOTE)" unfolding remote by (simp add: plain_def lit_def py_space_def)
  from only_the_cdn_names_a_visitor[OF r _ _ who this] r remote show ?thesis by (simp add: lit_def)
qed

section \<open>The own proxy by its name\<close>

text \<open>What the resolver was asked, newest first: when, and the addresses it gave.\<close>

type_synonym asks = "(rat \<times> ip list) list"

definition last_good :: "asks \<Rightarrow> ip list option" where
  "last_good as = map_option snd (find (\<lambda>(t, found). found \<noteq> []) as)"

definition failing :: "asks \<Rightarrow> asks" where
  "failing as = takeWhile (\<lambda>(t, found). found = []) as"

text \<open>The names decide as long as they resolve, and for five minutes from the first time
  they did not; otherwise any private address counts.\<close>

definition names_decide :: "asks \<Rightarrow> bool" where
  "names_decide as \<longleftrightarrow>
     as = [] \<or> failing as = [] \<or>
     (last_good as \<noteq> None \<and> fst (hd as) - fst (List.last (failing as)) < PROXY_STALE_SECONDS)"

definition follows :: "own_proxy \<Rightarrow> asks \<Rightarrow> bool" where
  "follows p as \<longleftrightarrow>
     answer p = (case last_good as of None \<Rightarrow> [] | Some found \<Rightarrow> found) \<and> good p = (last_good as \<noteq> None) \<and>
     unnamed p = (\<not> names_decide as) \<and> asked_at p = map_option fst (if as = [] then None else Some (hd as)) \<and>
     failing_since p = (if failing as = [] then None else Some (fst (List.last (failing as))))"

lemma asks_simps [simp]:
  "last_good [] = None" "failing [] = []"
  "last_good ((t, found) # as) = (if found \<noteq> [] then Some found else last_good as)"
  "failing ((t, found) # as) = (if found = [] then (t, found) # failing as else [])"
  by (simp_all add: last_good_def failing_def)

lemma failing_last: "failing as \<noteq> [] \<Longrightarrow> List.last (failing as) \<in> set as"
  unfolding failing_def by (metis last_in_set set_takeWhileD)

lemma refresh_follows:
  assumes "follows p as" and "\<forall>(t, found) \<in> set as. t \<le> now"
  shows "follows (refresh resolve now starting p) ((now, ask_names resolve p) # as)"
proof (cases "ask_names resolve p = []")
  case True
  let ?since = "if failing as = [] then now else fst (List.last (failing as))"
  have since: "(case failing_since p of None \<Rightarrow> now | Some t \<Rightarrow> t) = ?since"
    using assms(1) by (simp add: follows_def)
  have decide: "names_decide ((now, []) # as) \<longleftrightarrow> good p \<and> now - ?since < PROXY_STALE_SECONDS"
    using assms(1) by (auto simp: names_decide_def follows_def)
  have "unnamed p \<Longrightarrow> \<not> (good p \<and> now - ?since < PROXY_STALE_SECONDS)"
    using assms failing_last[of as] by (cases as) (fastforce simp: follows_def names_decide_def split: if_splits)+
  then show ?thesis
    using True assms(1) since decide
    by (auto simp: follows_def refresh_def Let_def split: option.splits)
next
  case False
  then show ?thesis using assms(1) by (simp add: follows_def refresh_def Let_def names_decide_def)
qed

text \<open>When a connection has the resolver asked, and the asks so far with that one.\<close>

definition has_asked :: "rat \<Rightarrow> pystr \<Rightarrow> own_proxy \<Rightarrow> bool" where
  "has_asked now s p \<longleftrightarrow>
     (case address s of None \<Rightarrow> False | Some a \<Rightarrow> a \<notin> set (literals p) \<and> names p \<noteq> [] \<and> due a now p)"

definition asks_after :: "(pystr \<Rightarrow> pystr list option) \<Rightarrow> rat \<Rightarrow> pystr \<Rightarrow> own_proxy \<Rightarrow> asks \<Rightarrow> asks" where
  "asks_after resolve now s p as = (if has_asked now s p then (now, ask_names resolve p) # as else as)"

text \<open>The life of a server: the names are looked up as it starts, if at all; then connections,
  with a clock that never goes back and a resolver that answers as it likes each time.\<close>

inductive serves :: "pystr \<Rightarrow> rat \<Rightarrow> own_proxy \<Rightarrow> asks \<Rightarrow> bool" for raw where
  fresh: "serves raw now (proxy_of raw) []"
| started: "look_up resolve now (proxy_of raw) = (b, p) \<Longrightarrow>
    serves raw now p (if names (proxy_of raw) = [] then [] else [(now, ask_names resolve (proxy_of raw))])"
| connection: "serves raw t p as \<Longrightarrow> t \<le> now \<Longrightarrow> is_ours resolve now s p = (b, p') \<Longrightarrow>
    serves raw now p' (asks_after resolve now s p as)"

definition spaced :: "asks \<Rightarrow> bool" where
  "spaced as \<longleftrightarrow> sorted_wrt (\<lambda>(t, _) (t', _). t' + PROXY_RETRY_SECONDS \<le> t) as"

lemma refresh_entries [simp]: "entries (refresh resolve now starting p) = entries p"
  by (simp add: refresh_def Let_def split: option.split)

lemma is_ours_state: "is_ours resolve now s p = (b, p') \<Longrightarrow>
    p' = (if has_asked now s p then refresh resolve now False p else p)"
  by (auto simp: is_ours_def has_asked_def Let_def names_def split: option.splits if_splits)

lemma names_entries: "names p \<noteq> [] \<Longrightarrow> entries p \<noteq> []"
  by (auto simp: names_def)

lemma spaced_Cons: "spaced ((t, found) # as) \<longleftrightarrow> (\<forall>(t', _) \<in> set as. t' + PROXY_RETRY_SECONDS \<le> t) \<and> spaced as"
  by (auto simp: spaced_def)

lemma asked_is_spaced:
  assumes "follows p as" and "spaced as" and "has_asked now s p"
  shows "spaced ((now, found) # as)"
proof (cases as)
  case (Cons a as')
  obtain t f where a: "a = (t, f)" by fastforce
  have "t + PROXY_RETRY_SECONDS \<le> now"
    using assms(1,3) Cons a
    by (auto simp: follows_def has_asked_def due_def PROXY_TTL_SECONDS_def PROXY_RETRY_SECONDS_def split: option.splits)
  moreover have "t' + PROXY_RETRY_SECONDS \<le> t" if "(t', f') \<in> set as'" for t' f'
    using assms(2) Cons a that by (auto simp: spaced_Cons)
  ultimately show ?thesis
    using assms(2) Cons a by (auto simp: spaced_Cons PROXY_RETRY_SECONDS_def) fastforce
qed (simp add: spaced_def)

lemma serves_follows:
  "serves raw now p as \<Longrightarrow>
     follows p as \<and> spaced as \<and> (\<forall>(t, _) \<in> set as. t \<le> now) \<and> entries p = comma_words raw"
proof (induction rule: serves.induct)
  case (fresh now)
  then show ?case by (simp add: follows_def proxy_of_def names_decide_def spaced_def)
next
  case (started resolve now b p)
  have "follows (proxy_of raw) []" by (simp add: follows_def proxy_of_def names_decide_def)
  then show ?case
    using started refresh_follows[of "proxy_of raw" "[]" now resolve True]
    by (auto simp: look_up_def Let_def spaced_def proxy_of_def split: if_splits)
next
  case (connection t p as now resolve s b p')
  have le: "\<forall>(t, _) \<in> set as. t \<le> now" using connection by fastforce
  have "follows p' (asks_after resolve now s p as)"
    using refresh_follows[of p as now resolve False] connection le is_ours_state[OF connection(3)]
    by (simp add: asks_after_def)
  moreover have "spaced (asks_after resolve now s p as)"
    using asked_is_spaced connection by (auto simp: asks_after_def)
  ultimately show ?case
    using connection le is_ours_state[OF connection(3)] by (auto simp: asks_after_def)
qed

text \<open>C15. Who counts as the own proxy, whatever the resolver answered and when. Without a name
  any private address does. With one, an address written out does; and otherwise exactly
  those of the last answer that had any, as long as the names resolve and for five minutes
  from the first time they did not, and any private address only after that or when they
  never resolved. And the resolver is asked once in five seconds at most, so no caller
  turns its requests into lookups.\<close>

theorem own_proxy_follows_the_resolver:
  assumes "serves raw t p as" and "t \<le> now" and "is_ours resolve now s p = (ours, p')"
    and "address s = Some a" and "as' = asks_after resolve now s p as"
  shows "ours =
      (if comma_words raw = [] then on_private a
       else a \<in> set (literals p) \<or>
         names p \<noteq> [] \<and> (if names_decide as' then \<exists>found. last_good as' = Some found \<and> a \<in> set found else on_private a)) \<and>
    spaced as'"
proof -
  have s': "serves raw now p' as'" using serves.connection[OF assms(1-3)] assms(5) by simp
  have f: "follows p' as'" "spaced as'" using serves_follows[OF s'] by auto
  have e: "entries p = comma_words raw" using serves_follows[OF assms(1)] by auto
  have "ours = (if comma_words raw = [] then on_private a
       else a \<in> set (literals p) \<or>
         names p \<noteq> [] \<and> (if names_decide as' then \<exists>found. last_good as' = Some found \<and> a \<in> set found else on_private a))"
    using assms(3,4) f(1) e by (auto simp: is_ours_def Let_def follows_def split: if_splits option.splits)
  with f(2) show ?thesis by blast
qed

theorem own_proxy_follows_the_resolver_witness:
  "\<exists>p'. is_ours (\<lambda>_. Some [lit ''10.0.0.2'']) 0 (lit ''10.0.0.9'') (proxy_of (lit ''traefik'')) = (False, p') \<and>
     is_ours (\<lambda>_. None) 10 (lit ''10.0.0.2'') p' = (True, p')"
proof -
  let ?r = "\<lambda>_. Some [lit ''10.0.0.2'']" and ?p = "proxy_of (lit ''traefik'')"
  have ip: "address (lit ''10.0.0.9'') = Some (V4 0x0A000009)" "address (lit ''10.0.0.2'') = Some (V4 0x0A000002)"
    by (simp_all add: address_def read_text unmapped_def)
  have no: "address (lit ''traefik'') = None"
    by (simp add: address_def read_text parse_v6_def parse_v6_digits_def v6_parts_def)
  have words: "comma_words (lit ''traefik'') = [lit ''traefik'']"
    by (simp add: comma_words_def words_def lit_def py_space_def)
  then have n: "names ?p = [lit ''traefik'']" "literals ?p = []" "entries ?p = [lit ''traefik'']"
    by (simp_all add: names_def literals_def proxy_of_def no List.map_filter_simps)
  have tw: "takeWhile (\<lambda>c. c \<noteq> 37) (lit ''10.0.0.2'') = lit ''10.0.0.2''" by (simp add: lit_def)
  have ask: "ask_names ?r ?p = [V4 0x0A000002]" by (simp add: ask_names_def n tw ip List.map_filter_simps)
  have asked: "asks_after ?r 0 (lit ''10.0.0.9'') ?p [] = [(0, [V4 0x0A000002])]"
    by (simp add: asks_after_def has_asked_def ip n due_def ask) (simp add: proxy_of_def)
  obtain b p' where 1: "is_ours ?r 0 (lit ''10.0.0.9'') ?p = (b, p')" by fastforce
  have decide: "names_decide [(0, [V4 0x0A000002])]" by (simp add: names_decide_def)
  have "\<not> b"
    using own_proxy_follows_the_resolver[OF serves.fresh order_refl 1 ip(1) asked[symmetric]] decide words n by simp
  moreover have p': "p' = ?p\<lparr>asked_at := Some 0, answer := [V4 0x0A000002], good := True, unnamed := False, failing_since := None\<rparr>"
    using is_ours_state[OF 1] by (simp add: has_asked_def ip n due_def refresh_def ask Let_def) (simp add: proxy_of_def)
  moreover have "is_ours (\<lambda>_. None) 10 (lit ''10.0.0.2'') p' = (True, p')"
    using n by (simp add: p' is_ours_def ip due_def PROXY_TTL_SECONDS_def literals_def names_def)
  ultimately show ?thesis using 1 by auto
qed

end
