(* ===== verification/Address_Text.thy ===== *)
theory Address_Text
  imports Address_Facts
begin

text \<open>
  An address or a network that is printed reads back as itself, so the ranges of proxies
  that are stored as text are the ranges that are trusted.
\<close>

section \<open>Numbers\<close>

lemma decimal_value_snoc: "decimal_value (s @ [c]) = 10 * decimal_value s + (c - 48)"
  by (simp add: decimal_value_def of_digits_def)

lemma decimal_round_trip: "decimal_value (decimal n) = n"
proof (induction n rule: decimal.induct)
  case (1 n)
  show ?case
  proof (cases "n < 10")
    case True
    then show ?thesis by (subst decimal.simps) (simp add: decimal_value_def of_digits_def)
  next
    case False
    then have "decimal_value (decimal n) = 10 * decimal_value (decimal (n div 10)) + n mod 10"
      by (subst decimal.simps) (simp add: decimal_value_snoc)
    then show ?thesis using 1 False by simp
  qed
qed

lemma decimal_hd: "hd (decimal n) = 48 \<Longrightarrow> n = 0"
proof (induction n rule: decimal.induct)
  case (1 n)
  show ?case
  proof (cases "n < 10")
    case True
    then show ?thesis using 1(2) by (subst (asm) decimal.simps) simp
  next
    case False
    then have "hd (decimal n) = hd (decimal (n div 10))"
      by (subst decimal.simps) (simp add: decimal_nonempty)
    then show ?thesis using 1 False by simp
  qed
qed

lemma decimal_length: "n < 1000 \<Longrightarrow> length (decimal n) \<le> 3"
proof -
  have a: "length (decimal k) = 1" if "k < 10" for k using that by (subst decimal.simps) simp
  have b: "length (decimal k) \<le> 2" if "k < 100" for k
    using that a[of "k div 10"] by (subst decimal.simps) (auto simp: less_mult_imp_div_less)
  show "length (decimal n) \<le> 3" if "n < 1000"
    using that b[of "n div 10"] by (subst decimal.simps) (auto simp: less_mult_imp_div_less)
qed

lemma decimal_all_digits: "list_all digit (decimal n)"
  using decimal_digits by (auto simp: list_all_iff)

lemma parse_octet_decimal: "n < 256 \<Longrightarrow> parse_octet (decimal n) = Some n"
proof -
  assume n: "n < 256"
  have "hd (decimal n) \<noteq> 48" if "decimal n \<noteq> [48]"
  proof
    assume "hd (decimal n) = 48"
    then have "n = 0" by (rule decimal_hd)
    with that show False by (subst (asm) decimal.simps) simp
  qed
  then show ?thesis
    using n decimal_length[of n] by (auto simp: parse_octet_def decimal_nonempty decimal_all_digits decimal_round_trip)
qed

lemma prefix_number_decimal: "n \<le> most \<Longrightarrow> prefix_number most (decimal n) = Some n"
  by (simp add: prefix_number_def decimal_nonempty decimal_all_digits decimal_round_trip)

section \<open>IPv4\<close>

lemma split_join:
  assumes "ws \<noteq> []" and "\<forall>w \<in> set ws. c \<notin> set w"
  shows "split_on c (join_with c ws) = ws"
  using assms
proof (induction c ws rule: join_with.induct)
  case (3 c w v ws)
  have "split_on c (w @ c # join_with c (v # ws)) = split_on c w @ split_on c (join_with c (v # ws))"
    by (rule split_append) simp
  moreover have "split_on c w = [w]" using 3 by (intro split_where_none) auto
  ultimately show ?case using 3 by simp
qed (auto intro: split_where_none)

lemma four_octets: "((n div 16777216 * 256 + n div 65536 mod 256) * 256 + n div 256 mod 256) * 256 + n mod 256 = (n::nat)"
proof -
  have "n div 65536 div 256 = n div 16777216" "n div 256 div 256 = n div 65536" by (simp_all flip: div_mult2_eq)
  then show ?thesis
    using div_mult_mod_eq[of n 256] div_mult_mod_eq[of "n div 256" 256] div_mult_mod_eq[of "n div 65536" 256] by simp
qed

lemma parse_show_v4: "parse_v4 (show_v4 a) = Some a"
proof -
  let ?n = "unat a"
  have n: "?n < 4294967296" using unsigned_less[of a, where 'a = nat] by simp
  let ?ws = "[decimal (?n div 16777216), decimal (?n div 65536 mod 256), decimal (?n div 256 mod 256), decimal (?n mod 256)]"
  have "show_v4 a = join_with 46 ?ws" by (simp add: show_v4_def Let_def)
  moreover have "46 \<notin> set (decimal k)" for k using decimal_digits[of 46 k] by (auto simp: digit_def)
  ultimately have "split_on 46 (show_v4 a) = ?ws" using split_join[of ?ws 46] by simp
  then have "map parse_octet (split_on 46 (show_v4 a)) =
      [Some (?n div 16777216), Some (?n div 65536 mod 256), Some (?n div 256 mod 256), Some (?n mod 256)]"
    using n by (simp add: parse_octet_decimal less_mult_imp_div_less)
  then show ?thesis using four_octets[of ?n] by (simp add: parse_v4_def)
qed

lemma parse_v4_chars: "parse_v4 s = Some a \<Longrightarrow> c \<in> set s \<Longrightarrow> c = 46 \<or> digit c"
proof -
  assume p: "parse_v4 s = Some a" and c: "c \<in> set s"
  have "list_all digit w" if "w \<in> set (split_on 46 s)" for w
  proof -
    have "parse_octet w \<noteq> None" using p that by (auto simp: parse_v4_def split: list.splits option.splits)
    then show ?thesis by (auto simp: parse_octet_def split: if_splits)
  qed
  moreover have "c = 46 \<or> (\<exists>w \<in> set (split_on 46 s). c \<in> set w)"
    using join_chars[of c 46 "split_on 46 s"] c by (simp add: join_split)
  ultimately show ?thesis by (auto simp: list_all_iff)
qed

section \<open>IPv6\<close>

lemma of_hextets_snoc: "of_hextets (hs @ [h]) = 65536 * of_hextets hs + h"
  by (simp add: of_hextets_def)

lemma of_hextets_digits: "of_hextets (map (\<lambda>i. n div 65536 ^ i mod 65536) (rev [0..<k])) = n mod 65536 ^ k"
proof (induction k arbitrary: n)
  case (Suc k)
  have "[0..<Suc k] = 0 # map Suc [0..<k]" by (simp add: map_Suc_upt upt_conv_Cons del: upt_Suc)
  then have "rev [0..<Suc k] = map Suc (rev [0..<k]) @ [0]" by (simp only: rev_map rev.simps)
  then have "of_hextets (map (\<lambda>i. n div 65536 ^ i mod 65536) (rev [0..<Suc k])) =
      65536 * of_hextets (map (\<lambda>i. n div 65536 div 65536 ^ i mod 65536) (rev [0..<k])) + n mod 65536"
    by (simp add: of_hextets_snoc o_def flip: div_mult2_eq)
  also have "\<dots> = n mod 65536 ^ Suc k" using Suc[of "n div 65536"] by (simp add: mod_mult2_eq)
  finally show ?case .
qed (simp add: of_hextets_def)

lemma hextets_value: "of_nat (of_hextets (hextets_of a)) = a"
proof -
  have "unat (drop_bit (16 * i) a) = unat a div 65536 ^ i" for i
    using unsigned_less[of a, where 'a = nat]
    by (simp only: unsigned_drop_bit_eq) (simp add: drop_bit_eq_div power_mult take_bit_eq_mod)
  then have "hextets_of a = map (\<lambda>i. unat a div 65536 ^ i mod 65536) (rev [0..<8])"
    by (simp add: hextets_of_def upt_rec)
  then have "of_hextets (hextets_of a) = unat a mod 65536 ^ 8" by (simp only: of_hextets_digits)
  also have "\<dots> = unat a" using unsigned_less[of a, where 'a = nat] by simp
  finally show ?thesis by simp
qed

lemma hex_digit_value: "d < 16 \<Longrightarrow> hex_value (hex_digit d) = d \<and> hex (hex_digit d)"
  by (auto simp: hex_digit_def hex_value_def hex_def digit_def)

lemma of_hex_digits:
  "\<forall>d \<in> set ds. d < 16 \<Longrightarrow> of_digits 16 hex_value (map hex_digit ds) = fold (\<lambda>d n. 16 * n + d) ds 0"
  by (auto simp: of_digits_def fold_map o_def hex_digit_value intro!: fold_cong)

lemma leading_zeros: "fold (\<lambda>d n. 16 * n + d) (dropWhile (\<lambda>d. d = 0) ds) 0 = fold (\<lambda>d n. 16 * n + d) ds (0::nat)"
  by (induction ds) auto

lemma four_digits: "((h div 4096 * 16 + h div 256 mod 16) * 16 + h div 16 mod 16) * 16 + h mod 16 = (h::nat)"
proof -
  have "h div 256 div 16 = h div 4096" "h div 16 div 16 = h div 256" by (simp_all flip: div_mult2_eq)
  then show ?thesis
    using div_mult_mod_eq[of h 16] div_mult_mod_eq[of "h div 16" 16] div_mult_mod_eq[of "h div 256" 16] by simp
qed

lemma parse_show_hextet:
  assumes "h < 65536"
  shows "parse_hextet (show_hextet h) = Some h"
proof -
  define all where "all = [h div 4096, h div 256 mod 16, h div 16 mod 16, h mod 16]"
  define ds where "ds = dropWhile (\<lambda>d. d = 0) all"
  have text_of: "show_hextet h = (if ds = [] then [48] else map hex_digit ds)"
    by (simp only: show_hextet_def Let_def ds_def all_def)
  have small: "\<forall>d \<in> set ds. d < 16"
    using less_mult_imp_div_less[of h 16 4096] assms by (auto simp: ds_def all_def dest!: set_dropWhileD)
  have "fold (\<lambda>d n. 16 * n + d) ds 0 = fold (\<lambda>d n. 16 * n + d) all 0" unfolding ds_def by (rule leading_zeros)
  also have "\<dots> = h" using four_digits[of h] by (simp add: all_def ac_simps)
  finally have sum: "fold (\<lambda>d n. 16 * n + d) ds 0 = h" .
  have "length ds \<le> 4" unfolding ds_def by (rule order_trans[OF length_dropWhile_le]) (simp add: all_def)
  moreover have "list_all hex (map hex_digit ds)" using small hex_digit_value by (auto simp: list_all_iff)
  ultimately have "parse_hextet (map hex_digit ds) = Some h" if "ds \<noteq> []"
    using that sum of_hex_digits[OF small] by (simp add: parse_hextet_def)
  moreover have "parse_hextet [48] = Some h" if "ds = []"
    using that sum by (simp add: parse_hextet_def of_digits_def hex_value_def hex_def digit_def)
  ultimately show ?thesis by (simp add: text_of)
qed

lemma hextets_shown: "\<forall>h \<in> set hs. h < 65536 \<Longrightarrow> hextets (map show_hextet hs) = Some hs"
  by (induction hs) (auto simp: hextets_def parse_show_hextet)

lemma show_hextet_nonempty: "show_hextet h \<noteq> []"
  by (simp only: show_hextet_def Let_def) simp

section \<open>The compressed form\<close>

lemma longest_run_zeros:
  assumes "longest_run hs = (i, n)" and "0 < n"
  shows "n = zero_run hs i" and "i < length hs"
proof -
  have "fold (\<lambda>i (j, n). if n < zero_run hs i then (i, zero_run hs i) else (j, n)) ks (j, m) = (i, n) \<Longrightarrow>
      (0 < m \<longrightarrow> m = zero_run hs j) \<Longrightarrow> n = zero_run hs i" for ks j m
    using assms(2) by (induction ks arbitrary: j m) (auto split: if_splits)
  from this[of "[0..<length hs]" 0 0] assms show n: "n = zero_run hs i" by (simp add: longest_run_def)
  show "i < length hs" using assms(2) n by (cases "i < length hs") (auto simp: zero_run_def)
qed

lemma run_of_zeros:
  assumes "n = zero_run hs i"
  shows "take i hs @ replicate n 0 @ drop (i + n) hs = hs" and "i + n \<le> length hs \<or> length hs < i"
proof -
  let ?z = "takeWhile (\<lambda>h. h = 0) (drop i hs)"
  have "?z = replicate n 0"
    using assms by (auto simp: zero_run_def list_eq_iff_nth_eq dest: set_takeWhileD nth_mem)
  moreover have "drop i hs = ?z @ drop n (drop i hs)"
    using assms by (metis zero_run_def append_take_drop_id takeWhile_eq_take)
  ultimately show "take i hs @ replicate n 0 @ drop (i + n) hs = hs"
    by (metis append_take_drop_id drop_drop add.commute)
  show "i + n \<le> length hs \<or> length hs < i"
    using assms length_takeWhile_le[of "\<lambda>h. h = 0" "drop i hs"] by (auto simp: zero_run_def)
qed

lemma only_interior_empty:
  assumes "A \<noteq> []" "B \<noteq> []" "\<And>j. 0 < j \<Longrightarrow> j < length A \<Longrightarrow> A ! j \<noteq> []"
    "\<And>j. Suc j < length B \<Longrightarrow> B ! j \<noteq> []"
  shows "filter (\<lambda>j. (A @ [[]] @ B) ! j = []) [1..<length (A @ [[]] @ B) - 1] = [length A]"
proof -
  let ?P = "A @ [[]] @ B"
  have "[1..<length ?P - 1] = [1..<length A] @ [length A] @ [Suc (length A)..<length A + length B]"
  proof -
    obtain k m where k: "length A = Suc k" "length B = Suc m" using assms(1,2) by (cases A; cases B) auto
    have "[1..<Suc k + Suc m] = [1..<Suc k] @ [Suc k..<Suc k + Suc m]" by (rule upt_add_eq_append) simp
    also have "[Suc k..<Suc k + Suc m] = Suc k # [Suc (Suc k)..<Suc k + Suc m]" by (rule upt_conv_Cons) simp
    finally show ?thesis by (simp add: k)
  qed
  moreover have "filter (\<lambda>j. ?P ! j = []) [1..<length A] = []"
    using assms(3) by (auto simp: filter_empty_conv nth_append)
  moreover have "filter (\<lambda>j. ?P ! j = []) [Suc (length A)..<length A + length B] = []"
  proof -
    have "?P ! j \<noteq> []" if "Suc (length A) \<le> j" "j < length A + length B" for j
      using that assms(4)[of "j - Suc (length A)"] by (simp add: nth_append)
    then show ?thesis by (auto simp: filter_empty_conv)
  qed
  ultimately show ?thesis by (simp add: nth_append)
qed

lemma parse_parts:
  assumes "v6_parts s = Some (A @ [[]] @ B)" and "A \<noteq> []" "B \<noteq> []"
    and "A = (if us = [] then [[]] else us)" and "B = (if vs = [] then [[]] else vs)"
    and "\<forall>w \<in> set us \<union> set vs. w \<noteq> []" and "length us + length vs < 8"
    and "hextets us = Some hi" and "hextets vs = Some lo"
  shows "parse_v6_digits s = Some (of_nat (of_hextets (hi @ replicate (8 - (length us + length vs)) 0 @ lo)))"
proof -
  let ?P = "A @ [[]] @ B"
  have skip: "filter (\<lambda>j. ?P ! j = []) [1..<length ?P - 1] = [length A]"
    using assms(2-6) by (intro only_interior_empty) (auto simp: nth_mem split: if_splits)
  have len: "length ?P \<le> 9" using assms(4,5,7) by (auto simp: Suc_le_eq)
  have hd: "hd ?P = [] \<longleftrightarrow> us = []" using assms(4,6) by (cases us) auto
  have lt: "List.last ?P = [] \<longleftrightarrow> vs = []"
    using assms(3,5,6) last_in_set[of vs] by (auto simp: last_append split: if_splits)
  have hi: "(if us = [] then length A - 1 else length A) = length us" using assms(4) by auto
  have lo: "(if vs = [] then length ?P - length A - 2 else length ?P - length A - 1) = length vs" using assms(5) by auto
  have ends: "take (length us) ?P = us" "drop (length ?P - length vs) ?P = vs" using assms(4,5) by auto
  show ?thesis
    unfolding parse_v6_digits_def assms(1) option.case Let_def skip list.case hi lo ends hd lt assms(8,9)
    using len assms(7) by simp
qed

lemma parse_show_v6: "parse_v6_digits (join_with 58 (compress_hextets (hextets_of a))) = Some a"
proof -
  define hs where "hs = hextets_of a"
  have len: "length hs = 8" by (simp add: hs_def hextets_of_def)
  have small: "\<forall>h \<in> set hs. h < 65536" using hextets_bound hs_def by blast
  let ?P = "map show_hextet hs" and ?ws = "compress_hextets hs"
  have chars: "c \<noteq> 58 \<and> c \<noteq> 46" if "w \<in> set ?ws" "c \<in> set w" for w c
    using compressed_chars[OF small that] by (auto simp: hex_def digit_def)
  have two: "2 \<le> length ?ws" by (rule compressed_parts[OF len])
  have ne: "?ws \<noteq> []" using two by auto
  have "\<forall>w \<in> set ?ws. 58 \<notin> set w" using chars by blast
  with ne have split: "split_on 58 (join_with 58 ?ws) = ?ws" by (rule split_join)
  obtain i n where run: "longest_run hs = (i, n)" by fastforce
  have "46 \<notin> set (List.last ?ws)" using chars last_in_set[OF ne] by blast
  then have parts: "v6_parts (join_with 58 ?ws) = Some ?ws" if "3 \<le> length ?ws"
    using that by (simp add: v6_parts_def split Let_def)
  show ?thesis
  proof (cases "1 < n")
    case False
    then have ws: "?ws = ?P" by (simp add: compress_hextets_def run)
    have "filter (\<lambda>j. ?P ! j = []) [1..<length ?P - 1] = []"
      using show_hextet_nonempty len by (auto simp: filter_empty_conv)
    then show ?thesis
      using parts ws len hextets_shown[OF small] hextets_value[of a]
      by (simp add: parse_v6_digits_def Let_def flip: hs_def)
  next
    case True
    note z = longest_run_zeros[OF run] run_of_zeros[of n hs i]
    have le: "i + n \<le> 8" using z True len by auto
    let ?us = "take i ?P" and ?vs = "drop (i + n) ?P"
    let ?A = "if ?us = [] then [[]] else ?us" and ?B = "if ?vs = [] then [[]] else ?vs"
    have "?us = [] \<longleftrightarrow> i = 0" "?vs = [] \<longleftrightarrow> i + n = 8" using len le z True by auto
    then have ws: "?ws = ?A @ [[]] @ ?B" using True by (auto simp: compress_hextets_def run len Let_def)
    have "parse_v6_digits (join_with 58 ?ws) =
        Some (of_nat (of_hextets (take i hs @ replicate (8 - (length ?us + length ?vs)) 0 @ drop (i + n) hs)))"
    proof (rule parse_parts[OF _ _ _ refl refl])
      have "length ?ws = length ?A + 1 + length ?B" "0 < length ?A" "0 < length ?B" unfolding ws by auto
      then have "3 \<le> length ?ws" by linarith
      then show "v6_parts (join_with 58 ?ws) = Some (?A @ [[]] @ ?B)" using parts ws by metis
      show "\<forall>w \<in> set ?us \<union> set ?vs. w \<noteq> []" using show_hextet_nonempty[THEN not_sym] by (auto dest!: in_set_takeD in_set_dropD)
      show "length ?us + length ?vs < 8" using len le True by auto
      show "hextets ?us = Some (take i hs)" "hextets ?vs = Some (drop (i + n) hs)"
        using hextets_shown small by (metis take_map drop_map in_set_takeD in_set_dropD)+
    qed (auto)
    moreover have "8 - (length ?us + length ?vs) = n" using len le by simp
    ultimately show ?thesis using z True hextets_value[of a] by (simp flip: hs_def)
  qed
qed

section \<open>Networks\<close>

definition zone_name :: "pystr \<Rightarrow> bool" where
  "zone_name z \<longleftrightarrow> 37 \<notin> set z \<and> 47 \<notin> set z"

fun canonical :: "net \<Rightarrow> bool" where
  "canonical (Net4 a n) \<longleftrightarrow> n \<le> 32 \<and> a AND netmask n = a"
| "canonical (Net6z a n z) \<longleftrightarrow> n \<le> 128 \<and> a AND netmask n = a \<and> zone_name z"

lemma prefix_bounds: "prefix_number most s = Some n \<Longrightarrow> n \<le> most" "prefix_v4 s = Some n \<Longrightarrow> n \<le> 32"
proof -
  show "prefix_number most s = Some n \<Longrightarrow> n \<le> most" by (auto simp: prefix_number_def split: if_splits)
  have "prefix_of_mask a = Some k \<Longrightarrow> k \<le> 32" for a k
    using find_Some_set[of "\<lambda>n. a = netmask n" "[0..<33]" k] by (auto simp: prefix_of_mask_def)
  then show "prefix_v4 s = Some n \<Longrightarrow> n \<le> 32"
    by (auto simp: prefix_v4_def prefix_number_def split: option.splits if_splits)
qed

lemma parse_v6_zone: "parse_v6 s = Some (V6 a z) \<Longrightarrow> zone_name z"
proof -
  assume p: "parse_v6 s = Some (V6 a z)"
  then have z: "z = drop (Suc (length (takeWhile (\<lambda>c. c \<noteq> 37) s))) s" and no: "47 \<notin> set s"
    and one: "37 \<in> set s \<Longrightarrow> 37 \<notin> set z"
    by (auto simp: parse_v6_def Let_def split: if_splits)
  have "takeWhile (\<lambda>c. c \<noteq> 37) s = s" if "37 \<notin> set s" using that by (auto simp: takeWhile_eq_all_conv)
  then have "z = []" if "37 \<notin> set s" using that z by (metis drop_all le_SucI order_refl)
  then show ?thesis using one no z by (auto simp: zone_name_def dest: in_set_dropD)
qed

lemma network_canonical: "ip_network s = Some net \<Longrightarrow> canonical net"
proof -
  have 4: "canonical net" if "network4 addr pre = Some net" for addr pre net
    using that prefix_bounds(2) by (auto simp: network4_def ac_simps split: option.splits)
  have 6: "canonical net" if "network6 addr pre = Some net" for addr pre net
    using that prefix_bounds(1)[of 128] parse_v6_zone
    by (auto simp: network6_def ac_simps zone_name_def split: option.splits ip.splits if_splits)
  show "ip_network s = Some net \<Longrightarrow> canonical net"
    using 4 6 by (auto simp: ip_network_def Let_def split: list.splits option.splits)
qed

lemma show_v6_chars: "c \<in> set (join_with 58 (compress_hextets (hextets_of a))) \<Longrightarrow> c = 58 \<or> hex c"
  using join_chars compressed_chars[of "hextets_of a"] hextets_bound[of _ a] by blast

lemma parse_v6_shown: "zone_name z \<Longrightarrow> parse_v6 (show_ip (V6 a z)) = Some (V6 a z)"
proof -
  assume z: "zone_name z"
  let ?s = "join_with 58 (compress_hextets (hextets_of a))"
  have no: "37 \<notin> set ?s" "47 \<notin> set ?s" using show_v6_chars[of 37 a] show_v6_chars[of 47 a] by (auto simp: hex_def digit_def)
  then have stop: "c \<noteq> 37" if "c \<in> set ?s" for c using that by auto
  have tw: "takeWhile (\<lambda>c. c \<noteq> 37) (?s @ 37 # t) = ?s" "takeWhile (\<lambda>c. c \<noteq> 37) ?s = ?s" for t
    using takeWhile_append2[of ?s "\<lambda>c. c \<noteq> 37" "37 # t"] stop by (auto simp: takeWhile_eq_all_conv)
  show ?thesis using no z by (simp add: parse_v6_def Let_def tw parse_show_v6 zone_name_def)
qed

lemma v6_is_no_v4: "parse_v4 (show_ip (V6 a z)) = None"
proof (rule ccontr)
  let ?s = "join_with 58 (compress_hextets (hextets_of a))"
  assume "parse_v4 (show_ip (V6 a z)) \<noteq> None"
  then obtain b where "parse_v4 (show_ip (V6 a z)) = Some b" by auto
  then have "58 \<notin> set (show_ip (V6 a z))" using parse_v4_chars[of "show_ip (V6 a z)" b 58] by (auto simp: digit_def)
  moreover have "58 \<in> set (join_with 58 ws)" if "2 \<le> length ws" for ws :: "pystr list"
    using that by (cases "(58::nat, ws)" rule: join_with.cases) auto
  ultimately show False using compressed_parts[of "hextets_of a"] by (simp add: hextets_of_def)
qed

lemma slash_splits:
  assumes "47 \<notin> set s"
  shows "split_on 47 (s @ 47 # decimal n) = [s, decimal n]"
proof -
  have "47 \<notin> set (decimal n)" using decimal_digits[of 47 n] by (auto simp: digit_def)
  then have "split_on 47 s = [s]" "split_on 47 (decimal n) = [decimal n]"
    using assms by (auto intro!: split_where_none)
  then show ?thesis by (simp add: split_append)
qed

lemma network_round_trip:
  assumes "canonical net"
  shows "ip_network (show_net net) = Some net"
proof (cases net)
  case (Net4 a n)
  have "47 \<notin> set (show_v4 a)" using parse_v4_chars[OF parse_show_v4, of 47 a] by (auto simp: digit_def)
  then show ?thesis
    using assms Net4
    by (simp add: ip_network_def slash_splits network4_def prefix_v4_def parse_show_v4 prefix_number_decimal)
next
  case (Net6z a n z)
  have z: "zone_name z" using assms Net6z by simp
  then have "47 \<notin> set (show_ip (V6 a z))" using show_v6_chars[of 47 a] by (auto simp: hex_def digit_def zone_name_def)
  then show ?thesis
    using assms Net6z slash_splits[of "show_ip (V6 a z)" n] parse_v6_shown[OF z, of a] v6_is_no_v4[of a z]
    by (simp add: ip_network_def network4_def network6_def prefix_number_decimal del: show_ip.simps)
qed

lemma strip_ends: "s \<noteq> [] \<Longrightarrow> \<not> py_space (hd s) \<Longrightarrow> \<not> py_space (List.last s) \<Longrightarrow> strip s = s"
proof -
  assume s: "s \<noteq> []" "\<not> py_space (hd s)" "\<not> py_space (List.last s)"
  have "dropWhile py_space t = t" if "t \<noteq> []" "\<not> py_space (hd t)" for t using that by (cases t) auto
  from this[of s] this[of "rev s"] s show ?thesis by (simp add: strip_def lstrip_def hd_rev)
qed

lemma strip_show_net: "strip (show_net net) = show_net net"
proof -
  have last: "\<not> py_space (List.last (s @ 47 # decimal n))" for s n
    using digit_clean[OF decimal_digits[OF last_in_set[OF decimal_nonempty]]] by (simp add: decimal_nonempty)
  have go: "strip (s @ t @ 47 # decimal n) = s @ t @ 47 # decimal n" if "s \<noteq> []" "plain s" for s t n
    using that last[of "s @ t" n] by (intro strip_ends) (auto simp: plain_def hd_append)
  have "show_v4 a \<noteq> []" for a by (simp add: show_v4_def Let_def)
  moreover have "show_ip (V6 a []) \<noteq> []" for a
    using parse_v6_shown[of "[]" a] by (auto simp: zone_name_def parse_v6_def parse_v6_digits_def v6_parts_def)
  ultimately show ?thesis
    using go[of "show_v4 _" "[]"] go[of "show_ip (V6 _ [])"] show_v4_plain show_v6_plain by (cases net) auto
qed

text \<open>C16. What is stored is what is trusted. The ranges of an entry field, written back as
  text and read again where a request is judged, are the networks of its entries, one for
  each entry that is a network; the entries that are none are those the field is refused
  for. Printing and reading agree for every address of both versions, in the shortened
  form of IPv6 too.\<close>

theorem stored_ranges_are_the_trusted_ones:
  "networks_of (parse_ranges raw) = List.map_filter ip_network (entries_of raw) \<and>
   (invalid_ranges raw = [] \<longleftrightarrow> length (parse_ranges raw) = length (entries_of raw)) \<and>
   ip_address (show_ip (V4 a)) = Some (V4 a) \<and> ip_address (show_ip (V6 b [])) = Some (V6 b [])"
proof -
  have "ip_network (strip (show_net net)) = Some net" if "net \<in> set (List.map_filter ip_network es)" for net es
    using that network_round_trip[of net] network_canonical strip_show_net
    by (auto simp: set_map_filter)
  then have sub: "List.map_filter (\<lambda>e. ip_network (strip e)) (map show_net ns) = ns"
    if "set ns \<subseteq> set (List.map_filter ip_network es)" for ns es
    using that by (induction ns) (auto simp: List.map_filter_simps)
  have "List.map_filter (\<lambda>e. ip_network (strip e)) (map show_net (List.map_filter ip_network es)) = List.map_filter ip_network es" for es
    by (rule sub[of _ es]) simp
  moreover have "filter (\<lambda>e. ip_network e = None) es = [] \<longleftrightarrow> length (List.map_filter ip_network es) = length es" for es
  proof -
    have "length (List.map_filter ip_network es) + length (filter (\<lambda>e. ip_network e = None) es) = length es"
      by (induction es) (auto simp: List.map_filter_simps split: option.splits)
    then show ?thesis by (metis add.right_neutral add_left_cancel length_0_conv)
  qed
  ultimately show ?thesis
    by (simp add: networks_of_def parse_ranges_def invalid_ranges_def ip_address_def parse_show_v4
      parse_v6_shown[of "[]", simplified] v6_is_no_v4[of _ "[]", simplified] zone_name_def)
qed

end
