(* ===== verification/Outbound.thy ===== *)
theory Outbound
  imports Net_Address
begin

text \<open>
  Where the panel and its hosts may be sent by an address somebody else chose: the webhooks
  of notifications (\<^verbatim>\<open>incubacloud/net/outbound.py\<close>) and the archive a host downloads to
  restore (\<^verbatim>\<open>incubacloud/net/restore_source.py\<close>, \<^verbatim>\<open>cloud_instance._check_restore_link\<close>). The
  resolver is an argument, and so is \<^verbatim>\<open>urlsplit\<close>: nothing here depends on how a link is
  taken apart.
\<close>

section \<open>Public addresses\<close>

datatype reject =
    Loopback | Link_local | Unspecified | Private_range | Nat64 | Ipv4_compatible | Site_local | Reserved_range
  | Multicast | Not_global

definition REFUSED_IPV6 :: "(net \<times> reject) list" where
  "REFUSED_IPV6 = [(Net6 (push_bit 96 0x64FF9B) 96, Nat64), (Net6 0 96, Ipv4_compatible), (n6 0xFEC0 10, Site_local)]"

text \<open>Why an address may not be dialled; \<open>None\<close> when it may. A mapped address is judged as
  the IPv4 address it reaches.\<close>

definition reject_address :: "ip \<Rightarrow> reject option" where
  "reject_address given =
     (let a = unmapped given in
      if is_loopback a then Some Loopback
      else if is_link_local a then Some Link_local
      else if is_unspecified a then Some Unspecified
      else if is_private a then Some Private_range
      else case find (\<lambda>(n, why). in_net a n) REFUSED_IPV6 of
          Some (n, why) \<Rightarrow> Some why
        | None \<Rightarrow>
            if is_reserved a then Some Reserved_range
            else if is_multicast a then Some Multicast
            else if \<not> is_global a then Some Not_global
            else None)"

datatype outbound_error =
    Bad_scheme | Has_credentials | No_host | Not_ascii | Bad_host | Bad_port | Wrong_port | Needs_ipv4
  | Cannot_resolve | Resolves_to_nothing | Not_an_address | Refused_address reject | No_such_version | Own_server
  | Value_error

type_synonym resolver = "pystr \<Rightarrow> int \<Rightarrow> pystr list option"

text \<open>Every address the name resolves to must pass; the first of the version asked for is
  the one to dial.\<close>

fun public_addresses :: "nat option \<Rightarrow> pystr list \<Rightarrow> outbound_error + pystr list" where
  "public_addresses version [] = Inr []"
| "public_addresses version (raw # raws) =
     (case ip_address raw of
        None \<Rightarrow> Inl Not_an_address
      | Some a \<Rightarrow>
          (case reject_address a of
             Some why \<Rightarrow> Inl (Refused_address why)
           | None \<Rightarrow>
               map_sum id (\<lambda>rest. if version = None \<or> version = Some (version_of a) then raw # rest else rest)
                 (public_addresses version raws)))"

definition resolve_public :: "resolver \<Rightarrow> pystr \<Rightarrow> int \<Rightarrow> nat option \<Rightarrow> outbound_error + pystr" where
  "resolve_public getaddrinfo host port version =
     (case getaddrinfo host port of
        None \<Rightarrow> Inl Cannot_resolve
      | Some [] \<Rightarrow> Inl Resolves_to_nothing
      | Some infos \<Rightarrow>
          (case public_addresses version infos of
             Inl e \<Rightarrow> Inl e
           | Inr [] \<Rightarrow> Inl No_such_version
           | Inr (a # _) \<Rightarrow> Inr a))"

section \<open>Webhooks\<close>

text \<open>What \<^verbatim>\<open>urlsplit\<close> gives; reading the port may raise.\<close>

datatype port = No_port | Port int | Port_error

record url_parts =
  scheme :: pystr
  username :: pystr
  password :: pystr
  hostname :: pystr
  port_of :: port
  path :: pystr
  query :: pystr

type_synonym splitter = "pystr \<Rightarrow> url_parts option"

text \<open>\<^verbatim>\<open>parts.port or default\<close>: a port of zero is none.\<close>

fun port_or :: "int \<Rightarrow> port \<Rightarrow> int option" where
  "port_or d Port_error = None"
| "port_or d No_port = Some d"
| "port_or d (Port n) = Some (if n = 0 then d else n)"

definition ALLOWED_PORT :: int where "ALLOWED_PORT = 443"

definition validate_url :: "splitter \<Rightarrow> resolver \<Rightarrow> pystr \<Rightarrow> outbound_error + url_parts" where
  "validate_url urlsplit getaddrinfo url =
     (case urlsplit url of
        None \<Rightarrow> Inl Value_error
      | Some parts \<Rightarrow>
          if scheme parts \<noteq> lit ''https'' then Inl Bad_scheme
          else if username parts \<noteq> [] \<or> password parts \<noteq> [] then Inl Has_credentials
          else if hostname parts = [] then Inl No_host
          else case port_or 443 (port_of parts) of
              None \<Rightarrow> Inl Value_error
            | Some p \<Rightarrow>
                if p \<noteq> ALLOWED_PORT then Inl Wrong_port
                else map_sum id (\<lambda>_. parts) (resolve_public getaddrinfo (hostname parts) p None))"

text \<open>\<^verbatim>\<open>post_json\<close> up to the connection: the name is resolved again, and that answer is the
  one dialled. The port is the one of the link.\<close>

definition post_target :: "splitter \<Rightarrow> resolver \<Rightarrow> resolver \<Rightarrow> pystr \<Rightarrow> outbound_error + (pystr \<times> int)" where
  "post_target urlsplit first_answer second_answer url =
     (case validate_url urlsplit first_answer url of
        Inl e \<Rightarrow> Inl e
      | Inr parts \<Rightarrow>
          (case port_or ALLOWED_PORT (port_of parts) of
             None \<Rightarrow> Inl Value_error
           | Some p \<Rightarrow> map_sum id (\<lambda>a. (a, p)) (resolve_public second_answer (hostname parts) p None)))"

section \<open>The archive of a restore\<close>

definition ALLOWED_SCHEMES :: "(pystr \<times> int) list" where
  "ALLOWED_SCHEMES = [(lit ''https'', 443), (lit ''sftp'', 22), (lit ''ftp'', 21)]"

definition host_name :: "pystr \<Rightarrow> bool" where
  "host_name s \<longleftrightarrow> s \<noteq> [] \<and> list_all (\<lambda>c. 97 \<le> c \<and> c \<le> 122 \<or> digit c \<or> c \<in> {46, 95, 45}) s"

definition is_ip_literal :: "pystr \<Rightarrow> bool" where
  "is_ip_literal host \<longleftrightarrow> ip_address host \<noteq> None"

definition own_server :: "net list \<Rightarrow> pystr \<Rightarrow> bool" where
  "own_server refused raw \<longleftrightarrow>
     (case ip_address raw of
        None \<Rightarrow> False
      | Some a \<Rightarrow>
          list_ex (\<lambda>n. net_version n = version_of (unmapped a) \<and> in_net (unmapped a) n) refused)"

definition validate_link ::
    "splitter \<Rightarrow> resolver \<Rightarrow> pystr \<Rightarrow> int option \<Rightarrow> net list \<Rightarrow> bool \<Rightarrow> outbound_error + (url_parts \<times> pystr \<times> int)" where
  "validate_link urlsplit getaddrinfo url only_port refused ipv4_only =
     (case urlsplit (strip url) of
        None \<Rightarrow> Inl Value_error
      | Some parts \<Rightarrow>
          (let host = hostname parts in
           case map_of ALLOWED_SCHEMES (scheme parts) of
             None \<Rightarrow> Inl Bad_scheme
           | Some d \<Rightarrow>
               if username parts \<noteq> [] \<or> password parts \<noteq> [] then Inl Has_credentials
               else if host = [] then Inl No_host
               else if \<not> ascii host then Inl Not_ascii
               else if \<not> host_name host \<and> \<not> is_ip_literal host then Inl Bad_host
               else case port_or d (port_of parts) of
                   None \<Rightarrow> Inl Bad_port
                 | Some p \<Rightarrow>
                     if \<not> (0 < p \<and> p < 65536) then Inl Bad_port
                     else if only_port \<noteq> None \<and> only_port \<noteq> Some 0 \<and> only_port \<noteq> Some p then Inl Wrong_port
                     else if ipv4_only \<and> (case ip_address host of Some a \<Rightarrow> version_of a = 6 | None \<Rightarrow> False)
                          then Inl Needs_ipv4
                     else case resolve_public getaddrinfo host p (if ipv4_only then Some 4 else None) of
                         Inl e \<Rightarrow> Inl e
                       | Inr address \<Rightarrow>
                           if own_server refused address then Inl Own_server
                           else Inr (parts, address, p)))"

text \<open>\<^verbatim>\<open>_check_restore_link\<close>, and \<^verbatim>\<open>_checked_link\<close> where the archive is fetched: an agent's
  link besides is https on its own port, at an IPv4 address that is no server of the
  panel's.\<close>

definition check_restore_link ::
    "splitter \<Rightarrow> resolver \<Rightarrow> net list \<Rightarrow> pystr \<Rightarrow> bool \<Rightarrow> outbound_error + (url_parts \<times> pystr \<times> int)" where
  "check_restore_link urlsplit getaddrinfo own_networks url from_agent =
     (if \<not> from_agent then validate_link urlsplit getaddrinfo url None [] False
      else case urlsplit url of
          None \<Rightarrow> Inl Value_error
        | Some parts \<Rightarrow>
            if scheme parts \<noteq> lit ''https'' then Inl Bad_scheme
            else validate_link urlsplit getaddrinfo url (Some 443) own_networks True)"

text \<open>The link curl is given, and the address it is told to dial for the name in it.\<close>

definition curl_host :: "url_parts \<Rightarrow> pystr" where
  "curl_host parts =
     (let host = hostname parts; bracketed = (if 58 \<in> set host then 91 # host @ [93] else host)
      in case port_of parts of
           Port n \<Rightarrow> if n = 0 then bracketed else bracketed @ 58 # decimal (nat n)
         | _ \<Rightarrow> bracketed)"

definition curl_url :: "url_parts \<Rightarrow> pystr" where
  "curl_url parts =
     scheme parts @ lit ''://'' @ curl_host parts @
       (if path parts \<noteq> [] \<and> hd (path parts) \<noteq> 47 then 47 # path parts else path parts) @
       (if query parts = [] then [] else 63 # query parts)"

definition curl_resolve_argument :: "url_parts \<Rightarrow> pystr \<Rightarrow> int \<Rightarrow> pystr" where
  "curl_resolve_argument parts address p =
     hostname parts @ 58 # decimal (nat p) @ 58 #
       (case ip_address address of
          Some a \<Rightarrow> if version_of a = 6 then 91 # address @ [93] else address
        | None \<Rightarrow> address)"

section \<open>What is shown of a link\<close>

definition SHOWN_WHOLE :: nat where "SHOWN_WHOLE = 8"
definition HIDDEN_AT_LEAST :: nat where "HIDDEN_AT_LEAST = 8"
definition SHOWN_AT_EACH_END :: nat where "SHOWN_AT_EACH_END = 4"
definition ELLIPSIS :: nat where "ELLIPSIS = 8230"

text \<open>The name and the extension of a piece, when it has one: a dot and one to five
  letters or digits.\<close>

definition letter_or_digit :: "nat \<Rightarrow> bool" where
  "letter_or_digit c \<longleftrightarrow> digit c \<or> 65 \<le> c \<and> c \<le> 90 \<or> 97 \<le> c \<and> c \<le> 122"

definition extension_of :: "pystr \<Rightarrow> (pystr \<times> pystr) option" where
  "extension_of piece =
     (let ext = rev (takeWhile (\<lambda>c. c \<noteq> 46) (rev piece)); n = length piece - Suc (length ext); name = take n piece
      in if 46 \<in> set piece \<and> 0 < length ext \<and> length ext \<le> 5 \<and> list_all letter_or_digit ext \<and> name \<noteq> [] \<and> 10 \<notin> set name
         then Some (name, 46 # ext) else None)"

definition cut_name :: "pystr \<Rightarrow> pystr" where
  "cut_name name =
     (let ends = min SHOWN_AT_EACH_END ((length name - HIDDEN_AT_LEAST) div 2)
      in if length name < HIDDEN_AT_LEAST + 2 then [ELLIPSIS]
         else take ends name @ ELLIPSIS # drop (length name - ends) name)"

definition cut_piece :: "pystr \<Rightarrow> pystr" where
  "cut_piece piece =
     (if length piece \<le> SHOWN_WHOLE then piece
      else case extension_of piece of
          None \<Rightarrow> cut_name piece
        | Some (name, ext) \<Rightarrow> if length name \<le> SHOWN_WHOLE then name @ ext else cut_name name @ ext)"

definition shown_host :: "url_parts \<Rightarrow> pystr" where
  "shown_host parts =
     (let host = (if 58 \<in> set (hostname parts) then 91 # hostname parts @ [93] else hostname parts)
      in scheme parts @ lit ''://'' @
         (case port_of parts of Port n \<Rightarrow> if n = 0 then host else host @ 58 # decimal (nat n) | _ \<Rightarrow> host))"

definition shown_link :: "splitter \<Rightarrow> pystr \<Rightarrow> pystr option" where
  "shown_link urlsplit url =
     map_option (\<lambda>parts.
        let segments = filter (\<lambda>s. s \<noteq> []) (split_on 47 (path parts));
            name = 47 # (if segments = [] then [] else cut_piece (List.last segments))
        in shown_host parts @ (if 1 < length segments then 47 # ELLIPSIS # name else name) @
           (if query parts = [] then [] else [63, ELLIPSIS]))
      (urlsplit (strip url))"

end
