(* ===== verification/Outbound_Facts.thy ===== *)
theory Outbound_Facts
  imports Outbound
begin

text \<open>
  What the checks of \<^verbatim>\<open>Outbound\<close> promise: no connection goes to an address inside the
  network, however it is written and whatever the name resolves to; and how much of a link
  is ever shown.
\<close>

section \<open>Networks\<close>

lemma netmask_nested:
  assumes "n \<le> m" and "m \<le> LENGTH('a)"
  shows "(a AND netmask m) AND netmask n = a AND (netmask n :: 'a::len word)"
  by (rule bit_word_eqI) (use assms in \<open>auto simp: netmask_def bit_and_iff bit_not_iff bit_mask_iff\<close>)

text \<open>Two networks with no address in common.\<close>

fun apart :: "net \<Rightarrow> net \<Rightarrow> bool" where
  "apart (Net4 b n) (Net4 c m) \<longleftrightarrow>
     n \<le> 32 \<and> m \<le> 32 \<and> b AND netmask (min n m) \<noteq> c AND netmask (min n m)"
| "apart (Net6z b n y) (Net6z c m z) \<longleftrightarrow>
     n \<le> 128 \<and> m \<le> 128 \<and> b AND netmask (min n m) \<noteq> c AND netmask (min n m)"
| "apart _ _ \<longleftrightarrow> True"

lemma apart_disjoint: "apart p q \<Longrightarrow> in_net a p \<Longrightarrow> \<not> in_net a q"
  by (cases "(p, q)" rule: apart.cases; cases a)
    (auto simp: netmask_nested[of "min _ _"])

lemma unmapped_unmapped [simp]: "unmapped (unmapped a) = unmapped a"
  by (cases a) (auto simp: unmapped_def)

text \<open>What lies inside the network, or is no single host of the Internet: this host, the
  private ranges, the metadata service's, carrier-grade NAT, multicast and what is
  reserved; and the IPv6 ranges that stand for them.\<close>

definition INTERNAL_NETWORKS :: "net list" where
  "INTERNAL_NETWORKS =
     [Net4 0 8, Net4 0x0A000000 8, Net4 0x7F000000 8, Net4 0xA9FE0000 16, Net4 0xAC100000 12, Net4 0xC0A80000 16,
      Net4 0xF0000000 4, Net6 1 128, n6 0xFC00 7, n6 0xFE80 10]"

definition OTHER_NETWORKS :: "net list" where
  "OTHER_NETWORKS =
     [SHARED_NETWORK, Net4 0xE0000000 4, n6 0xFF00 8, Net6 0 96, Net6 (push_bit 96 0x64FF9B) 96, n6 0xFEC0 10]"

definition public :: "pystr \<Rightarrow> bool" where
  "public s \<longleftrightarrow>
     (case ip_address s of
        None \<Rightarrow> False
      | Some a \<Rightarrow> \<not> in_any (unmapped a) INTERNAL_NETWORKS \<and> \<not> in_any (unmapped a) OTHER_NETWORKS)"

lemma internal_apart: "list_all (\<lambda>p. p \<in> set PRIVATE_NETWORKS \<and> list_all (apart p) PRIVATE_EXCEPTIONS) INTERNAL_NETWORKS"
  by (simp add: INTERNAL_NETWORKS_def PRIVATE_NETWORKS_def PRIVATE_EXCEPTIONS_def n6_def netmask_def
      mask_eq_exp_minus_1 push_bit_eq_mult)

lemma internal_private:
  assumes "in_any (unmapped a) INTERNAL_NETWORKS"
  shows "is_private (unmapped a)"
proof -
  obtain p where p: "p \<in> set INTERNAL_NETWORKS" "in_net (unmapped a) p"
    using assms by (auto simp: in_any_def list_ex_iff)
  with internal_apart have "p \<in> set PRIVATE_NETWORKS" "\<forall>q \<in> set PRIVATE_EXCEPTIONS. apart p q"
    by (auto simp: list_all_iff)
  with p(2) apart_disjoint show ?thesis
    by (auto simp: is_private_def in_any_def list_ex_iff)
qed

lemma rejected_none:
  assumes "reject_address a = None"
  shows "\<not> in_any (unmapped a) INTERNAL_NETWORKS \<and> \<not> in_any (unmapped a) OTHER_NETWORKS"
proof -
  from assms have free: "\<not> is_private (unmapped a)" "is_global (unmapped a)" "\<not> is_multicast (unmapped a)"
    and "find (\<lambda>(n, why). in_net (unmapped a) n) REFUSED_IPV6 = None"
    by (auto simp: reject_address_def Let_def split: if_splits option.splits)
  then have "\<forall>(n, why) \<in> set REFUSED_IPV6. \<not> in_net (unmapped a) n"
    by (auto simp: find_None_iff)
  with free show ?thesis
    using internal_private by (auto simp: OTHER_NETWORKS_def REFUSED_IPV6_def is_global_def is_multicast_def in_any_def)
qed

lemma public_addresses_public:
  assumes "public_addresses version raws = Inr as"
  shows "(\<forall>r \<in> set raws. public r) \<and> set as \<subseteq> set raws \<and>
    (\<forall>v. version = Some v \<longrightarrow> (\<forall>s \<in> set as. \<exists>a. ip_address s = Some a \<and> version_of a = v))"
  using assms
proof (induction version raws arbitrary: as rule: public_addresses.induct)
  case (2 version raw raws)
  then obtain a rest where a: "ip_address raw = Some a" "reject_address a = None" "public_addresses version raws = Inr rest"
      "as = (if version = None \<or> version = Some (version_of a) then raw # rest else rest)"
    by (cases "public_addresses version raws") (auto split: option.splits)
  then show ?case using 2(1)[OF a(1-3)] rejected_none[OF a(2)] by (auto simp: public_def)
qed simp

lemma resolve_public_public:
  assumes "resolve_public getaddrinfo host port version = Inr a"
  shows "public a \<and> (\<forall>v. version = Some v \<longrightarrow> (\<exists>ip. ip_address a = Some ip \<and> version_of ip = v)) \<and>
    (\<exists>answers. getaddrinfo host port = Some answers \<and> a \<in> set answers \<and> (\<forall>r \<in> set answers. public r))"
proof -
  obtain answers as where "getaddrinfo host port = Some answers" "public_addresses version answers = Inr (a # as)"
    using assms by (auto simp: resolve_public_def split: option.splits list.splits sum.splits)
  with public_addresses_public[of version answers "a # as"] show ?thesis by auto
qed

section \<open>Webhooks\<close>

lemma validate_urlD:
  assumes "validate_url urlsplit getaddrinfo url = Inr parts"
  shows "urlsplit url = Some parts \<and> scheme parts = lit ''https'' \<and> username parts = [] \<and> password parts = [] \<and>
    port_or 443 (port_of parts) = Some 443"
  using assms by (auto simp: validate_url_def ALLOWED_PORT_def split: option.splits if_splits elim!: map_sum_InrE)

text \<open>C12. A webhook is delivered to a public address only. The address dialled comes from the
  answer given when it is sent, not from the one checked when it was saved, and every
  address of that answer is public, one hidden in an IPv6 spelling included; over https,
  on port 443, with no credentials in the link.\<close>

theorem webhook_dials_a_public_address:
  assumes "post_target urlsplit first_answer second_answer url = Inr (a, p)"
  shows "public a \<and> p = 443 \<and>
    (\<exists>parts answers. urlsplit url = Some parts \<and> scheme parts = lit ''https'' \<and> username parts = [] \<and> password parts = [] \<and>
       second_answer (hostname parts) 443 = Some answers \<and> a \<in> set answers \<and> (\<forall>r \<in> set answers. public r))"
proof -
  obtain parts where parts: "validate_url urlsplit first_answer url = Inr parts"
    using assms by (auto simp: post_target_def split: sum.splits)
  note valid = validate_urlD[OF parts]
  with assms parts have "resolve_public second_answer (hostname parts) 443 None = Inr a" "p = 443"
    by (auto simp: post_target_def ALLOWED_PORT_def elim!: map_sum_InrE)
  with resolve_public_public valid show ?thesis by blast
qed

definition a_link :: url_parts where
  "a_link = \<lparr> scheme = lit ''https'', username = [], password = [], hostname = lit ''files.example.com'', port_of = No_port,
     path = lit ''/t/abcdefgh.zip'', query = [] \<rparr>"

lemma a_link_simps [simp]:
  "scheme a_link = lit ''https''" "username a_link = []" "password a_link = []" "hostname a_link \<noteq> []" "port_of a_link = No_port"
    "ascii (hostname a_link)" "host_name (hostname a_link)"
  by (simp_all add: a_link_def lit_def ascii_def host_name_def digit_def)

declare decimal.simps [simp del]

lemma a_public_address: "ip_address (lit ''8.8.4.4'') = Some (V4 0x08080404)"
  by (simp add: lit_def ip_address_def parse_v4_def parse_octet_def decimal_value_def of_digits_def digit_def)

lemma a_public_address_allowed: "reject_address (V4 0x08080404) = None"
  by (simp add: reject_address_def is_loopback_def is_link_local_def is_unspecified_def is_private_def is_reserved_def
      is_multicast_def is_global_def in_any_def unmapped_def PRIVATE_NETWORKS_def REFUSED_IPV6_def RESERVED_NETWORKS_def
      SHARED_NETWORK_def n6_def netmask_def mask_eq_exp_minus_1)

lemma resolves_to_public: "resolve_public (\<lambda>_ _. Some [lit ''8.8.4.4'']) host port version = Inr (lit ''8.8.4.4'')"
  if "version = None \<or> version = Some 4"
  using that by (auto simp: resolve_public_def a_public_address a_public_address_allowed)

theorem webhook_dials_a_public_address_witness:
  "public (lit ''8.8.4.4'') \<and>
   post_target (\<lambda>_. Some a_link) (\<lambda>_ _. Some [lit ''8.8.4.4'']) (\<lambda>_ _. Some [lit ''8.8.4.4'']) [] = Inr (lit ''8.8.4.4'', 443)"
proof -
  have "post_target (\<lambda>_. Some a_link) (\<lambda>_ _. Some [lit ''8.8.4.4'']) (\<lambda>_ _. Some [lit ''8.8.4.4'']) [] = Inr (lit ''8.8.4.4'', 443)"
    by (simp add: post_target_def validate_url_def resolves_to_public ALLOWED_PORT_def)
  with webhook_dials_a_public_address[OF this] show ?thesis by simp
qed

section \<open>Links to restore from\<close>

lemma validate_linkD:
  assumes "validate_link urlsplit getaddrinfo url only_port refused ipv4_only = Inr (parts, a, p)"
  shows "urlsplit (strip url) = Some parts \<and> username parts = [] \<and> password parts = [] \<and>
    (host_name (hostname parts) \<or> is_ip_literal (hostname parts)) \<and>
    (\<exists>d. (scheme parts, d) \<in> set ALLOWED_SCHEMES \<and> port_or d (port_of parts) = Some p) \<and> 0 < p \<and> p < 65536 \<and>
    (only_port = None \<or> only_port = Some 0 \<or> only_port = Some p) \<and>
    resolve_public getaddrinfo (hostname parts) p (if ipv4_only then Some 4 else None) = Inr a \<and> \<not> own_server refused a"
  using assms
  by (auto simp: validate_link_def Let_def dest: map_of_SomeD split: option.splits if_splits sum.splits)

lemma in_net_version: "in_net a n \<Longrightarrow> net_version n = version_of a"
  by (cases "(a, n)" rule: in_net.cases) auto



section \<open>What is shown of a link\<close>

lemma extension_ofD:
  assumes "extension_of piece = Some (name, ext)"
  shows "piece = name @ ext \<and> length ext \<le> 6"
proof -
  let ?e = "rev (takeWhile (\<lambda>c. c \<noteq> 46) (rev piece))"
  have "46 \<in> set piece" and name: "name = take (length piece - Suc (length ?e)) piece" and ext: "ext = 46 # ?e" "length ?e \<le> 5"
    using assms by (auto simp: extension_of_def Let_def split: if_splits)
  then have "dropWhile (\<lambda>c. c \<noteq> 46) (rev piece) \<noteq> []" by (auto simp: dropWhile_eq_Nil_conv)
  then obtain before where "dropWhile (\<lambda>c. c \<noteq> 46) (rev piece) = 46 # before"
    using hd_dropWhile[of "\<lambda>c. c \<noteq> 46" "rev piece"] by (cases "dropWhile (\<lambda>c. c \<noteq> 46) (rev piece)") auto
  then have "rev piece = rev ?e @ 46 # before"
    using takeWhile_dropWhile_id[of "\<lambda>c. c \<noteq> 46" "rev piece"] by simp
  then have piece: "piece = rev before @ 46 # ?e" by (metis append.assoc append_Cons append_Nil rev.simps(2) rev_append rev_rev_ident)
  then have "length piece - Suc (length ?e) = length before" by (metis add_diff_cancel_right' length_append length_Cons length_rev)
  then have "name = rev before" using name piece by (metis append_eq_conv_conj length_rev)
  with piece ext show ?thesis by auto
qed

lemma cut_name_parts:
  assumes "SHOWN_WHOLE < length name"
  obtains head hidden tail where "name = head @ hidden @ tail" "cut_name name = head @ ELLIPSIS # tail"
    "length head \<le> 4" "length tail \<le> 4" "8 \<le> length hidden"
proof -
  define e where "e = (if length name < 10 then 0 else min 4 ((length name - 8) div 2))"
  have e: "2 * e + 8 \<le> length name" "e \<le> 4" using assms by (auto simp: SHOWN_WHOLE_def e_def)
  then have "drop (length name - 2 * e) (drop e name) = drop (length name - e) name" by simp
  then have "name = take e name @ take (length name - 2 * e) (drop e name) @ drop (length name - e) name"
    by (metis append_take_drop_id)
  moreover have "cut_name name = take e name @ ELLIPSIS # drop (length name - e) name"
    by (simp add: cut_name_def HIDDEN_AT_LEAST_def SHOWN_AT_EACH_END_def Let_def e_def)
  ultimately show thesis by (rule that) (use e in simp_all)
qed

text \<open>C17. What is shown of a piece of a link never suffices to guess it: of a piece of more than
  fourteen characters at most four are shown at each end and at least eight are left out,
  beside an extension of at most five; and what is shown is no longer than fifteen
  characters.\<close>

theorem a_long_piece_stays_hidden:
  assumes "14 < length piece"
  shows "\<exists>head hidden tail ext. piece = head @ hidden @ tail @ ext \<and> cut_piece piece = head @ ELLIPSIS # tail @ ext \<and>
    length head \<le> 4 \<and> length tail \<le> 4 \<and> length ext \<le> 6 \<and> 8 \<le> length hidden \<and> length (cut_piece piece) \<le> 15"
proof (cases "extension_of piece")
  case None
  show ?thesis
  proof -
    have "SHOWN_WHOLE < length piece" using assms by (simp add: SHOWN_WHOLE_def)
    then obtain head hidden tail where "piece = head @ hidden @ tail" "cut_name piece = head @ ELLIPSIS # tail"
      "length head \<le> 4" "length tail \<le> 4" "8 \<le> length hidden" by (rule cut_name_parts)
    with None assms show ?thesis
      by (intro exI[of _ head] exI[of _ hidden] exI[of _ tail] exI[of _ "[]"]) (simp add: cut_piece_def SHOWN_WHOLE_def)
  qed
next
  case (Some e)
  then obtain name ext where e: "extension_of piece = Some (name, ext)" by (cases e) auto
  note parts = extension_ofD[OF e]
  with assms have "SHOWN_WHOLE < length name" by (auto simp: SHOWN_WHOLE_def)
  then obtain head hidden tail where "name = head @ hidden @ tail" "cut_name name = head @ ELLIPSIS # tail"
    "length head \<le> 4" "length tail \<le> 4" "8 \<le> length hidden" by (rule cut_name_parts)
  with e parts assms \<open>SHOWN_WHOLE < length name\<close> show ?thesis
    by (intro exI[of _ head] exI[of _ hidden] exI[of _ tail] exI[of _ ext]) (simp add: cut_piece_def SHOWN_WHOLE_def)
qed

theorem a_long_piece_stays_hidden_witness:
  "cut_piece (lit ''t-9f8e7d6c5b4a3.zip'') = lit ''t-9'' @ ELLIPSIS # lit ''4a3.zip'' \<and>
   length (cut_piece (lit ''t-9f8e7d6c5b4a3.zip'')) \<le> 15"
  using a_long_piece_stays_hidden[of "lit ''t-9f8e7d6c5b4a3.zip''"]
  by (simp add: cut_piece_def cut_name_def extension_of_def lit_def SHOWN_WHOLE_def HIDDEN_AT_LEAST_def SHOWN_AT_EACH_END_def
      letter_or_digit_def digit_def Let_def)

text \<open>Between nine and fourteen characters a piece whose name before the dot is short is shown
  whole.\<close>

lemma short_name_is_shown_whole: "cut_piece (lit ''aB3dE6gH.x9Y2z'') = lit ''aB3dE6gH.x9Y2z''"
  by (simp add: cut_piece_def extension_of_def lit_def SHOWN_WHOLE_def letter_or_digit_def digit_def Let_def)

end
