(* ===== verification/Roles.thy ===== *)
theory Roles
  imports IC_Prelude
begin

text \<open>
  The five roles of the panel and the gates built on them:
  \<^verbatim>\<open>models/cloud_security_mixin.py\<close>, and the table of the least role that may
  ask for each type of job (\<^verbatim>\<open>cloud.job._job_type_min_group\<close>).
\<close>

section \<open>Roles, lowest first\<close>

datatype role =
    Group_cloud_user
  | Group_cloud_consultant
  | Group_cloud_project_manager
  | Group_cloud_developer
  | Group_cloud_manager

definition GROUP_HIERARCHY :: "role list" where
  "GROUP_HIERARCHY =
     [Group_cloud_user, Group_cloud_consultant, Group_cloud_project_manager,
      Group_cloud_developer, Group_cloud_manager]"

primrec rank :: "role \<Rightarrow> nat" where
  "rank Group_cloud_user = 0"
| "rank Group_cloud_consultant = 1"
| "rank Group_cloud_project_manager = 2"
| "rank Group_cloud_developer = 3"
| "rank Group_cloud_manager = 4"

lemma rank_inj: "rank a = rank b \<longleftrightarrow> a = b"
  by (cases a; cases b) simp_all

instantiation role :: linorder
begin

definition less_eq_role :: "role \<Rightarrow> role \<Rightarrow> bool" where
  "less_eq_role a b \<longleftrightarrow> rank a \<le> rank b"

definition less_role :: "role \<Rightarrow> role \<Rightarrow> bool" where
  "less_role a b \<longleftrightarrow> rank a < rank b"

instance
  by standard (auto simp: less_eq_role_def less_role_def rank_inj)

end

lemma GROUP_HIERARCHY_sorted: "sorted_wrt (<) GROUP_HIERARCHY"
  by (simp add: GROUP_HIERARCHY_def less_role_def)

section \<open>The caller and the core check\<close>

text \<open>What a check reads of the environment it runs in: \<^verbatim>\<open>env.su\<close>, the user and
  the groups \<^verbatim>\<open>has_group\<close> finds on them.\<close>

record caller =
  su :: bool
  uid :: nat
  has_group :: "role \<Rightarrow> bool"

datatype access_error = NeedsRole role

type_synonym gate = "(access_error, unit) result"

definition hierarchy_from :: "role \<Rightarrow> role list" where
  "hierarchy_from min_group = dropWhile (\<lambda>g. g \<noteq> min_group) GROUP_HIERARCHY"

definition check_cloud_group :: "caller \<Rightarrow> role \<Rightarrow> gate" where
  "check_cloud_group c min_group =
     (if su c then Inr ()
      else if find (has_group c) (hierarchy_from min_group) \<noteq> None then Inr ()
      else Inl (NeedsRole min_group))"

definition has_cloud_group :: "caller \<Rightarrow> role \<Rightarrow> bool" where
  "has_cloud_group c min_group \<longleftrightarrow>
     su c \<or> list_ex (has_group c) (hierarchy_from min_group)"

section \<open>The semantic checks\<close>

datatype environment = Production | Staging | Runbot

definition check_can_create_project :: "caller \<Rightarrow> gate" where
  "check_can_create_project c = check_cloud_group c Group_cloud_project_manager"

definition check_can_delete_project :: "caller \<Rightarrow> gate" where
  "check_can_delete_project c = check_cloud_group c Group_cloud_manager"

definition check_can_create_instance :: "caller \<Rightarrow> gate" where
  "check_can_create_instance c = check_cloud_group c Group_cloud_consultant"

definition check_can_delete_instance :: "caller \<Rightarrow> environment \<Rightarrow> gate" where
  "check_can_delete_instance c env =
     (if env = Production then check_cloud_group c Group_cloud_manager
      else check_cloud_group c Group_cloud_consultant)"

definition check_can_deploy :: "caller \<Rightarrow> gate" where
  "check_can_deploy c = check_cloud_group c Group_cloud_consultant"

definition check_can_manage_hosts :: "caller \<Rightarrow> gate" where
  "check_can_manage_hosts c = check_cloud_group c Group_cloud_manager"

definition check_can_view_metrics :: "caller \<Rightarrow> gate" where
  "check_can_view_metrics c = check_cloud_group c Group_cloud_developer"

definition check_can_manage_settings :: "caller \<Rightarrow> gate" where
  "check_can_manage_settings c = check_cloud_group c Group_cloud_manager"

definition check_can_use_terminal :: "caller \<Rightarrow> gate" where
  "check_can_use_terminal c = check_cloud_group c Group_cloud_developer"

definition check_can_view_logs :: "caller \<Rightarrow> gate" where
  "check_can_view_logs c = check_cloud_group c Group_cloud_developer"

definition check_can_manage_backups :: "caller \<Rightarrow> gate" where
  "check_can_manage_backups c = check_cloud_group c Group_cloud_developer"

definition check_can_export :: "caller \<Rightarrow> gate" where
  "check_can_export c = check_cloud_group c Group_cloud_developer"

definition check_can_clone_to_staging :: "caller \<Rightarrow> gate" where
  "check_can_clone_to_staging c = check_cloud_group c Group_cloud_developer"

definition check_can_connect_as_user :: "caller \<Rightarrow> environment option \<Rightarrow> bool \<Rightarrow> gate" where
  "check_can_connect_as_user c inst target_is_admin =
     (if inst = Some Production then
        (if target_is_admin then check_cloud_group c Group_cloud_manager
         else check_cloud_group c Group_cloud_developer)
      else check_cloud_group c Group_cloud_user)"

definition get_user_role :: "caller \<Rightarrow> string" where
  "get_user_role c =
     (case find (has_group c) (rev GROUP_HIERARCHY) of
        None \<Rightarrow> ''none''
      | Some Group_cloud_user \<Rightarrow> ''stakeholder''
      | Some Group_cloud_consultant \<Rightarrow> ''consultant''
      | Some Group_cloud_project_manager \<Rightarrow> ''project_manager''
      | Some Group_cloud_developer \<Rightarrow> ''developer''
      | Some Group_cloud_manager \<Rightarrow> ''manager'')"

text \<open>The boolean flags of \<^verbatim>\<open>/cloud/get_config\<close>, in the source's order.\<close>

definition get_user_permissions :: "caller \<Rightarrow> (string \<times> bool) list" where
  "get_user_permissions c =
     (let at_least = has_cloud_group c in
      [(''can_create_project'', at_least Group_cloud_project_manager),
       (''can_manage_hosts'', at_least Group_cloud_manager),
       (''can_manage_settings'', at_least Group_cloud_manager),
       (''can_use_terminal'', at_least Group_cloud_developer),
       (''can_view_logs'', at_least Group_cloud_developer),
       (''can_view_metrics'', at_least Group_cloud_developer),
       (''can_manage_backups'', at_least Group_cloud_developer),
       (''can_export'', at_least Group_cloud_developer),
       (''can_clone_to_staging'', at_least Group_cloud_developer),
       (''can_delete_production'', at_least Group_cloud_manager),
       (''can_delete_project'', at_least Group_cloud_manager),
       (''can_connect_as'', at_least Group_cloud_user),
       (''can_connect_production'', at_least Group_cloud_developer),
       (''can_connect_production_admin'', at_least Group_cloud_manager),
       (''can_deploy'', at_least Group_cloud_consultant),
       (''can_create_instance'', at_least Group_cloud_consultant),
       (''can_edit_instance'', at_least Group_cloud_consultant),
       (''can_edit_project'', at_least Group_cloud_consultant)])"

text \<open>The gate the server applies for each flag the panel shows.\<close>

definition flag_gates :: "caller \<Rightarrow> (string \<times> gate) list" where
  "flag_gates c =
     [(''can_create_project'', check_can_create_project c),
      (''can_manage_hosts'', check_can_manage_hosts c),
      (''can_manage_settings'', check_can_manage_settings c),
      (''can_use_terminal'', check_can_use_terminal c),
      (''can_view_logs'', check_can_view_logs c),
      (''can_view_metrics'', check_can_view_metrics c),
      (''can_manage_backups'', check_can_manage_backups c),
      (''can_export'', check_can_export c),
      (''can_clone_to_staging'', check_can_clone_to_staging c),
      (''can_delete_production'', check_can_delete_instance c Production),
      (''can_delete_project'', check_can_delete_project c),
      (''can_connect_as'', check_can_connect_as_user c (Some Staging) False),
      (''can_connect_production'', check_can_connect_as_user c (Some Production) False),
      (''can_connect_production_admin'', check_can_connect_as_user c (Some Production) True),
      (''can_deploy'', check_can_deploy c),
      (''can_create_instance'', check_can_create_instance c)]"

section \<open>Who may ask for a type of job\<close>

definition job_type_min_group :: "(string \<times> role) list" where
  "job_type_min_group =
     map (\<lambda>t. (t, Group_cloud_consultant))
       [''deploy_instance'', ''rebuild_instance'', ''start_instance'', ''stop_instance'',
        ''restart_instance'', ''delete_instance''] @
     map (\<lambda>t. (t, Group_cloud_developer))
       [''backup_list'', ''backup_create'', ''backup_download'', ''backup_download_neutralized'',
        ''backup_restore'', ''restore_instance'', ''grant_restore_upload_key'',
        ''verify_restore_upload'', ''revoke_restore_upload_key'', ''export_instance''] @
     map (\<lambda>t. (t, Group_cloud_manager))
       [''host_probe'', ''capture_secret_key'', ''host_metrics'', ''watch_restore_uploads'',
        ''host_hardening'', ''full_setup'', ''push_trusted_proxies'', ''sync_direct_path'',
        ''push_edge_guard'', ''setup_whitelist'', ''delete_host'', ''docker_prune'',
        ''discard_handoff'', ''instance_health'', ''read_last_login'', ''sync_metrics_accounts'',
        ''install_observability'', ''deploy_metrics_central'', ''move_cutover'',
        ''move_cleanup_source'', ''move_rollback_cleanup'', ''move_quiet_check'',
        ''move_fingerprint'', ''move_freeze_source'', ''purge_archived_backups'',
        ''delete_project'']"

text \<open>\<open>env\<close> is the environment of the target instance as the caller's own
  record rules show it: \<open>None\<close> when there is none, or they cannot see it.\<close>

definition check_job_type_allowed ::
  "(string \<times> role) list \<Rightarrow> caller \<Rightarrow> string \<Rightarrow> environment option \<Rightarrow> gate" where
  "check_job_type_allowed table c code env =
     (if su c then Inr ()
      else
        (case check_cloud_group c
                (case map_of table code of None \<Rightarrow> Group_cloud_manager | Some g \<Rightarrow> g)
         of Inl err \<Rightarrow> Inl err
          | Inr _ \<Rightarrow>
              if code = ''delete_instance'' then
                (case env of None \<Rightarrow> Inr () | Some ev \<Rightarrow> check_can_delete_instance c ev)
              else Inr ()))"

section \<open>Facts\<close>

lemma hierarchy_from_set: "r \<in> set (hierarchy_from m) \<longleftrightarrow> m \<le> r"
  by (cases m; cases r) (simp_all add: hierarchy_from_def GROUP_HIERARCHY_def less_eq_role_def)

lemma check_cloud_group_iff:
  "check_cloud_group c m = Inr () \<longleftrightarrow> su c \<or> (\<exists>r \<ge> m. has_group c r)"
  by (auto simp: check_cloud_group_def find_None_iff hierarchy_from_set)

lemma has_cloud_group_iff:
  "has_cloud_group c m \<longleftrightarrow> check_cloud_group c m = Inr ()"
  by (auto simp: has_cloud_group_def check_cloud_group_iff list_ex_iff hierarchy_from_set)

lemma check_cloud_group_mono:
  "check_cloud_group c m = Inr () \<Longrightarrow> l \<le> m \<Longrightarrow> check_cloud_group c l = Inr ()"
  by (auto simp: check_cloud_group_iff intro: order_trans)

lemma check_cloud_group_cases:
  "check_cloud_group c m = Inl (NeedsRole m) \<or> check_cloud_group c m = Inr ()"
  by (simp add: check_cloud_group_def)

lemmas gate_defs =
  check_can_create_project_def check_can_delete_project_def check_can_create_instance_def
  check_can_delete_instance_def check_can_deploy_def check_can_manage_hosts_def
  check_can_view_metrics_def check_can_manage_settings_def check_can_use_terminal_def
  check_can_view_logs_def check_can_manage_backups_def check_can_export_def
  check_can_clone_to_staging_def check_can_connect_as_user_def

section \<open>Properties\<close>

text \<open>
  C35. What the panel shows is what the server allows: every flag of the
  configuration that has a gate of its own is true exactly when that gate
  lets the same caller through.
\<close>

theorem permissions_agree_with_gates:
  "\<forall>flag gate. map_of (flag_gates c) flag = Some gate
     \<longrightarrow> map_of (get_user_permissions c) flag = Some (gate = Inr ())"
  by (simp add: flag_gates_def get_user_permissions_def Let_def gate_defs has_cloud_group_iff)

theorem permissions_agree_with_gates_witness:
  "map_of (get_user_permissions \<lparr>su = False, uid = 3, has_group = (\<lambda>r. r = Group_cloud_developer)\<rparr>)
     ''can_delete_production''
   = Some (check_can_delete_instance
       \<lparr>su = False, uid = 3, has_group = (\<lambda>r. r = Group_cloud_developer)\<rparr> Production = Inr ())"
  by (rule permissions_agree_with_gates [rule_format]) (simp add: flag_gates_def)

text \<open>
  The gate on job types fails closed and never lets a caller destroy
  production with a lower role: a caller without superuser rights who passes
  it for a type the table does not list, for a type of a host or a move, or
  for the deletion of a production instance they can see, holds the manager
  role.
\<close>

theorem job_type_gate_fails_closed:
  assumes "check_job_type_allowed job_type_min_group c code env = Inr ()" and "\<not> su c"
    and "map_of job_type_min_group code = None
         \<or> map_of job_type_min_group code = Some Group_cloud_manager
         \<or> (code = ''delete_instance'' \<and> env = Some Production)"
  shows "has_group c Group_cloud_manager"
proof -
  have "r = Group_cloud_manager" if "Group_cloud_manager \<le> r" for r
    using that by (cases r) (simp_all add: less_eq_role_def)
  moreover have "check_cloud_group c Group_cloud_manager = Inr ()"
    using assms by (auto simp: check_job_type_allowed_def check_can_delete_instance_def
        split: sum.splits option.splits)
  ultimately show ?thesis using assms(2) by (auto simp: check_cloud_group_iff)
qed

theorem job_type_gate_fails_closed_witness:
  "has_group \<lparr>su = False, uid = 1, has_group = (\<lambda>r. r = Group_cloud_manager)\<rparr> Group_cloud_manager"
  by (rule job_type_gate_fails_closed [where code = "''delete_instance''" and env = "Some Production"])
     (simp_all add: check_job_type_allowed_def check_can_delete_instance_def check_cloud_group_def
        hierarchy_from_def GROUP_HIERARCHY_def job_type_min_group_def)

end
