(* ===== verification/Job_Model.thy ===== *)
theory Job_Model
  imports Json Roles "HOL-Library.Product_Lexorder"
begin

text \<open>
  The state the job queue works on: the rows of \<^verbatim>\<open>cloud.job\<close>, the rows of
  OCA's \<^verbatim>\<open>queue.job\<close> it hands work to, the alerts and instances it reads, and
  what one transaction sees and holds (\<^verbatim>\<open>models/cloud_job.py\<close>, fields and class
  attributes; \<^verbatim>\<open>models/cloud_job_type.py\<close>). A many2one is the id of the record,
  \<open>None\<close> when empty; ids are positive, as the database's sequences give them.
\<close>

section \<open>Job states\<close>

datatype job_state =
  Queued | Pending | Enqueued | Wait_dependencies | Started | Done | Failed | Cancelled

definition running_states :: "job_state list" where
  "running_states = [Pending, Enqueued, Wait_dependencies, Started]"

definition active_states :: "job_state list" where
  "active_states = [Queued, Pending, Enqueued, Wait_dependencies, Started]"

definition terminal_states :: "job_state list" where
  "terminal_states = [Done, Failed, Cancelled]"

lemma set_running_states [simp]:
  "s \<in> set running_states \<longleftrightarrow> s \<in> {Pending, Enqueued, Wait_dependencies, Started}"
  by (simp add: running_states_def)

lemma set_terminal_states [simp]:
  "s \<in> set terminal_states \<longleftrightarrow> s \<in> {Done, Failed, Cancelled}"
  by (simp add: terminal_states_def)

lemma set_active_states [simp]:
  "s \<in> set active_states \<longleftrightarrow> s = Queued \<or> s \<in> set running_states"
  by (simp add: active_states_def)

section \<open>Records\<close>

record job_type =
  code :: string
  apply_to_instance :: bool
  priority_tier :: string
  queue_collapse :: bool
  queue_exclusive :: bool
  failure_holds_queue :: bool

record cloud_job =
  jid :: nat
  job_type_id :: string
  state :: "job_state option"
  queue_head :: bool
  queue_chain_key :: "nat option"
  succeeded_before_cancel :: bool
  worker_lost_at :: "nat option"
  payload :: "dict option"
  secret_payload :: "pystr option"
  queue_job_uuid :: "nat option"
  instance_id :: "nat option"
  host_id :: nat
  blocked_alert_id :: "nat option"
  retry_of_id :: "nat option"
  asked_as_superuser :: bool
  create_uid :: nat
  create_date :: nat

text \<open>What a run of queue_job stores as its result, as far as the panel reads it.
  \<open>q_connection_lost\<close> says whether the exception's message carries the marker of
  a connection retry.\<close>

datatype job_result = Cancelled_while_running | Blocked_by_alert | Other_result

record queue_job =
  q_uuid :: nat
  q_state :: job_state
  q_result :: "job_result option"
  q_exc_name :: string
  q_connection_lost :: bool
  q_graph_uuid :: "nat option"
  q_reverse_depends_on :: "nat list"
  q_user :: nat
  q_su :: bool
  q_channel :: string
  q_priority :: nat
  q_max_retries :: nat

record alert =
  a_id :: nat
  a_code :: string
  a_active :: bool
  a_critical :: bool
  a_was_critical :: bool
  a_key :: "string option"
  a_job_id :: "nat option"
  a_instance_id :: "nat option"
  a_host_id :: "nat option"

text \<open>Of an instance: its lifecycle, with \<^verbatim>\<open>deployed\<close>, stored and derived from it,
  the markers of a move, and the two activity clocks and the notice stamps of a
  staging. Times are seconds.\<close>

datatype life_state = Draft | Deploying | Deployed | Deleting

record instance_rec =
  i_active :: bool
  i_host_id :: "nat option"
  i_environment :: environment
  i_state :: life_state
  i_deployed :: bool
  i_running :: bool
  i_status_ok :: bool
  i_removal_finalized :: bool
  i_archived_at :: "int option"
  i_move_origin_host_id :: "nat option"
  i_move_target_host_id :: "nat option"
  i_move_rollback_in_progress :: bool
  i_move_chain_job_ids :: "nat list"
  i_move_frozen_source_host_id :: "nat option"
  i_pip_conflicts :: bool
  i_last_touched_at :: "int option"
  i_last_login_seen_at :: "int option"
  i_autopurge_exempt :: bool
  i_autopurge_warned_at :: "int option"
  i_autopurge_final_warned_at :: "int option"

text \<open>A queue is named by \<^verbatim>\<open>(instance_id, None)\<close> or \<^verbatim>\<open>(None, host_id)\<close>.\<close>

type_synonym scope = "nat option \<times> nat option"

text \<open>How a job whose worker was lost is closed, as \<^verbatim>\<open>_lost_job_case\<close> names it.\<close>

datatype lost_case = Lost_failed | Lost_stopped | Lost_cancelled_running | Lost_cancelled_waiting | Lost_done

text \<open>The notes the queue leaves in a job's log.\<close>

datatype log_note =
    Cancelled_by nat
  | Instance_gone
  | Instance_being_deleted
  | Not_run nat job_state
  | Hook_failed
  | Worker_lost lost_case bool
  | Clean_up_unfinished
  | Other_note

record audit_row =
  au_action :: string
  au_instance_id :: "nat option"
  au_host_id :: nat
  au_job_id :: nat

text \<open>What a job update tells the browsers: a job was created or handed over, it
  ended, or it ended blocked and waits for its alert.\<close>

datatype bus_event = Job_created | Job_ended job_state | Job_blocked

text \<open>What a transaction sees of the database, with its own writes: the tables,
  the sequences, what it wrote to the job logs and the audit trail, the job
  updates it asked to broadcast, the advisory locks it holds, and what is
  registered for after its commit: the jobs whose earlier failures are to be
  dismissed, and the queues to serve. Of an instance the queue also
  reads whether its \<^verbatim>\<open>pip_dependencies\<close> hold conflict markers, and of a host
  whether it is active and compatible.\<close>

record db =
  jobs :: "cloud_job list"
  qjobs :: "queue_job list"
  alerts :: "alert list"
  instances :: "nat \<rightharpoonup> instance_rec"
  types :: "string \<rightharpoonup> job_type"
  next_job_id :: nat
  next_uuid :: nat
  next_alert_id :: nat
  host_available :: "nat \<Rightarrow> bool"
  clock :: nat
  log_chunks :: "(nat \<times> log_note) list"
  audit_log :: "audit_row list"
  bus :: "(nat \<times> bus_event) list"
  held_locks :: "(int \<times> nat) list"
  dismissals :: "nat list"
  postcommit :: "scope list"

section \<open>Tables\<close>

text \<open>The ORM over one table: \<^verbatim>\<open>browse\<close> by id and \<^verbatim>\<open>write\<close> on the rows of a set
  of ids. Its laws are proved once, for any record with a key.\<close>

definition browse_row :: "('r \<Rightarrow> nat) \<Rightarrow> 'r list \<Rightarrow> nat \<Rightarrow> 'r option" where
  "browse_row key rows i = find (\<lambda>r. key r = i) rows"

definition write_rows ::
  "('r \<Rightarrow> nat) \<Rightarrow> (nat \<Rightarrow> bool) \<Rightarrow> ('r \<Rightarrow> 'r) \<Rightarrow> 'r list \<Rightarrow> 'r list" where
  "write_rows key sel f rows = map (\<lambda>r. if sel (key r) then f r else r) rows"

locale table =
  fixes key :: "'r \<Rightarrow> nat"
    and browse :: "'r list \<Rightarrow> nat \<Rightarrow> 'r option"
    and upd :: "(nat \<Rightarrow> bool) \<Rightarrow> ('r \<Rightarrow> 'r) \<Rightarrow> 'r list \<Rightarrow> 'r list"
  assumes browse_Some: "distinct (map key rows) \<Longrightarrow> browse rows i = Some r \<longleftrightarrow> r \<in> set rows \<and> key r = i"
    and set_write: "set (upd sel f rows) = (\<lambda>r. if sel (key r) then f r else r) ` set rows"
    and write_keys: "(\<And>r. key (f r) = key r) \<Longrightarrow> map key (upd sel f rows) = map key rows"
begin

lemma browse_None: "distinct (map key rows) \<Longrightarrow> browse rows i = None \<longleftrightarrow> i \<notin> key ` set rows"
  using browse_Some [of rows i] by (cases "browse rows i") force+

lemma browse_write:
  assumes "distinct (map key rows)" and "\<And>r. key (f r) = key r"
  shows "browse (upd sel f rows) i = map_option (\<lambda>r. if sel i then f r else r) (browse rows i)"
proof (cases "browse rows i")
  case None
  then have "i \<notin> key ` set (upd sel f rows)"
    using assms by (auto simp: browse_None set_write)
  then have "browse (upd sel f rows) i = None"
    using assms by (simp add: browse_None write_keys)
  with None show ?thesis by simp
next
  case (Some r)
  then have r: "r \<in> set rows" "key r = i" using assms by (auto simp: browse_Some)
  have "(if sel i then f r else r) \<in> set (upd sel f rows)"
    using r by (force simp: set_write)
  moreover have "key (if sel i then f r else r) = i" using r assms by simp
  moreover have "distinct (map key (upd sel f rows))" using assms by (simp add: write_keys)
  ultimately have "browse (upd sel f rows) i = Some (if sel i then f r else r)"
    by (subst browse_Some) simp_all
  with Some show ?thesis by simp
qed

lemma write_frame: "r \<in> set rows \<Longrightarrow> \<not> sel (key r) \<Longrightarrow> r \<in> set (upd sel f rows)"
  by (force simp: set_write)

lemma in_write_iff:
  "x \<in> set (upd sel f rows) \<longleftrightarrow> (\<exists>r \<in> set rows. x = (if sel (key r) then f r else r))"
  by (auto simp: set_write)

end

lemma table_rows: "table key (browse_row key) (write_rows key)"
proof
  fix rows :: "'a list" and i r
  assume d: "distinct (map key rows)"
  show "browse_row key rows i = Some r \<longleftrightarrow> r \<in> set rows \<and> key r = i"
  proof
    assume "browse_row key rows i = Some r"
    then show "r \<in> set rows \<and> key r = i"
      unfolding browse_row_def by (rule find_Some_set)
  next
    assume "r \<in> set rows \<and> key r = i"
    with find_distinct_key [OF d, of r] show "browse_row key rows i = Some r"
      by (auto simp: browse_row_def)
  qed
qed (simp_all add: write_rows_def)

interpretation cloud_jobs: table jid "browse_row jid" "write_rows jid"
  by (rule table_rows)

interpretation queue_jobs: table q_uuid "browse_row q_uuid" "write_rows q_uuid"
  by (rule table_rows)

interpretation alert_rows: table a_id "browse_row a_id" "write_rows a_id"
  by (rule table_rows)

definition job_of :: "db \<Rightarrow> nat \<Rightarrow> cloud_job option" where
  "job_of d i = browse_row jid (jobs d) i"

definition records :: "db \<Rightarrow> nat list \<Rightarrow> cloud_job list" where
  "records d ids = List.map_filter (job_of d) ids"

definition write_jobs :: "nat list \<Rightarrow> (cloud_job \<Rightarrow> cloud_job) \<Rightarrow> db \<Rightarrow> db" where
  "write_jobs ids f d = d\<lparr>jobs := write_rows jid (\<lambda>i. i \<in> set ids) f (jobs d)\<rparr>"

definition type_rec :: "db \<Rightarrow> cloud_job \<Rightarrow> job_type option" where
  "type_rec d j = types d (job_type_id j)"

definition inst_of :: "db \<Rightarrow> cloud_job \<Rightarrow> instance_rec option" where
  "inst_of d j = Option.bind (instance_id j) (instances d)"

section \<open>The world around a transaction\<close>

text \<open>What an executor class tells the queue (\<^verbatim>\<open>models/abstract_executor.py\<close>,
  class attributes and the two class methods the queue asks).\<close>

record executor_cls =
  runs_on_archived_instance :: bool
  executor_pinned_to_host :: bool
  retry_on_connection_loss :: bool
  connection_retry_attempts :: nat
  postpones_between_ticks :: bool
  failure_alert_code :: "string option"
  merge_queued_payload :: "cloud_job \<Rightarrow> dict \<Rightarrow> dict option"
  supersedes_failure :: "cloud_job \<Rightarrow> cloud_job list \<Rightarrow> bool"

definition abstract_executor :: executor_cls where
  "abstract_executor =
     \<lparr>runs_on_archived_instance = False, executor_pinned_to_host = False,
      retry_on_connection_loss = False, connection_retry_attempts = 10,
      postpones_between_ticks = False, failure_alert_code = None,
      merge_queued_payload = (\<lambda>_ _. None), supersedes_failure = (\<lambda>_ _. False)\<rparr>"

text \<open>The hooks executors and other modules run inside the queue's
  transactions, each in a savepoint.\<close>

datatype hook_call =
    On_cancelled_queued nat
  | After_job_terminal nat job_state
  | On_never_run nat
  | On_unblocked nat
  | On_abort nat
  | On_cancelled_running nat

text \<open>The executors registered, what the modules installed say of job types
  and alert codes, what other transactions hold and have committed (a fresh
  READ COMMITTED read), and the hooks: \<open>None\<close> is a hook that raised, whose
  savepoint is rolled back.\<close>

record world =
  executors :: "string \<rightharpoonup> executor_cls"
  hidden_job_types :: "string list"
  queue_clearing_job_types :: "string list"
  actionable_alert_codes :: "string list"
  severe_job_types :: "string list"
  min_groups :: "(string \<times> role) list"
  foreign_locks :: "(int \<times> nat) list"
  fresh :: db
  hooks :: "hook_call \<Rightarrow> db \<Rightarrow> db option"

definition core_hidden_job_types :: "string list" where
  "core_hidden_job_types =
     [''host_metrics'', ''docker_prune'', ''instance_health'', ''read_last_login'',
      ''capture_secret_key'', ''watch_restore_uploads'', ''discard_handoff'',
      ''move_quiet_check'', ''move_fingerprint'', ''move_freeze_source'']"

definition core_queue_clearing_job_types :: "string list" where
  "core_queue_clearing_job_types = [''delete_instance'']"

definition core_actionable_alert_codes :: "string list" where
  "core_actionable_alert_codes = [''pip_conflict'', ''addon_conflict'']"

definition core_severe_job_types :: "string list" where
  "core_severe_job_types = [''deploy_instance'', ''rebuild_instance'']"

definition queue_holding_alert_codes :: "world \<Rightarrow> string list" where
  "queue_holding_alert_codes w = ''job_failed'' # actionable_alert_codes w"

definition hidden :: "world \<Rightarrow> cloud_job \<Rightarrow> bool" where
  "hidden w j \<longleftrightarrow> job_type_id j \<in> set (hidden_job_types w)"

section \<open>Scopes and locks\<close>

text \<open>Python's truth of an id that may be absent.\<close>

definition given :: "nat option \<Rightarrow> bool" where
  "given i \<longleftrightarrow> i \<noteq> None \<and> i \<noteq> Some 0"

definition scope_of_step :: "nat option \<Rightarrow> nat option \<Rightarrow> scope" where
  "scope_of_step inst host = (if given inst then (inst, None) else (None, host))"

definition scope_of :: "cloud_job \<Rightarrow> scope" where
  "scope_of j = scope_of_step (instance_id j) (Some (host_id j))"

definition in_scope :: "scope \<Rightarrow> cloud_job \<Rightarrow> bool" where
  "in_scope s j \<longleftrightarrow>
     (if given (fst s) then instance_id j = fst s
      else Some (host_id j) = snd s \<and> instance_id j = None)"

definition JOB_LOCK_NAMESPACE :: int where
  "JOB_LOCK_NAMESPACE = 0x0C10D10B"

definition HOST_JOB_LOCK_NAMESPACE :: int where
  "HOST_JOB_LOCK_NAMESPACE = 0x0C10D10C"

text \<open>The advisory lock of a queue; a scope that names nothing takes the lock
  of id 0.\<close>

definition lock_key :: "scope \<Rightarrow> int \<times> nat" where
  "lock_key s =
     (if given (fst s) then (JOB_LOCK_NAMESPACE, the (fst s))
      else (HOST_JOB_LOCK_NAMESPACE, case snd s of None \<Rightarrow> 0 | Some h \<Rightarrow> h))"

definition scope_order :: "scope \<Rightarrow> nat \<times> nat" where
  "scope_order s =
     (case fst s of None \<Rightarrow> 0 | Some i \<Rightarrow> i, case snd s of None \<Rightarrow> 0 | Some h \<Rightarrow> h)"

text \<open>Blocking: when it returns, every lock is held. The locks are asked for in
  the order of the scopes.\<close>

definition lock_scopes :: "scope list \<Rightarrow> db \<Rightarrow> db" where
  "lock_scopes ss d =
     d\<lparr>held_locks := held_locks d @ map lock_key (sort_key scope_order (remdups ss))\<rparr>"

definition try_lock_scope :: "world \<Rightarrow> scope \<Rightarrow> db \<Rightarrow> bool \<times> db" where
  "try_lock_scope w s d =
     (if lock_key s \<in> set (foreign_locks w) then (False, d)
      else (True, d\<lparr>held_locks := held_locks d @ [lock_key s]\<rparr>))"

definition schedule_dispatch :: "scope list \<Rightarrow> db \<Rightarrow> db" where
  "schedule_dispatch ss d =
     d\<lparr>postcommit := postcommit d @ filter (\<lambda>s. s \<notin> set (postcommit d)) (remdups ss)\<rparr>"

section \<open>Facts on scopes\<close>

lemma given_simps [simp]: "\<not> given None" "given (Some i) \<longleftrightarrow> i \<noteq> 0"
  by (simp_all add: given_def)

text \<open>Ids are positive.\<close>

definition ids_positive :: "db \<Rightarrow> bool" where
  "ids_positive d \<longleftrightarrow> (\<forall>j \<in> set (jobs d). instance_id j \<noteq> Some 0)"

lemma in_scope_scope_of:
  assumes "instance_id j \<noteq> Some 0" and "in_scope s j"
  shows "in_scope s = in_scope (scope_of j)"
  using assms
  by (cases s) (auto simp: in_scope_def scope_of_def scope_of_step_def fun_eq_iff split: if_splits)

lemma in_own_scope [simp]: "instance_id j \<noteq> Some 0 \<Longrightarrow> in_scope (scope_of j) j"
  by (cases "instance_id j") (auto simp: in_scope_def scope_of_def scope_of_step_def)

lemma lock_key_scope_of:
  assumes "instance_id j \<noteq> Some 0" and "in_scope s j"
  shows "lock_key s = lock_key (scope_of j)"
  using assms by (auto simp: lock_key_def in_scope_def scope_of_def scope_of_step_def split: if_splits)

lemma lock_key_separates:
  assumes "lock_key (scope_of_step i h) = lock_key (scope_of_step i' h')"
    and "given i \<or> given h" and "given i' \<or> given h'"
  shows "scope_of_step i h = scope_of_step i' h'"
  using assms by (auto simp: lock_key_def scope_of_step_def JOB_LOCK_NAMESPACE_def
      HOST_JOB_LOCK_NAMESPACE_def given_def split: if_splits option.splits)

section \<open>A small panel\<close>

text \<open>Records to start examples from, the core's own world with nothing else
  installed and nobody else connected, and a shop: instance 7 on host 1 has a
  deploy waiting (job 1), a chain that downloads a backup of it and restores it
  on the staging instance 8 (jobs 2 and 3), and a follow-up at the head of its
  queue (job 4).\<close>

definition blank_job :: cloud_job where
  "blank_job = \<lparr>jid = 1, job_type_id = ''restart_instance'', state = None, queue_head = False,
     queue_chain_key = None, succeeded_before_cancel = False, worker_lost_at = None,
     payload = None, secret_payload = None, queue_job_uuid = None, instance_id = None,
     host_id = 1, blocked_alert_id = None, retry_of_id = None, asked_as_superuser = False,
     create_uid = 2, create_date = 0\<rparr>"

definition blank_type :: "string \<Rightarrow> job_type" where
  "blank_type c = \<lparr>code = c, apply_to_instance = True, priority_tier = ''normal'',
     queue_collapse = False, queue_exclusive = False, failure_holds_queue = False\<rparr>"

definition blank_queue_job :: queue_job where
  "blank_queue_job = \<lparr>q_uuid = 0, q_state = Pending, q_result = None, q_exc_name = '''', q_connection_lost = False,
     q_graph_uuid = None, q_reverse_depends_on = [], q_user = 1, q_su = True, q_channel = ''root'',
     q_priority = 10, q_max_retries = 5\<rparr>"

definition live_instance :: instance_rec where
  "live_instance = \<lparr>i_active = True, i_host_id = Some 1, i_environment = Production,
     i_state = Deployed, i_deployed = True, i_running = True, i_status_ok = True,
     i_removal_finalized = False, i_archived_at = None, i_move_origin_host_id = None, i_move_target_host_id = None,
     i_move_rollback_in_progress = False, i_move_chain_job_ids = [],
     i_move_frozen_source_host_id = None, i_pip_conflicts = False,
     i_last_touched_at = None, i_last_login_seen_at = None, i_autopurge_exempt = False,
     i_autopurge_warned_at = None, i_autopurge_final_warned_at = None\<rparr>"

definition empty_db :: db where
  "empty_db = \<lparr>jobs = [], qjobs = [], alerts = [], instances = (\<lambda>_. None), types = (\<lambda>_. None),
     next_job_id = 1, next_uuid = 1, next_alert_id = 1,
     host_available = (\<lambda>_. True), clock = 0, log_chunks = [], audit_log = [], bus = [],
     held_locks = [], dismissals = [], postcommit = []\<rparr>"

definition shop_db :: db where
  "shop_db = empty_db\<lparr>
     jobs := [blank_job\<lparr>jid := 1, job_type_id := ''deploy_instance'', state := Some Queued,
                instance_id := Some 7, create_date := 3\<rparr>,
              blank_job\<lparr>jid := 2, job_type_id := ''backup_create'', state := Some Queued,
                instance_id := Some 7, queue_chain_key := Some 9, create_date := 5\<rparr>,
              blank_job\<lparr>jid := 3, job_type_id := ''restore_instance'', state := Some Queued,
                instance_id := Some 8, queue_chain_key := Some 9, create_date := 5\<rparr>,
              blank_job\<lparr>jid := 4, job_type_id := ''restart_instance'', state := Some Queued,
                instance_id := Some 7, queue_head := True, create_date := 6\<rparr>],
     instances := (\<lambda>i. if i = 7 \<or> i = 8 then Some live_instance else None),
     types := (\<lambda>c. Some (blank_type c)),
     next_job_id := 5, next_uuid := 10, clock := 10\<rparr>"

definition core_world :: "db \<Rightarrow> world" where
  "core_world d = \<lparr>executors = (\<lambda>_. Some abstract_executor),
     hidden_job_types = core_hidden_job_types,
     queue_clearing_job_types = core_queue_clearing_job_types,
     actionable_alert_codes = core_actionable_alert_codes,
     severe_job_types = core_severe_job_types,
     min_groups = job_type_min_group, foreign_locks = [], fresh = d,
     hooks = (\<lambda>_ d. Some d)\<rparr>"

end
