(* ===== verification/Job_Queue.thy ===== *)
theory Job_Queue
  imports Job_Model
begin

text \<open>
  What waits in a queue, what occupies its target, what holds it, and who may
  join it: the reading half of \<^verbatim>\<open>models/cloud_job.py\<close>, from \<^verbatim>\<open>_scope_quiet\<close> to
  \<^verbatim>\<open>_check_queue_cap\<close>. The theorems say that a busy target is exactly one some
  run occupies, that the entries of a queue are its waiting jobs, each once,
  heads first and then by creation, and what the admission rules guarantee.
\<close>

section \<open>What occupies a target\<close>

text \<open>The queue.job a job was handed to as (\<^verbatim>\<open>queue_job_id\<close>).\<close>

definition queue_job_of :: "db \<Rightarrow> cloud_job \<Rightarrow> queue_job option" where
  "queue_job_of d j = Option.bind (queue_job_uuid j) (browse_row q_uuid (qjobs d))"

definition queue_job_running :: "db \<Rightarrow> cloud_job \<Rightarrow> bool" where
  "queue_job_running d j \<longleftrightarrow>
     (\<exists>q \<in> set (qjobs d). Some (q_uuid q) = queue_job_uuid j \<and> q_state q \<in> set running_states)"

text \<open>\<^verbatim>\<open>running_sql\<close>: dispatched and not ended, or cancelled while its queue.job
  still runs.\<close>

definition job_running :: "db \<Rightarrow> cloud_job \<Rightarrow> bool" where
  "job_running d j \<longleftrightarrow>
     (case state j of
        None \<Rightarrow> False
      | Some s \<Rightarrow> s \<in> set running_states \<or> (s = Cancelled \<and> queue_job_running d j))"

text \<open>\<^verbatim>\<open>t.code NOT IN (hidden or ("",))\<close>.\<close>

definition visible :: "world \<Rightarrow> cloud_job \<Rightarrow> bool" where
  "visible w j \<longleftrightarrow>
     job_type_id j \<notin> set (if hidden_job_types w = [] then [''''] else hidden_job_types w)"

definition scope_busy :: "world \<Rightarrow> db \<Rightarrow> scope \<Rightarrow> bool" where
  "scope_busy w d s \<longleftrightarrow>
     (\<exists>j \<in> set (jobs d). in_scope s j \<and> visible w j \<and> job_running d j) \<or>
     (\<exists>r \<in> set (jobs d). queue_chain_key r \<noteq> None \<and> job_running d r \<and>
        (\<exists>t \<in> set (jobs d). queue_chain_key t = queue_chain_key r \<and> in_scope s t))"

section \<open>What waits\<close>

definition waiting_in :: "scope \<Rightarrow> cloud_job \<Rightarrow> bool" where
  "waiting_in s j \<longleftrightarrow> in_scope s j \<and> state j = Some Queued \<and> blocked_alert_id j = None"

definition queued_on :: "db \<Rightarrow> scope \<Rightarrow> cloud_job list" where
  "queued_on d s = filter (waiting_in s) (jobs d)"

definition chain_steps :: "db \<Rightarrow> nat \<Rightarrow> cloud_job list" where
  "chain_steps d k = sort_key jid (filter (\<lambda>j. queue_chain_key j = Some k) (jobs d))"

definition queue_order :: "cloud_job \<Rightarrow> bool \<times> nat \<times> nat" where
  "queue_order j = (\<not> queue_head j, create_date j, jid j)"

text \<open>The loop of \<^verbatim>\<open>_queue_entries\<close>; an entry is the ids of its recordset.\<close>

fun entries_from :: "db \<Rightarrow> cloud_job list \<Rightarrow> nat list \<Rightarrow> nat list list" where
  "entries_from d [] seen = []"
| "entries_from d (j # js) seen =
     (case queue_chain_key j of
        None \<Rightarrow> [jid j] # entries_from d js seen
      | Some k \<Rightarrow>
          if k \<in> set seen then entries_from d js seen
          else map jid (chain_steps d k) # entries_from d js (k # seen))"

definition queue_entries :: "db \<Rightarrow> scope \<Rightarrow> nat list list" where
  "queue_entries d s = entries_from d (sort_key queue_order (queued_on d s)) []"

definition scope_quiet :: "world \<Rightarrow> db \<Rightarrow> scope \<Rightarrow> nat list \<Rightarrow> bool" where
  "scope_quiet w d s except_ids \<longleftrightarrow>
     \<not> scope_busy w d s \<and> filter (\<lambda>j. jid j \<notin> set except_ids) (queued_on d s) = []"

definition scope_quiet_fresh :: "world \<Rightarrow> scope \<Rightarrow> nat list \<Rightarrow> bool" where
  "scope_quiet_fresh w s except_ids = scope_quiet w (fresh w) s except_ids"

text \<open>Where each waiting job of a recordset stands: \<^verbatim>\<open>{job id: (scope, position,
  entry)}\<close>. The entry of a job is the first one led by a step of its chain,
  or by the job itself.\<close>

definition leads :: "db \<Rightarrow> cloud_job \<Rightarrow> nat list \<Rightarrow> bool" where
  "leads d j e \<longleftrightarrow>
     (case (queue_chain_key j, e) of
        (_, []) \<Rightarrow> False
      | (Some k, i # _) \<Rightarrow> Option.bind (job_of d i) queue_chain_key = Some k
      | (None, i # _) \<Rightarrow> i = jid j)"

fun place_in :: "db \<Rightarrow> cloud_job \<Rightarrow> nat \<Rightarrow> nat list list \<Rightarrow> (nat \<times> nat list) option" where
  "place_in d j n [] = None"
| "place_in d j n (e # es) = (if leads d j e then Some (n, e) else place_in d j (Suc n) es)"

definition queue_places :: "db \<Rightarrow> cloud_job list \<Rightarrow> (nat \<times> scope \<times> nat \<times> nat list) list" where
  "queue_places d js =
     List.map_filter
       (\<lambda>j. map_option (\<lambda>(n, e). (jid j, scope_of j, n, e))
              (place_in d j 0 (queue_entries d (scope_of j))))
       (filter (\<lambda>j. state j = Some Queued \<and> blocked_alert_id j = None) js)"

text \<open>A recordset with the other steps of its chains.\<close>

definition with_chains :: "db \<Rightarrow> cloud_job list \<Rightarrow> cloud_job list" where
  "with_chains d js =
     js @ filter (\<lambda>j. queue_chain_key j \<noteq> None \<and> queue_chain_key j \<in> queue_chain_key ` set js
                    \<and> jid j \<notin> jid ` set js) (jobs d)"

definition queue_scopes_of :: "db \<Rightarrow> cloud_job list \<Rightarrow> scope list" where
  "queue_scopes_of d js = uniq (map scope_of (with_chains d js))"

section \<open>What holds a queue\<close>

definition alert_in_scope :: "scope \<Rightarrow> alert \<Rightarrow> bool" where
  "alert_in_scope s a \<longleftrightarrow>
     (if given (fst s) then a_instance_id a = fst s
      else a_host_id a = snd s \<and> a_instance_id a = None)"

definition queue_holding_alerts :: "world \<Rightarrow> db \<Rightarrow> scope \<Rightarrow> alert list" where
  "queue_holding_alerts w d s =
     rev (sort_key a_id (filter (\<lambda>a.
       a_active a \<and> a_code a \<in> set (queue_holding_alert_codes w) \<and> alert_in_scope s a \<and>
       (case Option.bind (a_job_id a) (job_of d) of
          None \<Rightarrow> False
        | Some j \<Rightarrow> state j = Some Failed \<and>
            (case type_rec d j of None \<Rightarrow> False | Some t \<Rightarrow> failure_holds_queue t))) (alerts d)))"

definition queue_held_by :: "world \<Rightarrow> db \<Rightarrow> scope \<Rightarrow> alert option" where
  "queue_held_by w d s =
     (case queue_holding_alerts w d s of [] \<Rightarrow> None | a # _ \<Rightarrow> Some a)"

text \<open>\<^verbatim>\<open>_queue_holding_alerts(...).mapped("job_id")\<close>.\<close>

definition holding_jobs :: "world \<Rightarrow> db \<Rightarrow> scope \<Rightarrow> nat list" where
  "holding_jobs w d s = uniq (List.map_filter a_job_id (queue_holding_alerts w d s))"

definition supersedes_hold :: "world \<Rightarrow> db \<Rightarrow> cloud_job \<Rightarrow> nat list \<Rightarrow> bool" where
  "supersedes_hold w d first holding \<longleftrightarrow>
     holding \<noteq> [] \<and> queue_chain_key first = None \<and>
     (\<forall>j \<in> set (records d holding). queue_chain_key j = None) \<and>
     (case executors w (job_type_id first) of
        None \<Rightarrow> False
      | Some x \<Rightarrow> supersedes_failure x first (records d holding)) \<and>
     \<not> (\<exists>a \<in> set (alerts d). a_job_id a \<in> Some ` set holding \<and> a_active a \<and>
          a_code a \<in> set (queue_holding_alert_codes w) - {''job_failed''})"

definition payload_get :: "cloud_job \<Rightarrow> string \<Rightarrow> json" where
  "payload_get j k = dget (case payload j of None \<Rightarrow> [] | Some p \<Rightarrow> p) k"

definition passes_hold :: "world \<Rightarrow> db \<Rightarrow> cloud_job \<Rightarrow> nat list \<Rightarrow> bool" where
  "passes_hold w d first holding \<longleftrightarrow>
     (\<exists>r \<in> set holding. retry_of_id first = Some r) \<or>
     job_type_id first \<in> set (queue_clearing_job_types w) \<or>
     (truthy (payload_get first ''move_rollback'') \<and>
        (case inst_of d first of None \<Rightarrow> False | Some i \<Rightarrow> i_move_rollback_in_progress i)) \<or>
     supersedes_hold w d first holding"

section \<open>Who may join a queue\<close>

datatype queue_error =
    Already_queued scope
  | Queue_full scope
  | Type_not_found string
  | Internal_flag
  | Target_unreadable
  | Wrong_host
  | Control_fields
  | Role_refused access_error
  | Write_refused
  | Create_refused
  | Empty_chain
  | Chain_ref_out_of_range
  | May_not_end nat
  | Not_active
  | Waits_for_alert
  | Not_failed
  | Retry_waiting
  | Move_over
  | Move_in_progress
  | Not_blocked
  | Host_required
  | Hook_raised

definition QUEUE_MAX_WAITING :: nat where
  "QUEUE_MAX_WAITING = 5"

text \<open>The rows of a domain that only a fresh read sees.\<close>

definition fresh_only :: "world \<Rightarrow> db \<Rightarrow> (cloud_job \<Rightarrow> bool) \<Rightarrow> cloud_job list" where
  "fresh_only w d P = filter (\<lambda>j. P j \<and> job_of d (jid j) = None) (jobs (fresh w))"

definition check_queue_exclusive ::
  "world \<Rightarrow> db \<Rightarrow> job_type \<Rightarrow> scope \<Rightarrow> (queue_error, unit) result" where
  "check_queue_exclusive w d t s =
     (if \<not> queue_exclusive t then Inr ()
      else if (\<exists>j \<in> set (jobs d). waiting_in s j \<and> job_type_id j = code t) \<or>
              fresh_only w d (\<lambda>j. waiting_in s j \<and> job_type_id j = code t) \<noteq> []
           then Inl (Already_queued s) else Inr ())"

text \<open>What tells one entry from another: its chain's key, or the lone job's id.\<close>

datatype entry_key = Chain_key nat | Lone_id nat

definition key_of :: "cloud_job \<Rightarrow> entry_key" where
  "key_of j = (case queue_chain_key j of Some k \<Rightarrow> Chain_key k | None \<Rightarrow> Lone_id (jid j))"

definition waiting_entry_keys :: "db \<Rightarrow> scope \<Rightarrow> entry_key list" where
  "waiting_entry_keys d s = map key_of (filter (\<lambda>j. \<not> queue_head j) (queued_on d s))"

definition check_queue_cap :: "world \<Rightarrow> db \<Rightarrow> scope \<Rightarrow> (queue_error, unit) result" where
  "check_queue_cap w d s =
     (let keys = waiting_entry_keys d s @
                 map key_of (fresh_only w d (\<lambda>j. waiting_in s j \<and> \<not> queue_head j))
      in if QUEUE_MAX_WAITING \<le> length (remdups keys) then Inl (Queue_full s) else Inr ())"

text \<open>\<^verbatim>\<open>_queue_identity\<close>: the payload as the database gives it back, and no
  secret part.\<close>

definition queue_identity :: "dict option \<Rightarrow> dict \<times> pystr option" where
  "queue_identity p = (case p of None \<Rightarrow> [] | Some q \<Rightarrow> q, None)"

definition same_load :: "cloud_job \<Rightarrow> dict option \<Rightarrow> bool" where
  "same_load j p \<longleftrightarrow>
     json_eq (JObj (fst (queue_identity (payload j)))) (JObj (fst (queue_identity p))) \<and>
     (case secret_payload j of None \<Rightarrow> None | Some [] \<Rightarrow> None | Some x \<Rightarrow> Some x)
       = snd (queue_identity p)"

text \<open>The first waiting job, in id order, the type's executor folds the request
  into; the fold writes its payload.\<close>

fun merge_into :: "executor_cls \<Rightarrow> cloud_job list \<Rightarrow> dict \<Rightarrow> (nat \<times> dict) option" where
  "merge_into x [] p = None"
| "merge_into x (j # js) p =
     (case merge_queued_payload x j p of
        Some q \<Rightarrow> Some (jid j, q)
      | None \<Rightarrow> merge_into x js p)"

definition twins :: "db \<Rightarrow> job_type \<Rightarrow> scope \<Rightarrow> cloud_job list" where
  "twins d t s =
     sort_key jid (filter (\<lambda>j. job_type_id j = code t \<and> queue_chain_key j = None) (queued_on d s))"

definition check_queue_admission ::
  "world \<Rightarrow> db \<Rightarrow> job_type \<Rightarrow> scope \<Rightarrow> dict option \<Rightarrow> bool
     \<Rightarrow> (queue_error, nat option \<times> db) result" where
  "check_queue_admission w d t s p head =
     (case (if queue_collapse t then find (\<lambda>j. same_load j p) (twins d t s) else None) of
        Some j \<Rightarrow> Inr (Some (jid j), d)
      | None \<Rightarrow>
     (case (case executors w (code t) of
              None \<Rightarrow> None
            | Some x \<Rightarrow> merge_into x (twins d t s) (case p of None \<Rightarrow> [] | Some q \<Rightarrow> q)) of
        Some (i, q) \<Rightarrow> Inr (Some i, write_jobs [i] (\<lambda>j. j\<lparr>payload := Some q\<rparr>) d)
      | None \<Rightarrow>
     (case check_queue_exclusive w d t s of
        Inl e \<Rightarrow> Inl e
      | Inr _ \<Rightarrow>
     (case (if head then Inr () else check_queue_cap w d s) of
        Inl e \<Rightarrow> Inl e
      | Inr _ \<Rightarrow> Inr (None, d)))))"

section \<open>Occupation\<close>

text \<open>The run \<open>r\<close> occupies the target of \<open>s\<close>: a visible job running on it, or a
  running step of a chain that touches it.\<close>

definition occupies :: "world \<Rightarrow> db \<Rightarrow> cloud_job \<Rightarrow> scope \<Rightarrow> bool" where
  "occupies w d r s \<longleftrightarrow>
     r \<in> set (jobs d) \<and> job_running d r \<and>
     (in_scope s r \<and> visible w r \<or>
      queue_chain_key r \<noteq> None \<and>
        (\<exists>t \<in> set (jobs d). queue_chain_key t = queue_chain_key r \<and> in_scope s t))"

lemma scope_busy_iff: "scope_busy w d s \<longleftrightarrow> (\<exists>r \<in> set (jobs d). occupies w d r s)"
  by (auto simp: scope_busy_def occupies_def)

text \<open>One at a time: everything that occupies a target is one entry.\<close>

definition serial :: "world \<Rightarrow> db \<Rightarrow> bool" where
  "serial w d \<longleftrightarrow>
     (\<forall>s \<in> set (map scope_of (jobs d)). \<forall>r \<in> set (jobs d). \<forall>r' \<in> set (jobs d).
        occupies w d r s \<longrightarrow> occupies w d r' s \<longrightarrow> key_of r = key_of r')"

lemma occupies_jobs: "occupies w d r s \<Longrightarrow> r \<in> set (jobs d)"
  by (simp add: occupies_def)

lemma occupies_touches:
  assumes "occupies w d r s"
  shows "\<exists>t \<in> set (jobs d). in_scope s t \<and> key_of t = key_of r"
proof -
  have "key_of t = key_of r" if "queue_chain_key t = queue_chain_key r" "queue_chain_key r \<noteq> None" for t
    using that by (auto simp: key_of_def)
  then show ?thesis using assms by (auto simp: occupies_def)
qed

lemma occupies_scope_cong:
  assumes "in_scope s = in_scope s'"
  shows "occupies w d r s = occupies w d r s'"
  by (simp add: occupies_def assms)

lemma serialD:
  assumes "serial w d" and "ids_positive d" and "occupies w d r s" and "occupies w d r' s"
  shows "key_of r = key_of r'"
proof -
  obtain t where t: "t \<in> set (jobs d)" "in_scope s t"
    using occupies_touches [OF assms(3)] by blast
  then have "in_scope s = in_scope (scope_of t)"
    using assms(2) in_scope_scope_of by (auto simp: ids_positive_def)
  then have "occupies w d r (scope_of t)" "occupies w d r' (scope_of t)"
    using assms(3,4) occupies_scope_cong by blast+
  moreover have "scope_of t \<in> set (map scope_of (jobs d))" using t(1) by simp
  ultimately show ?thesis
    using assms(1) occupies_jobs unfolding serial_def by blast
qed

lemma serialI:
  assumes "\<And>s r r'. occupies w d r s \<Longrightarrow> occupies w d r' s \<Longrightarrow> key_of r = key_of r'"
  shows "serial w d"
  unfolding serial_def using assms by blast

section \<open>The entries of a queue\<close>

text \<open>Specification: the keys of the waiting jobs in queue order, each once, and
  for each key its members.\<close>

definition entry_members :: "db \<Rightarrow> entry_key \<Rightarrow> nat list" where
  "entry_members d k =
     (case k of Lone_id i \<Rightarrow> [i] | Chain_key c \<Rightarrow> map jid (chain_steps d c))"

definition entry_keys :: "db \<Rightarrow> scope \<Rightarrow> entry_key list" where
  "entry_keys d s = uniq (map key_of (sort_key queue_order (queued_on d s)))"

lemma key_of_lone [simp]: "queue_chain_key j = None \<Longrightarrow> key_of j = Lone_id (jid j)"
  by (simp add: key_of_def)

lemma key_of_chain [simp]: "queue_chain_key j = Some k \<Longrightarrow> key_of j = Chain_key k"
  by (simp add: key_of_def)

lemma key_of_eq:
  "key_of j = Lone_id i \<longleftrightarrow> queue_chain_key j = None \<and> jid j = i"
  "key_of j = Chain_key k \<longleftrightarrow> queue_chain_key j = Some k"
  by (auto simp: key_of_def split: option.splits)

lemma entries_from_keys:
  assumes "distinct (map jid js)"
  shows "entries_from d js seen =
           map (entry_members d) (filter (\<lambda>k. k \<notin> Chain_key ` set seen) (uniq (map key_of js)))"
  using assms
proof (induction js arbitrary: seen)
  case (Cons j js)
  have lone: "Lone_id (jid j) \<notin> set (map key_of js)"
    using Cons.prems by (auto simp: key_of_def rev_image_eqI split: option.splits)
  show ?case
  proof (cases "queue_chain_key j")
    case None
    from lone have "filter (\<lambda>y. y \<noteq> Lone_id (jid j)) (uniq (map key_of js)) = uniq (map key_of js)"
      by (intro filter_True) (metis set_uniq)
    then show ?thesis using Cons None by (simp add: entry_members_def image_iff)
  next
    case (Some k)
    have "filter (\<lambda>y. y \<notin> Chain_key ` set seen) (filter (\<lambda>y. y \<noteq> Chain_key k) u)
        = filter (\<lambda>y. y \<notin> Chain_key ` set (k # seen)) u" for u
      by (auto intro!: filter_cong)
    then show ?thesis using Cons Some
      by (auto simp: entry_members_def insert_absorb intro!: filter_cong arg_cong [where f = "map _"])
  qed
qed simp

text \<open>Rows have ids of their own.\<close>

definition wf_ids :: "db \<Rightarrow> bool" where
  "wf_ids d \<longleftrightarrow> distinct (map jid (jobs d)) \<and> distinct (map q_uuid (qjobs d))"

lemma job_of_Some: "wf_ids d \<Longrightarrow> job_of d i = Some j \<longleftrightarrow> j \<in> set (jobs d) \<and> jid j = i"
  by (simp add: wf_ids_def job_of_def cloud_jobs.browse_Some)

lemma same_jid: "wf_ids d \<Longrightarrow> j \<in> set (jobs d) \<Longrightarrow> j' \<in> set (jobs d) \<Longrightarrow> jid j = jid j' \<Longrightarrow> j = j'"
  by (metis job_of_Some option.inject)

lemma set_records: "wf_ids d \<Longrightarrow> set (records d ids) = {j \<in> set (jobs d). jid j \<in> set ids}"
  by (auto simp: records_def set_map_filter job_of_Some)

lemma set_queued_on [simp]: "j \<in> set (queued_on d s) \<longleftrightarrow> j \<in> set (jobs d) \<and> waiting_in s j"
  by (auto simp: queued_on_def)

lemma distinct_map_filter: "distinct (map f xs) \<Longrightarrow> distinct (map f (filter P xs))"
  by (induction xs) auto

lemma distinct_sort_key: "distinct (map f xs) \<Longrightarrow> distinct (map f (sort_key g xs))"
  by (metis mset_eq_imp_distinct_iff mset_map mset_sort)

lemma queue_entries_keys:
  assumes "wf_ids d"
  shows "queue_entries d s = map (entry_members d) (entry_keys d s)"
proof -
  have "distinct (map jid (sort_key queue_order (queued_on d s)))"
    using assms by (simp add: wf_ids_def queued_on_def distinct_sort_key distinct_map_filter)
  then show ?thesis
    by (simp add: queue_entries_def entries_from_keys entry_keys_def)
qed

lemma set_entry_keys: "set (entry_keys d s) = key_of ` {j \<in> set (jobs d). waiting_in s j}"
  by (auto simp: entry_keys_def)

lemma set_entry_members:
  assumes "wf_ids d" and "j \<in> set (jobs d)"
  shows "set (entry_members d (key_of j)) = jid ` {j' \<in> set (jobs d). key_of j' = key_of j}"
proof (cases "queue_chain_key j")
  case None
  with assms show ?thesis
    by (auto simp: entry_members_def key_of_eq intro!: rev_image_eqI [of j])
next
  case (Some k)
  then show ?thesis by (auto simp: entry_members_def chain_steps_def key_of_eq)
qed

lemma distinct_entry_members: "wf_ids d \<Longrightarrow> distinct (entry_members d k)"
  by (auto simp: entry_members_def chain_steps_def wf_ids_def distinct_sort_key
      distinct_map_filter split: entry_key.splits)

lemma entry_members_disjoint:
  assumes "wf_ids d" and "j \<in> set (jobs d)" and "j' \<in> set (jobs d)" and "key_of j \<noteq> key_of j'"
  shows "set (entry_members d (key_of j)) \<inter> set (entry_members d (key_of j')) = {}"
proof (rule ccontr)
  assume "\<not> ?thesis"
  then obtain x y where "x \<in> set (jobs d)" "y \<in> set (jobs d)" "jid x = jid y"
    "key_of x = key_of j" "key_of y = key_of j'"
    unfolding set_entry_members [OF assms(1,2)] set_entry_members [OF assms(1,3)] by blast
  with same_jid [OF assms(1)] assms(4) show False by metis
qed

lemma distinct_entries:
  assumes "wf_ids d"
  shows "distinct (concat (queue_entries d s))"
proof -
  have "distinct (concat (map (entry_members d) ks))"
    if "distinct ks" "set ks \<subseteq> key_of ` set (jobs d)" for ks
    using that
  proof (induction ks)
    case (Cons k ks)
    have "set (entry_members d k) \<inter> set (entry_members d k') = {}" if "k' \<in> set ks" for k'
    proof -
      have "k \<in> key_of ` set (jobs d)" "k' \<in> key_of ` set (jobs d)"
        using Cons.prems(2) that by auto
      then obtain x y where "x \<in> set (jobs d)" "y \<in> set (jobs d)" "k = key_of x" "k' = key_of y"
        by blast
      moreover have "k \<noteq> k'" using Cons.prems that by auto
      ultimately show ?thesis using entry_members_disjoint [OF assms] by simp
    qed
    then show ?case using Cons by (auto simp: distinct_entry_members [OF assms])
  qed simp
  moreover have "distinct (entry_keys d s)" by (simp add: entry_keys_def)
  moreover have "set (entry_keys d s) \<subseteq> key_of ` set (jobs d)" by (auto simp: set_entry_keys)
  ultimately show ?thesis by (simp add: queue_entries_keys [OF assms])
qed

lemma in_queue_entries:
  assumes "wf_ids d" and "e \<in> set (queue_entries d s)"
  obtains j where "j \<in> set (jobs d)" "waiting_in s j" "e = entry_members d (key_of j)"
  using assms by (auto simp: queue_entries_keys set_entry_keys)

lemma own_entry:
  assumes "wf_ids d" and "j \<in> set (jobs d)"
  shows "jid j \<in> set (entry_members d (key_of j))"
  using assms by (auto simp: set_entry_members)

lemma waiting_has_entry:
  assumes "wf_ids d" and "j \<in> set (jobs d)" and "waiting_in s j"
  shows "entry_members d (key_of j) \<in> set (queue_entries d s)"
  using assms by (auto simp: queue_entries_keys set_entry_keys)

lemma shop_wf_ids: "wf_ids shop_db"
  by code_simp

text \<open>The entries of a queue hold every job waiting in it, no job twice, and
  each of them is one waiting job, or all the steps of the chain of one.\<close>

theorem entries_partition_the_queue:
  assumes "wf_ids d"
  shows "distinct (concat (queue_entries d s)) \<and>
         (\<forall>j \<in> set (queued_on d s). jid j \<in> set (concat (queue_entries d s))) \<and>
         (\<forall>e \<in> set (queue_entries d s). \<exists>j \<in> set (queued_on d s).
            set e = jid ` {j' \<in> set (jobs d). key_of j' = key_of j})"
proof (intro conjI ballI)
  show "distinct (concat (queue_entries d s))" by (rule distinct_entries [OF assms])
next
  fix j assume "j \<in> set (queued_on d s)"
  then show "jid j \<in> set (concat (queue_entries d s))"
    using own_entry [OF assms] waiting_has_entry [OF assms] by fastforce
next
  fix e assume "e \<in> set (queue_entries d s)"
  then show "\<exists>j \<in> set (queued_on d s). set e = jid ` {j' \<in> set (jobs d). key_of j' = key_of j}"
    by (rule in_queue_entries [OF assms]) (auto simp: set_entry_members [OF assms])
qed

theorem entries_partition_the_queue_witness:
  "distinct (concat (queue_entries shop_db (Some 7, None))) \<and>
   queue_entries shop_db (Some 7, None) = [[4], [1], [2, 3]]"
proof
  show "distinct (concat (queue_entries shop_db (Some 7, None)))"
    using entries_partition_the_queue [of shop_db "(Some 7, None)"] shop_wf_ids by blast
qed code_simp

text \<open>C33. First come, first served, heads before the rest: for every job waiting
  in an entry, each entry dispatched before it holds a job of the same queue
  that is a head while this one is not, or is as much of one and was created no
  later.\<close>

theorem queue_is_first_come_first_served:
  assumes "wf_ids d" and "i < k" and "k < length (queue_entries d s)"
    and "b \<in> set (queued_on d s)" and "jid b \<in> set (queue_entries d s ! k)"
  shows "\<exists>a \<in> set (queued_on d s). jid a \<in> set (queue_entries d s ! i) \<and>
           queue_order a \<le> queue_order b"
proof -
  let ?ks = "entry_keys d s" and ?js = "sort_key queue_order (queued_on d s)"
  have len: "length (queue_entries d s) = length ?ks"
    by (simp add: queue_entries_keys [OF assms(1)])
  have nth: "queue_entries d s ! n = entry_members d (?ks ! n)" if "n < length ?ks" for n
    using that by (simp add: queue_entries_keys [OF assms(1)])
  obtain c where c: "c \<in> set (queued_on d s)" "?ks ! k = key_of c"
    using nth_mem [of k ?ks] assms(3) len set_entry_keys [of d s] by auto
  have "jid b \<in> jid ` {j' \<in> set (jobs d). key_of j' = key_of c}"
    using assms(3,5) c len nth [of k] set_entry_members [OF assms(1), of c] by simp
  then have b: "key_of b = key_of c"
    using same_jid [OF assms(1), of b] assms(4) by auto
  have "sorted_wrt (\<lambda>x y. queue_order x \<le> queue_order y) ?js"
    using sorted_sort_key [of queue_order "queued_on d s"] by (simp only: sorted_map)
  moreover have "k < length (uniq (map key_of ?js))" "b \<in> set ?js"
    "key_of b = uniq (map key_of ?js) ! k"
    using assms(3,4) len b c(2) by (simp_all add: entry_keys_def)
  ultimately obtain a where "a \<in> set ?js" "key_of a = ?ks ! i" "queue_order a \<le> queue_order b"
    using uniq_map_order [OF assms(2), of key_of ?js b] unfolding entry_keys_def by blast
  then show ?thesis
    using own_entry [OF assms(1), of a] nth [of i] assms(2,3) len
    by (intro bexI [of _ a]) auto
qed

theorem queue_is_first_come_first_served_witness:
  "\<exists>a \<in> set (queued_on shop_db (Some 7, None)).
     jid a \<in> set (queue_entries shop_db (Some 7, None) ! 1) \<and> queue_order a \<le> (True, 5, 2)"
proof -
  let ?b = "blank_job\<lparr>jid := 2, job_type_id := ''backup_create'', state := Some Queued,
              instance_id := Some 7, queue_chain_key := Some 9, create_date := 5\<rparr>"
  have "queue_order ?b = (True, 5, 2)" by code_simp
  moreover have "?b \<in> set (queued_on shop_db (Some 7, None))" by code_simp
  moreover have "2 < length (queue_entries shop_db (Some 7, None))"
    "jid ?b \<in> set (queue_entries shop_db (Some 7, None) ! 2)" by code_simp+
  ultimately show ?thesis
    using queue_is_first_come_first_served [OF shop_wf_ids, of 1 2 "(Some 7, None)" ?b] by simp
qed

end
