(* ===== verification/Job_Dispatch.thy ===== *)
theory Job_Dispatch
  imports Job_Queue
begin

text \<open>
  The dispatcher: the one place a waiting job is started
  (\<^verbatim>\<open>models/cloud_job.py\<close>, \<^verbatim>\<open>_dispatch_next\<close> to \<^verbatim>\<open>_run_after_terminal\<close>, with
  \<^verbatim>\<open>_resolve_channel_priority\<close>, \<^verbatim>\<open>_retry_root\<close> and \<^verbatim>\<open>_is_a_move_step\<close>).
  The theorems say that it never starts a job beside another on one target,
  that what it starts is the first entry that may go, whole, and that it
  changes jobs of a queue only under the queue's lock.
\<close>

section \<open>Routing\<close>

definition tier_to_routing :: "string \<Rightarrow> string \<times> nat" where
  "tier_to_routing tier =
     (if tier = ''high'' then (''root.user'', 5)
      else if tier = ''low'' then (''root.bg'', 10)
      else (''root.user'', 10))"

definition resolve_channel_priority :: "db \<Rightarrow> job_type \<Rightarrow> nat option \<Rightarrow> string \<times> nat" where
  "resolve_channel_priority d t inst =
     (let tier = (if priority_tier t = '''' then ''normal'' else priority_tier t) in
      tier_to_routing
        (if tier = ''normal'' \<and> given inst \<and>
            (case Option.bind inst (instances d) of
               None \<Rightarrow> False | Some i \<Rightarrow> i_environment i = Production)
         then ''high'' else tier))"

section \<open>What an executor says of a job\<close>

definition runs_on_archived :: "world \<Rightarrow> cloud_job \<Rightarrow> bool" where
  "runs_on_archived w j =
     (case executors w (job_type_id j) of None \<Rightarrow> False | Some x \<Rightarrow> runs_on_archived_instance x)"

definition pinned_to_host :: "world \<Rightarrow> cloud_job \<Rightarrow> bool" where
  "pinned_to_host w j =
     (case executors w (job_type_id j) of None \<Rightarrow> False | Some x \<Rightarrow> executor_pinned_to_host x)"

section \<open>Retries and moves\<close>

lemma job_of_in: "job_of d i = Some j \<Longrightarrow> j \<in> set (jobs d) \<and> jid j = i"
  unfolding job_of_def browse_row_def by (rule find_Some_set)

lemma retry_root_measure:
  assumes "Option.bind (retry_of_id j) (job_of d) = Some p" and "jid j \<notin> set seen"
  shows "2 * card (jid ` set (jobs d) - set (jid j # seen)) + (if jid p \<in> jid ` set (jobs d) then 0 else 1)
       < 2 * card (jid ` set (jobs d) - set seen) + (if jid j \<in> jid ` set (jobs d) then 0 else (1::nat))"
proof -
  let ?I = "jid ` set (jobs d)"
  have p: "jid p \<in> ?I" using assms(1) by (auto simp: bind_eq_Some_conv dest: job_of_in)
  have eq: "?I - set (jid j # seen) = ?I - set seen - {jid j}" by auto
  show ?thesis
  proof (cases "jid j \<in> ?I")
    case True
    then have "card (?I - set seen - {jid j}) < card (?I - set seen)"
      using assms(2) by (intro card_Diff1_less) auto
    then show ?thesis using True p eq by (simp only: if_True)
  next
    case False
    then show ?thesis using p eq by simp
  qed
qed

text \<open>\<^verbatim>\<open>_retry_root\<close>: back along \<^verbatim>\<open>retry_of_id\<close>, a job seen twice stops it.\<close>

function retry_root_from :: "db \<Rightarrow> nat list \<Rightarrow> cloud_job \<Rightarrow> cloud_job" where
  "retry_root_from d seen j =
     (case Option.bind (retry_of_id j) (job_of d) of
        None \<Rightarrow> j
      | Some p \<Rightarrow> if jid j \<in> set seen then j else retry_root_from d (jid j # seen) p)"
  by pat_completeness auto

termination
proof (relation "measure (\<lambda>(d, seen, j).
    2 * card (jid ` set (jobs d) - set seen) + (if jid j \<in> jid ` set (jobs d) then 0 else 1))")
  fix d :: db and seen :: "nat list" and j p :: cloud_job
  assume "Option.bind (retry_of_id j) (job_of d) = Some p" "jid j \<notin> set seen"
  then show "((d, jid j # seen, p), (d, seen, j)) \<in> measure (\<lambda>(d, seen, j).
    2 * card (jid ` set (jobs d) - set seen) + (if jid j \<in> jid ` set (jobs d) then 0 else 1))"
    using retry_root_measure by (simp only: in_measure prod.case)
qed simp

declare retry_root_from.simps [simp del]

definition retry_root :: "db \<Rightarrow> cloud_job \<Rightarrow> cloud_job" where
  "retry_root d j = retry_root_from d [] j"

definition graph_of :: "db \<Rightarrow> cloud_job \<Rightarrow> nat option" where
  "graph_of d j = Option.bind (queue_job_of d j) q_graph_uuid"

definition is_a_move_step :: "db \<Rightarrow> cloud_job \<Rightarrow> bool" where
  "is_a_move_step d j \<longleftrightarrow>
     (case queue_chain_key j of
        Some k \<Rightarrow> (\<exists>c \<in> set (jobs d). queue_chain_key c = Some k \<and> job_type_id c = ''move_cutover'')
      | None \<Rightarrow>
          (case graph_of d j of
             None \<Rightarrow> False
           | Some g \<Rightarrow> (\<exists>c \<in> set (jobs d). graph_of d c = Some g \<and> job_type_id c = ''move_cutover'')))"

section \<open>Handing work to queue_job\<close>

text \<open>The queue.job \<^verbatim>\<open>with_delay\<close> or \<^verbatim>\<open>delayable\<close> makes of a job, in the
  environment its run has: its creator's, with superuser rights only when it
  was asked for with them (Odoo gives user 1 the superuser's in any case).\<close>

definition as_its_creator :: "cloud_job \<Rightarrow> nat \<times> bool" where
  "as_its_creator j = (create_uid j, asked_as_superuser j \<or> create_uid j = 1)"

definition type_of :: "db \<Rightarrow> cloud_job \<Rightarrow> job_type" where
  "type_of d j =
     (case type_rec d j of
        Some t \<Rightarrow> t
      | None \<Rightarrow> \<lparr>code = job_type_id j, apply_to_instance = False, priority_tier = '''',
                 queue_collapse = False, queue_exclusive = False, failure_holds_queue = False\<rparr>)"

definition new_queue_job :: "db \<Rightarrow> cloud_job \<Rightarrow> nat \<Rightarrow> queue_job" where
  "new_queue_job d j retries =
     (let (channel, prio) = resolve_channel_priority d (type_of d j) (instance_id j) in
      \<lparr>q_uuid = next_uuid d, q_state = Pending, q_result = None, q_exc_name = '''',
       q_connection_lost = False,
       q_graph_uuid = None, q_reverse_depends_on = [],
       q_user = fst (as_its_creator j), q_su = snd (as_its_creator j),
       q_channel = channel, q_priority = prio, q_max_retries = retries\<rparr>)"

definition broadcast :: "nat \<Rightarrow> bus_event \<Rightarrow> db \<Rightarrow> db" where
  "broadcast i e d = d\<lparr>bus := bus d @ [(i, e)]\<rparr>"

definition max_retries_of :: "world \<Rightarrow> cloud_job \<Rightarrow> nat" where
  "max_retries_of w j =
     (case executors w (job_type_id j) of
        None \<Rightarrow> 1
      | Some x \<Rightarrow> if retry_on_connection_loss x then connection_retry_attempts x else 1)"

definition hand_over :: "nat \<Rightarrow> queue_job \<Rightarrow> job_state \<Rightarrow> db \<Rightarrow> db" where
  "hand_over i q s d =
     write_jobs [i] (\<lambda>j. j\<lparr>queue_job_uuid := Some (q_uuid q), state := Some s\<rparr>)
       (d\<lparr>qjobs := qjobs d @ [q], next_uuid := Suc (next_uuid d)\<rparr>)"

definition dispatch_single :: "world \<Rightarrow> nat \<Rightarrow> db \<Rightarrow> db" where
  "dispatch_single w i d =
     (case job_of d i of
        None \<Rightarrow> d
      | Some j \<Rightarrow>
          broadcast i Job_created (hand_over i (new_queue_job d j (max_retries_of w j)) Pending d))"

text \<open>The references between the steps of a chain: \<^verbatim>\<open>^__chain_job_(\d+)__$\<close>
  (ASCII digits; \<^verbatim>\<open>$\<close> also matches before a final newline).\<close>

definition digit :: "nat \<Rightarrow> bool" where
  "digit c \<longleftrightarrow> 48 \<le> c \<and> c \<le> 57"

definition number_of_digits :: "nat list \<Rightarrow> nat" where
  "number_of_digits ds = foldl (\<lambda>n c. 10 * n + (c - 48)) 0 ds"

definition chain_ref :: "pystr \<Rightarrow> nat option" where
  "chain_ref v =
     (let p = lit ''__chain_job_''; r = drop (length p) v; ds = takeWhile digit r;
          rest = dropWhile digit r
      in if take (length p) v = p \<and> ds \<noteq> [] \<and> rest \<in> {lit ''__'', lit ''__'' @ [10]}
         then Some (number_of_digits ds) else None)"

fun resolve_refs :: "nat list \<Rightarrow> dict \<Rightarrow> (queue_error, dict) result" where
  "resolve_refs ids [] = Inr []"
| "resolve_refs ids ((k, v) # p) =
     (case (case v of JStr s \<Rightarrow> chain_ref s | _ \<Rightarrow> None) of
        None \<Rightarrow> map_sum id (\<lambda>q. (k, v) # q) (resolve_refs ids p)
      | Some n \<Rightarrow>
          if n < length ids
          then map_sum id (\<lambda>q. (k, JInt (int (ids ! n))) # q) (resolve_refs ids p)
          else Inl Chain_ref_out_of_range)"

fun resolve_chain_refs :: "nat list \<Rightarrow> nat list \<Rightarrow> db \<Rightarrow> (queue_error, db) result" where
  "resolve_chain_refs ids [] d = Inr d"
| "resolve_chain_refs ids (i # is) d =
     (case Option.bind (job_of d i) payload of
        None \<Rightarrow> resolve_chain_refs ids is d
      | Some p \<Rightarrow>
          (case resolve_refs ids p of
             Inl e \<Rightarrow> Inl e
           | Inr q \<Rightarrow> resolve_chain_refs ids is (write_jobs [i] (\<lambda>j. j\<lparr>payload := Some q\<rparr>) d)))"

text \<open>Each step's queue.job waits on the one before; the first is pending. A
  graph of one step has no uuid of its own.\<close>

fun hand_over_steps :: "nat option \<Rightarrow> job_state \<Rightarrow> nat list \<Rightarrow> db \<Rightarrow> db" where
  "hand_over_steps g s [] d = d"
| "hand_over_steps g s (i # is) d =
     (case job_of d i of
        None \<Rightarrow> hand_over_steps g s is d
      | Some j \<Rightarrow>
          hand_over_steps g Wait_dependencies is
            (broadcast i Job_created
              (hand_over i
                ((new_queue_job d j 1)\<lparr>q_state := s, q_graph_uuid := g,
                   q_reverse_depends_on := (if is = [] then [] else [Suc (next_uuid d)])\<rparr>) s d)))"

definition dispatch_chain :: "nat list \<Rightarrow> db \<Rightarrow> (queue_error, db) result" where
  "dispatch_chain ids d =
     map_sum id
       (\<lambda>d. hand_over_steps (if 1 < length ids then Some (next_uuid d) else None) Pending ids
              (if 1 < length ids then d\<lparr>next_uuid := Suc (next_uuid d)\<rparr> else d))
       (resolve_chain_refs ids ids d)"

text \<open>\<^verbatim>\<open>len(entry) == 1 and not entry.queue_chain_key\<close>.\<close>

definition lone_entry :: "db \<Rightarrow> nat list \<Rightarrow> bool" where
  "lone_entry d e \<longleftrightarrow>
     (case e of [i] \<Rightarrow> Option.bind (job_of d i) queue_chain_key = None | _ \<Rightarrow> False)"

definition dispatch_entry :: "world \<Rightarrow> nat list \<Rightarrow> db \<Rightarrow> (queue_error, db) result" where
  "dispatch_entry w e d =
     (if lone_entry d e then Inr (dispatch_single w (hd e) d) else dispatch_chain e d)"

section \<open>Cancelling what waits\<close>

definition add_log :: "nat \<Rightarrow> log_note \<Rightarrow> db \<Rightarrow> db" where
  "add_log i n d = d\<lparr>log_chunks := log_chunks d @ [(i, n)]\<rparr>"

definition run_cancelled_queued_hook :: "world \<Rightarrow> nat \<Rightarrow> db \<Rightarrow> db" where
  "run_cancelled_queued_hook w i d =
     (case Option.bind (job_of d i) (\<lambda>j. executors w (job_type_id j)) of
        None \<Rightarrow> d
      | Some _ \<Rightarrow>
          (case hooks w (On_cancelled_queued i) d of
             Some d' \<Rightarrow> d'
           | None \<Rightarrow> add_log i Hook_failed d))"

definition run_after_terminal :: "world \<Rightarrow> job_state \<Rightarrow> nat \<Rightarrow> db \<Rightarrow> db" where
  "run_after_terminal w s i d =
     (case hooks w (After_job_terminal i s) d of Some d' \<Rightarrow> d' | None \<Rightarrow> d)"

definition cancel_one :: "world \<Rightarrow> log_note \<Rightarrow> nat \<Rightarrow> db \<Rightarrow> db" where
  "cancel_one w n i d =
     broadcast i (Job_ended Cancelled)
       (run_after_terminal w Cancelled i (run_cancelled_queued_hook w i (add_log i n d)))"

definition cancel_queued ::
  "world \<Rightarrow> nat list \<Rightarrow> log_note \<Rightarrow> scope option \<Rightarrow> bool \<Rightarrow> db \<Rightarrow> nat list \<times> db" where
  "cancel_queued w ids n skip lock d =
     (let js = with_chains d (records d ids);
          scopes = uniq (map scope_of js);
          d1 = (if lock then lock_scopes scopes d else d);
          cs = map jid (filter (\<lambda>j. state j = Some Queued) js)
      in if cs = [] then ([], d1)
         else (cs, schedule_dispatch (filter (\<lambda>s. Some s \<noteq> skip) scopes)
                     (fold (cancel_one w n) cs
                       (write_jobs cs (\<lambda>j. j\<lparr>state := Some Cancelled\<rparr>) d1))))"

section \<open>The dispatcher\<close>

datatype verdict = V_start | V_wait | V_cancelled

text \<open>The locks of a chain's other queues are tried for one by one, up to the
  first that is taken.\<close>

fun try_locks :: "world \<Rightarrow> scope list \<Rightarrow> db \<Rightarrow> bool \<times> db" where
  "try_locks w [] d = (True, d)"
| "try_locks w (s # ss) d =
     (case try_lock_scope w s d of
        (False, d') \<Rightarrow> (False, d')
      | (True, d') \<Rightarrow> try_locks w ss d')"

definition entry_gone :: "world \<Rightarrow> db \<Rightarrow> cloud_job list \<Rightarrow> bool" where
  "entry_gone w d es \<longleftrightarrow>
     (\<exists>j \<in> set es.
        (apply_to_instance (type_of d j) \<and> instance_id j = None) \<or>
        (case inst_of d j of
           None \<Rightarrow> False
         | Some i \<Rightarrow> \<not> i_active i \<and> \<not> runs_on_archived w j))"

text \<open>Whether a chain is next, with nothing in its way, in one of its other
  queues.\<close>

definition ready_in :: "world \<Rightarrow> db \<Rightarrow> nat option \<Rightarrow> scope \<Rightarrow> bool" where
  "ready_in w d key s \<longleftrightarrow>
     \<not> scope_busy w d s \<and> queue_held_by w d s = None \<and>
     (case queue_entries d s of
        [] \<Rightarrow> False
      | [] # _ \<Rightarrow> False
      | (i # _) # _ \<Rightarrow> Option.bind (job_of d i) queue_chain_key = key)"

text \<open>A lone job goes where its instance is now, unless it is pinned to its
  host or retries a step of a move.\<close>

definition follow_instance :: "world \<Rightarrow> nat \<Rightarrow> db \<Rightarrow> db" where
  "follow_instance w i d =
     (case job_of d i of
        None \<Rightarrow> d
      | Some j \<Rightarrow>
          (case Option.bind (inst_of d j) i_host_id of
             None \<Rightarrow> d
           | Some h \<Rightarrow>
               if host_id j \<noteq> h \<and> \<not> pinned_to_host w j \<and> \<not> is_a_move_step d (retry_root d j)
               then write_jobs [i] (\<lambda>j. j\<lparr>host_id := h\<rparr>) d else d))"

definition entry_verdict :: "world \<Rightarrow> nat list \<Rightarrow> scope \<Rightarrow> db \<Rightarrow> verdict \<times> db" where
  "entry_verdict w e s d =
     (let others = filter (\<lambda>x. x \<noteq> s) (queue_scopes_of d (records d e)) in
      case try_locks w others d of
        (False, d1) \<Rightarrow> (V_wait, d1)
      | (True, d1) \<Rightarrow>
          if entry_gone w d1 (records d1 e)
          then (V_cancelled, snd (cancel_queued w e Instance_gone (Some s) False d1))
          else if lone_entry d1 e then (V_start, follow_instance w (hd e) d1)
          else if list_all
                    (ready_in w d1 (case records d1 e of [] \<Rightarrow> None | j # _ \<Rightarrow> queue_chain_key j))
                    others
          then (V_start, d1) else (V_wait, d1))"

fun dispatch_loop ::
  "world \<Rightarrow> scope \<Rightarrow> nat list \<Rightarrow> nat list list \<Rightarrow> db \<Rightarrow> (queue_error, nat list \<times> db) result" where
  "dispatch_loop w s holding [] d = Inr ([], d)"
| "dispatch_loop w s holding (e # es) d =
     (if holding \<noteq> [] \<and>
         \<not> (case records d e of [] \<Rightarrow> False | j # _ \<Rightarrow> passes_hold w d j holding)
      then dispatch_loop w s holding es d
      else case entry_verdict w e s d of
             (V_cancelled, d') \<Rightarrow> dispatch_loop w s holding es d'
           | (V_wait, d') \<Rightarrow> Inr ([], d')
           | (V_start, d') \<Rightarrow> map_sum id (\<lambda>d''. (e, d'')) (dispatch_entry w e d'))"

definition dispatch_next :: "world \<Rightarrow> scope \<Rightarrow> db \<Rightarrow> (queue_error, nat list \<times> db) result" where
  "dispatch_next w s d =
     (let d1 = lock_scopes [s] d in
      if scope_busy w d1 s then Inr ([], d1)
      else dispatch_loop w s (holding_jobs w d1 s) (queue_entries d1 s) d1)"

text \<open>\<^verbatim>\<open>_dispatch_scope_fresh\<close>: the dispatcher in a transaction of its own on what
  is committed. An exception rolls it back and is logged; a commit releases
  the locks.\<close>

definition committed :: "db \<Rightarrow> db" where
  "committed d = d\<lparr>held_locks := []\<rparr>"

definition dispatch_scope_fresh :: "world \<Rightarrow> scope \<Rightarrow> db \<Rightarrow> bool \<times> db" where
  "dispatch_scope_fresh w s d =
     (case dispatch_next (w\<lparr>fresh := d\<rparr>) s d of
        Inl _ \<Rightarrow> (False, d)
      | Inr (e, d') \<Rightarrow> (e \<noteq> [], committed d'))"

text \<open>The sweep: every queue something waits in, each on a cursor of its own.\<close>

fun serve_all :: "world \<Rightarrow> scope list \<Rightarrow> db \<Rightarrow> nat \<times> db" where
  "serve_all w [] d = (0, d)"
| "serve_all w (s # ss) d =
     (case dispatch_scope_fresh w s d of
        (b, d') \<Rightarrow> (case serve_all w ss d' of (n, d'') \<Rightarrow> (of_bool b + n, d'')))"

definition cron_dispatch_queued :: "world \<Rightarrow> db \<Rightarrow> nat \<times> db" where
  "cron_dispatch_queued w d =
     serve_all w
       (sort_key scope_order (uniq (map scope_of
          (filter (\<lambda>j. state j = Some Queued \<and> blocked_alert_id j = None) (jobs d))))) d"

section \<open>Well-formed states\<close>

text \<open>Every link to a queue.job is one job's.\<close>

definition one_link :: "db \<Rightarrow> bool" where
  "one_link d \<longleftrightarrow>
     (\<forall>x \<in> set (jobs d). \<forall>y \<in> set (jobs d).
        queue_job_uuid x \<noteq> None \<longrightarrow> queue_job_uuid x = queue_job_uuid y \<longrightarrow> jid x = jid y)"

text \<open>Ids come from the sequences, no two jobs share a queue.job, and a job waiting
  in its queue has nothing running for it.\<close>

definition wf_db :: "db \<Rightarrow> bool" where
  "wf_db d \<longleftrightarrow>
     wf_ids d \<and> ids_positive d \<and>
     (\<forall>j \<in> set (jobs d). jid j < next_job_id d) \<and>
     (\<forall>q \<in> set (qjobs d). q_uuid q < next_uuid d) \<and>
     (\<forall>j \<in> set (jobs d). case queue_job_uuid j of None \<Rightarrow> True | Some u \<Rightarrow> u < next_uuid d) \<and>
     (\<forall>j \<in> set (jobs d). case queue_chain_key j of None \<Rightarrow> True | Some k \<Rightarrow> k < next_uuid d) \<and>
     (\<forall>j \<in> set (jobs d). state j = Some Queued \<longrightarrow> \<not> queue_job_running d j) \<and> one_link d"

lemma one_link_by_rows:
  assumes "one_link d"
    and "\<And>j. j \<in> set (jobs d') \<Longrightarrow> queue_job_uuid j \<noteq> None \<Longrightarrow>
           \<exists>r \<in> set (jobs d). jid r = jid j \<and> queue_job_uuid r = queue_job_uuid j"
  shows "one_link d'"
  unfolding one_link_def
proof (intro ballI impI)
  fix x y
  assume h: "x \<in> set (jobs d')" "y \<in> set (jobs d')" "queue_job_uuid x \<noteq> None" "queue_job_uuid x = queue_job_uuid y"
  obtain r where r: "r \<in> set (jobs d)" "jid r = jid x" "queue_job_uuid r = queue_job_uuid x"
    using assms(2) [OF h(1,3)] by blast
  obtain s where s: "s \<in> set (jobs d)" "jid s = jid y" "queue_job_uuid s = queue_job_uuid y"
    using assms(2) [OF h(2)] h(3,4) by metis
  have "jid r = jid s" using assms(1) r s h(3,4) unfolding one_link_def by metis
  then show "jid x = jid y" using r(2) s(2) by simp
qed

lemma wf_dbD:
  assumes "wf_db d"
  shows "wf_ids d" "ids_positive d"
    "j \<in> set (jobs d) \<Longrightarrow> jid j < next_job_id d"
    "q \<in> set (qjobs d) \<Longrightarrow> q_uuid q < next_uuid d"
    "j \<in> set (jobs d) \<Longrightarrow> queue_job_uuid j = Some u \<Longrightarrow> u < next_uuid d"
    "j \<in> set (jobs d) \<Longrightarrow> state j = Some Queued \<Longrightarrow> \<not> queue_job_running d j"
    "j \<in> set (jobs d) \<Longrightarrow> instance_id j \<noteq> Some 0"
    "j \<in> set (jobs d) \<Longrightarrow> queue_chain_key j = Some k \<Longrightarrow> k < next_uuid d"
    "one_link d"
  using assms by (auto simp: wf_db_def ids_positive_def split: option.splits)

text \<open>Everything the queue reads of a state but the locks, the log, the audit
  trail, the bus and what is registered for after the commit.\<close>

definition same_rows :: "db \<Rightarrow> db \<Rightarrow> bool" where
  "same_rows d d' \<longleftrightarrow>
     jobs d' = jobs d \<and> qjobs d' = qjobs d \<and> alerts d' = alerts d \<and>
     instances d' = instances d \<and> types d' = types d \<and>
     next_job_id d' = next_job_id d \<and> next_uuid d' = next_uuid d"

lemma same_rows_refl [simp]: "same_rows d d"
  by (simp add: same_rows_def)

lemma same_rows_trans: "same_rows a b \<Longrightarrow> same_rows b c \<Longrightarrow> same_rows a c"
  by (simp add: same_rows_def)

named_theorems rows_simps \<open>what only touches locks, logs and notices\<close>

lemma same_rows_ops [rows_simps]:
  "same_rows d (lock_scopes ss d)" "same_rows d (add_log i n d)" "same_rows d (broadcast i st d)"
  "same_rows d (schedule_dispatch ss d)" "same_rows d (committed d)"
  by (simp_all add: same_rows_def lock_scopes_def add_log_def broadcast_def schedule_dispatch_def
      committed_def)

lemma try_lock_rows: "try_lock_scope w s d = (b, d') \<Longrightarrow> same_rows d d'"
  by (auto simp: try_lock_scope_def same_rows_def split: if_splits)

lemma try_locks_rows: "try_locks w ss d = (b, d') \<Longrightarrow> same_rows d d'"
  by (induction w ss d arbitrary: b d' rule: try_locks.induct)
     (auto split: prod.splits bool.splits dest!: try_lock_rows intro: same_rows_trans)

lemma same_rows_reads:
  assumes "same_rows d d'"
  shows "job_of d' = job_of d" "job_running d' = job_running d" "scope_busy w d' = scope_busy w d"
    "queue_entries d' = queue_entries d" "records d' = records d" "wf_db d' = wf_db d"
    "entry_members d' = entry_members d" "occupies w d' = occupies w d" "jobs d' = jobs d"
    "queue_job_running d' = queue_job_running d" "with_chains d' = with_chains d"
    "queue_scopes_of d' = queue_scopes_of d" "instances d' = instances d" "inst_of d' = inst_of d"
    "type_of d' = type_of d" "queue_held_by w d' = queue_held_by w d"
    "holding_jobs w d' = holding_jobs w d" "passes_hold w d' = passes_hold w d"
    "lone_entry d' = lone_entry d" "entry_gone w d' = entry_gone w d"
proof -
  note rows = assms [unfolded same_rows_def]
  show 1: "job_of d' = job_of d" using rows by (intro ext) (simp add: job_of_def)
  show 2: "queue_job_running d' = queue_job_running d"
    using rows by (intro ext) (simp add: queue_job_running_def)
  show 3: "job_running d' = job_running d" by (intro ext) (simp add: job_running_def 2 split: option.split)
  show 4: "jobs d' = jobs d" using rows by simp
  show "scope_busy w d' = scope_busy w d" by (intro ext) (simp add: scope_busy_def 3 4)
  have 5: "chain_steps d' = chain_steps d" by (intro ext) (simp add: chain_steps_def 4)
  have "entries_from d' js seen = entries_from d js seen" for js seen
    by (induction js arbitrary: seen) (auto simp: 5 split: option.splits)
  then show "queue_entries d' = queue_entries d"
    by (intro ext) (simp add: queue_entries_def queued_on_def 4)
  show 6: "records d' = records d" by (intro ext) (simp add: records_def 1)
  show "wf_db d' = wf_db d" using rows by (simp add: wf_db_def wf_ids_def ids_positive_def one_link_def 2 split: option.split)
  show "entry_members d' = entry_members d" by (intro ext) (simp add: entry_members_def 5 split: entry_key.split)
  show "occupies w d' = occupies w d" by (intro ext) (simp add: occupies_def 3 4)
  show 7: "with_chains d' = with_chains d" by (intro ext) (simp add: with_chains_def 4)
  show "queue_scopes_of d' = queue_scopes_of d" by (intro ext) (simp add: queue_scopes_of_def 7)
  show 8: "instances d' = instances d" using rows by simp
  show 9: "inst_of d' = inst_of d" by (intro ext) (simp add: inst_of_def 8)
  have 10: "type_rec d' = type_rec d" using rows by (intro ext) (simp add: type_rec_def)
  then show 11: "type_of d' = type_of d" by (intro ext) (simp add: type_of_def)
  have 12: "queue_holding_alerts w d' = queue_holding_alerts w d"
    unfolding queue_holding_alerts_def 1 10 using rows by (intro ext) simp
  then show "queue_held_by w d' = queue_held_by w d" "holding_jobs w d' = holding_jobs w d"
    by (intro ext; simp add: queue_held_by_def holding_jobs_def)+
  show "passes_hold w d' = passes_hold w d"
    unfolding passes_hold_def supersedes_hold_def 6 9 using rows by (intro ext) simp
  show "lone_entry d' = lone_entry d" by (intro ext) (simp add: lone_entry_def 1 split: list.split)
  show "entry_gone w d' = entry_gone w d" by (intro ext) (simp add: entry_gone_def 9 11 split: option.split)
qed

end
