(* ===== verification/Dispatch_Facts.thy ===== *)
theory Dispatch_Facts
  imports Job_Dispatch
begin

text \<open>
  What the dispatcher guarantees: one entry at a time on every target, the
  order of the queue, a chain started only where it is first everywhere, and
  the locks it writes under.
\<close>

section \<open>Occupation shrinks or passes to one entry\<close>

definition quieter :: "world \<Rightarrow> db \<Rightarrow> db \<Rightarrow> bool" where
  "quieter w d d' \<longleftrightarrow>
     (\<forall>s r'. occupies w d' r' s \<longrightarrow> (\<exists>r. occupies w d r s \<and> key_of r = key_of r'))"

lemma quieter_refl [simp]: "quieter w d d"
  by (auto simp: quieter_def)

lemma quieter_trans: "quieter w a b \<Longrightarrow> quieter w b c \<Longrightarrow> quieter w a c"
  unfolding quieter_def by metis

lemma quieter_busy: "quieter w d d' \<Longrightarrow> scope_busy w d' s \<Longrightarrow> scope_busy w d s"
  unfolding quieter_def scope_busy_iff by (metis occupies_jobs)

lemma quieter_serial:
  assumes "quieter w d d'" and "serial w d" and "ids_positive d"
  shows "serial w d'"
proof (rule serialI)
  fix s r r' assume "occupies w d' r s" "occupies w d' r' s"
  then obtain x y where "occupies w d x s" "occupies w d y s" "key_of x = key_of r" "key_of y = key_of r'"
    using assms(1) unfolding quieter_def by blast
  then show "key_of r = key_of r'" using serialD [OF assms(2,3)] by metis
qed

lemma same_rows_quieter: "same_rows d d' \<Longrightarrow> quieter w d d'"
  by (simp add: quieter_def same_rows_reads) blast

text \<open>A write that moves no row to another entry or queue and starts nothing.\<close>

lemma write_quieter:
  assumes rows: "jobs d' = write_rows jid (\<lambda>i. i \<in> S) f (jobs d)"
    and f: "\<And>j. key_of (f j) = key_of j" "\<And>j. queue_chain_key (f j) = queue_chain_key j"
      "\<And>j. job_type_id (f j) = job_type_id j"
    and scope: "\<And>j s. j \<in> set (jobs d) \<Longrightarrow> jid j \<in> S \<Longrightarrow> in_scope s (f j) = in_scope s j"
    and stops: "\<And>j. j \<in> set (jobs d) \<Longrightarrow> jid j \<in> S \<Longrightarrow> job_running d' (f j) \<Longrightarrow> job_running d j"
    and rest: "\<And>j. j \<in> set (jobs d) \<Longrightarrow> jid j \<notin> S \<Longrightarrow> job_running d' j \<Longrightarrow> job_running d j"
  shows "quieter w d d'"
  unfolding quieter_def
proof (intro allI impI)
  fix s r'
  assume occ: "occupies w d' r' s"
  define g where "g j = (if jid j \<in> S then f j else j)" for j
  have jobs': "set (jobs d') = g ` set (jobs d)"
    using rows by (auto simp: write_rows_def g_def)
  have g: "key_of (g j) = key_of j" "queue_chain_key (g j) = queue_chain_key j" "visible w (g j) = visible w j" for j
    by (simp_all add: g_def f visible_def)
  have gs: "in_scope s (g j) = in_scope s j" "job_running d' (g j) \<Longrightarrow> job_running d j"
    if "j \<in> set (jobs d)" for j
    using that scope stops rest by (auto simp: g_def split: if_splits)
  obtain r where r: "r \<in> set (jobs d)" "r' = g r" using occ jobs' by (auto simp: occupies_def)
  then have "occupies w d r s" using occ jobs' by (auto simp: occupies_def g gs)
  then show "\<exists>r. occupies w d r s \<and> key_of r = key_of r'" using r g by auto
qed

section \<open>What starting an entry changes\<close>

definition in_scope_fun :: "cloud_job \<Rightarrow> scope \<Rightarrow> bool" where
  "in_scope_fun j s = in_scope s j"

text \<open>Only rows of the entry \<open>K\<close> change, none moves to another entry or queue,
  and nothing but \<open>K\<close> occupies a target it did not occupy.\<close>

definition begins :: "world \<Rightarrow> entry_key \<Rightarrow> db \<Rightarrow> db \<Rightarrow> bool" where
  "begins w K d d' \<longleftrightarrow>
     wf_db d' \<and> set (held_locks d) \<subseteq> set (held_locks d') \<and>
     (\<forall>t' \<in> set (jobs d'). \<exists>t \<in> set (jobs d).
        jid t = jid t' \<and> key_of t = key_of t' \<and> in_scope_fun t' = in_scope_fun t) \<and>
     (\<forall>j \<in> set (jobs d). key_of j = K \<or> j \<in> set (jobs d')) \<and>
     (\<forall>s r'. occupies w d' r' s \<longrightarrow>
        key_of r' = K \<or> (\<exists>r. occupies w d r s \<and> key_of r = key_of r'))"

lemma begins_trans:
  assumes "begins w K a b" and "begins w K b c"
  shows "begins w K a c"
  unfolding begins_def
proof (intro conjI ballI allI impI)
  show "wf_db c" "set (held_locks a) \<subseteq> set (held_locks c)" using assms by (auto simp: begins_def)
next
  fix t'' assume "t'' \<in> set (jobs c)"
  then obtain t' where "t' \<in> set (jobs b)" "jid t' = jid t''" "key_of t' = key_of t''"
    "in_scope_fun t'' = in_scope_fun t'" using assms(2) unfolding begins_def by metis
  then show "\<exists>t \<in> set (jobs a). jid t = jid t'' \<and> key_of t = key_of t'' \<and> in_scope_fun t'' = in_scope_fun t"
    using assms(1) unfolding begins_def by metis
next
  fix j assume "j \<in> set (jobs a)"
  then show "key_of j = K \<or> j \<in> set (jobs c)" using assms unfolding begins_def by blast
next
  fix s r' assume "occupies w c r' s"
  then show "key_of r' = K \<or> (\<exists>r. occupies w a r s \<and> key_of r = key_of r')"
    using assms unfolding begins_def by metis
qed

lemma begins_serial:
  assumes "begins w K d d'" and "serial w d" and "wf_db d"
    and free: "\<And>t. t \<in> set (jobs d) \<Longrightarrow> key_of t = K \<Longrightarrow> \<not> scope_busy w d (scope_of t)"
  shows "serial w d'"
proof (rule serialI)
  have no: "False" if occ: "occupies w d' r s" and rK: "key_of r = K" and x: "occupies w d x s" for r s x
  proof -
    obtain t' where t': "t' \<in> set (jobs d')" "in_scope s t'" "key_of t' = K"
      using occupies_touches [OF occ] rK by auto
    then obtain t where t: "t \<in> set (jobs d)" "key_of t = K" "in_scope_fun t' = in_scope_fun t"
      using assms(1) unfolding begins_def by metis
    then have "in_scope s t" using t'(2) by (metis in_scope_fun_def)
    then have "in_scope s = in_scope (scope_of t)"
      using in_scope_scope_of wf_dbD(7) [OF assms(3) t(1)] by blast
    then have "occupies w d x (scope_of t)" using occupies_scope_cong x by blast
    then show False using free [OF t(1,2)] occupies_jobs unfolding scope_busy_iff by blast
  qed
  fix s r r' assume occ: "occupies w d' r s" "occupies w d' r' s"
  have old: "key_of r = K \<or> (\<exists>x. occupies w d x s \<and> key_of x = key_of r)"
    "key_of r' = K \<or> (\<exists>x. occupies w d x s \<and> key_of x = key_of r')"
    using assms(1) occ unfolding begins_def by blast+
  then show "key_of r = key_of r'"
    using no [OF occ(1)] no [OF occ(2)] serialD [OF assms(2) wf_dbD(2) [OF assms(3)]] by metis
qed

lemma write_begins:
  assumes rows: "jobs d' = write_rows jid (\<lambda>i. i \<in> S) f (jobs d)"
    and K: "\<And>j. j \<in> set (jobs d) \<Longrightarrow> jid j \<in> S \<Longrightarrow> key_of j = K"
    and f: "\<And>j. jid (f j) = jid j" "\<And>j. queue_chain_key (f j) = queue_chain_key j"
      "\<And>j. job_type_id (f j) = job_type_id j"
    and scope: "\<And>j. j \<in> set (jobs d) \<Longrightarrow> jid j \<in> S \<Longrightarrow> in_scope_fun (f j) = in_scope_fun j"
    and rest: "\<And>j. j \<in> set (jobs d) \<Longrightarrow> jid j \<notin> S \<Longrightarrow> job_running d' j \<Longrightarrow> job_running d j"
    and wf: "wf_db d'" and held: "set (held_locks d) \<subseteq> set (held_locks d')"
  shows "begins w K d d'"
  unfolding begins_def
proof (intro conjI ballI allI impI)
  define g where "g j = (if jid j \<in> S then f j else j)" for j
  have jobs': "set (jobs d') = g ` set (jobs d)"
    using rows by (auto simp: write_rows_def g_def)
  have g: "jid (g j) = jid j" "key_of (g j) = key_of j" "queue_chain_key (g j) = queue_chain_key j"
    "visible w (g j) = visible w j" for j
    by (simp_all add: g_def f visible_def key_of_def split: option.split)
  have gs: "in_scope_fun (g j) = in_scope_fun j" if "j \<in> set (jobs d)" for j
    using that scope by (auto simp: g_def)
  {
    fix t' assume "t' \<in> set (jobs d')"
    then show "\<exists>t \<in> set (jobs d). jid t = jid t' \<and> key_of t = key_of t' \<and> in_scope_fun t' = in_scope_fun t"
      using jobs' g gs by fastforce
  next
    fix j assume "j \<in> set (jobs d)"
    then show "key_of j = K \<or> j \<in> set (jobs d')"
      using K jobs' by (cases "jid j \<in> S") (auto simp: g_def image_iff)
  next
    fix s r' assume occ: "occupies w d' r' s"
    then obtain r where r: "r \<in> set (jobs d)" "r' = g r" using jobs' by (auto simp: occupies_def)
    show "key_of r' = K \<or> (\<exists>r. occupies w d r s \<and> key_of r = key_of r')"
    proof (cases "jid r \<in> S")
      case True
      then show ?thesis using r K g by simp
    next
      case False
      then have "job_running d r" using occ r rest [of r] by (auto simp: occupies_def g_def)
      moreover have "in_scope s (g j) = in_scope s j" if "j \<in> set (jobs d)" for j
        using gs [OF that] by (metis in_scope_fun_def)
      ultimately have "occupies w d r s"
        using occ r jobs' by (auto simp: occupies_def g)
      then show ?thesis using r g by auto
    qed
  }
qed (use wf held in auto)

lemma same_rows_begins:
  assumes "same_rows d d'" and "wf_db d" and "set (held_locks d) \<subseteq> set (held_locks d')"
  shows "begins w K d d'"
  unfolding begins_def using assms by (auto simp: same_rows_reads)

text \<open>The writes of the dispatcher are such writes.\<close>

lemma jobs_write_jobs: "jobs (write_jobs ids f d) = write_rows jid (\<lambda>i. i \<in> set ids) f (jobs d)"
  by (simp add: write_jobs_def)

lemma write_jobs_frame [simp]:
  "qjobs (write_jobs ids f d) = qjobs d" "next_uuid (write_jobs ids f d) = next_uuid d"
  "next_job_id (write_jobs ids f d) = next_job_id d" "held_locks (write_jobs ids f d) = held_locks d"
  "alerts (write_jobs ids f d) = alerts d" "instances (write_jobs ids f d) = instances d"
  "types (write_jobs ids f d) = types d" "postcommit (write_jobs ids f d) = postcommit d"
  by (simp_all add: write_jobs_def)

lemma wf_ids_write_jobs:
  assumes "wf_ids d" and "\<And>j. jid (f j) = jid j"
  shows "wf_ids (write_jobs ids f d)"
  using assms by (simp add: wf_ids_def jobs_write_jobs cloud_jobs.write_keys)

lemma wf_write_jobs:
  assumes "wf_db d" and f: "\<And>j. jid (f j) = jid j" "\<And>j. instance_id (f j) = instance_id j"
    "\<And>j. queue_job_uuid (f j) = queue_job_uuid j" "\<And>j. state (f j) = Some Queued \<Longrightarrow> state j = Some Queued"
    "\<And>j. queue_chain_key (f j) = queue_chain_key j"
  shows "wf_db (write_jobs ids f d)"
proof -
  have run: "queue_job_running (write_jobs ids f d) j = queue_job_running d j'"
    if "queue_job_uuid j = queue_job_uuid j'" for j j'
    using that by (simp add: queue_job_running_def)
  have upd: "\<forall>j \<in> set (jobs (write_jobs ids f d)). \<exists>r \<in> set (jobs d). jid j = jid r \<and>
      instance_id j = instance_id r \<and> queue_job_uuid j = queue_job_uuid r \<and>
      queue_chain_key j = queue_chain_key r \<and>
      (state j = Some Queued \<longrightarrow> state r = Some Queued)"
    using f by (auto simp: jobs_write_jobs write_rows_def)
  show ?thesis
    unfolding wf_db_def
  proof (intro conjI ballI impI)
    show "wf_ids (write_jobs ids f d)" by (rule wf_ids_write_jobs [OF wf_dbD(1) [OF assms(1)] f(1)])
    show "ids_positive (write_jobs ids f d)"
      using upd wf_dbD(7) [OF assms(1)] unfolding ids_positive_def by metis
    show "one_link (write_jobs ids f d)"
      by (rule one_link_by_rows [OF wf_dbD(9) [OF assms(1)]]) (use upd in metis)
  next
    fix j assume j: "j \<in> set (jobs (write_jobs ids f d))"
    then obtain r where r: "r \<in> set (jobs d)" "jid j = jid r" "queue_job_uuid j = queue_job_uuid r"
      "queue_chain_key j = queue_chain_key r" "state j = Some Queued \<Longrightarrow> state r = Some Queued"
      using upd by blast
    show "case queue_chain_key j of None \<Rightarrow> True | Some k \<Rightarrow> k < next_uuid (write_jobs ids f d)"
      using r wf_dbD(8) [OF assms(1) r(1)] by (auto split: option.split)
    show "jid j < next_job_id (write_jobs ids f d)" using r wf_dbD(3) [OF assms(1)] by simp
    show "case queue_job_uuid j of None \<Rightarrow> True | Some u \<Rightarrow> u < next_uuid (write_jobs ids f d)"
      using r wf_dbD(5) [OF assms(1) r(1)] by (auto split: option.split)
    assume "state j = Some Queued"
    then show "\<not> queue_job_running (write_jobs ids f d) j"
      using r run [of j r] wf_dbD(6) [OF assms(1) r(1)] by simp
  qed (use wf_dbD(4) [OF assms(1)] in simp)
qed

lemma write_jobs_running:
  "job_running (write_jobs ids f d) j = job_running d j"
  by (simp add: job_running_def queue_job_running_def split: option.split)

lemma write_jobs_begins:
  assumes "wf_db d" and "\<And>j. j \<in> set (jobs d) \<Longrightarrow> jid j \<in> set ids \<Longrightarrow> key_of j = K"
    and f: "\<And>j. jid (f j) = jid j" "\<And>j. instance_id (f j) = instance_id j"
    "\<And>j. queue_job_uuid (f j) = queue_job_uuid j" "\<And>j. state (f j) = Some Queued \<Longrightarrow> state j = Some Queued"
    "\<And>j. queue_chain_key (f j) = queue_chain_key j" "\<And>j. job_type_id (f j) = job_type_id j"
    and host: "\<And>j. j \<in> set (jobs d) \<Longrightarrow> jid j \<in> set ids \<Longrightarrow> host_id (f j) = host_id j \<or> instance_id j \<noteq> None"
  shows "begins w K d (write_jobs ids f d)"
proof (rule write_begins [where S = "set ids" and f = f])
  show "jobs (write_jobs ids f d) = write_rows jid (\<lambda>i. i \<in> set ids) f (jobs d)"
    by (rule jobs_write_jobs)
  show "wf_db (write_jobs ids f d)" by (rule wf_write_jobs [OF assms(1) f(1-5)])
next
  fix j assume j: "j \<in> set (jobs d)" "jid j \<in> set ids"
  have "in_scope s (f j) = in_scope s j" for s
    using host [OF j] f(2) wf_dbD(7) [OF assms(1) j(1)] by (auto simp: in_scope_def)
  then show "in_scope_fun (f j) = in_scope_fun j" by (intro ext) (simp add: in_scope_fun_def)
qed (use assms in \<open>auto simp: write_jobs_running\<close>)

text \<open>A queue.job with a new uuid runs for no row that is there.\<close>

lemma new_queue_job_running:
  assumes "wf_db d" and "j \<in> set (jobs d)" and "qjobs d' = qjobs d @ qs"
    and "\<And>q. q \<in> set qs \<Longrightarrow> next_uuid d \<le> q_uuid q"
  shows "queue_job_running d' j = queue_job_running d j"
proof -
  have "Some (q_uuid q) \<noteq> queue_job_uuid j" if "q \<in> set qs" for q
    using assms(4) [OF that] wf_dbD(5) [OF assms(1,2), of "q_uuid q"] by (auto simp: not_less)
  then show ?thesis using assms(3) by (auto simp: queue_job_running_def)
qed

lemma hand_over_frame [simp]:
  "qjobs (hand_over i q s d) = qjobs d @ [q]" "next_uuid (hand_over i q s d) = Suc (next_uuid d)"
  "next_job_id (hand_over i q s d) = next_job_id d" "held_locks (hand_over i q s d) = held_locks d"
  "instances (hand_over i q s d) = instances d" "types (hand_over i q s d) = types d"
  "jobs (hand_over i q s d) = write_rows jid (\<lambda>k. k \<in> {i})
     (\<lambda>j. j\<lparr>queue_job_uuid := Some (q_uuid q), state := Some s\<rparr>) (jobs d)"
  by (simp_all add: hand_over_def write_jobs_def)

lemma wf_hand_over:
  assumes "wf_db d" and "q_uuid q = next_uuid d" and "s \<noteq> Queued"
  shows "wf_db (hand_over i q s d)"
  unfolding wf_db_def
proof (intro conjI ballI impI)
  let ?d = "hand_over i q s d"
  have new: "q_uuid q \<notin> q_uuid ` set (qjobs d)" using wf_dbD(4) [OF assms(1)] assms(2) by fastforce
  show "wf_ids ?d"
    using wf_dbD(1) [OF assms(1)] new by (simp add: wf_ids_def cloud_jobs.write_keys)
  show "ids_positive ?d"
    using wf_dbD(2) [OF assms(1)] by (auto simp: ids_positive_def write_rows_def)
  show "one_link ?d"
    using wf_dbD(5,9) [OF assms(1)] assms(2) unfolding one_link_def
    by (fastforce simp: write_rows_def split: if_splits)
  fix j assume "j \<in> set (jobs ?d)"
  then obtain r where r: "r \<in> set (jobs d)"
    "j = (if jid r = i then r\<lparr>queue_job_uuid := Some (q_uuid q), state := Some s\<rparr> else r)"
    by (auto simp: write_rows_def)
  show "jid j < next_job_id ?d" using r wf_dbD(3) [OF assms(1) r(1)] by simp
  show "case queue_job_uuid j of None \<Rightarrow> True | Some u \<Rightarrow> u < next_uuid ?d"
    using r wf_dbD(5) [OF assms(1) r(1)] assms(2) by (auto split: option.split simp: less_SucI)
  show "case queue_chain_key j of None \<Rightarrow> True | Some k \<Rightarrow> k < next_uuid ?d"
    using r wf_dbD(8) [OF assms(1) r(1)] by (auto split: option.split simp: less_SucI)
  assume "state j = Some Queued"
  then have "j = r" using r assms(3) by (auto split: if_splits)
  then show "\<not> queue_job_running ?d j"
    using \<open>state j = Some Queued\<close> r(1) wf_dbD(6) [OF assms(1) r(1)]
      new_queue_job_running [OF assms(1) r(1), of ?d "[q]"] assms(2) by simp
qed (use wf_dbD(4) [OF assms(1)] assms(2) in \<open>auto simp: less_SucI\<close>)

lemma hand_over_begins:
  assumes "wf_db d" and "q_uuid q = next_uuid d" and "s \<noteq> Queued"
    and "\<And>j. j \<in> set (jobs d) \<Longrightarrow> jid j = i \<Longrightarrow> key_of j = K"
  shows "begins w K d (hand_over i q s d)"
proof (rule write_begins)
  show "jobs (hand_over i q s d) = write_rows jid (\<lambda>k. k \<in> {i})
     (\<lambda>j. j\<lparr>queue_job_uuid := Some (q_uuid q), state := Some s\<rparr>) (jobs d)" by simp
  show "wf_db (hand_over i q s d)" by (rule wf_hand_over [OF assms(1-3)])
next
  fix j assume "j \<in> set (jobs d)" "job_running (hand_over i q s d) j"
  then show "job_running d j"
    using new_queue_job_running [OF assms(1), of j "hand_over i q s d" "[q]"] assms(2)
    by (auto simp: job_running_def split: option.splits)
qed (use assms(4) in \<open>auto simp: in_scope_fun_def in_scope_def fun_eq_iff\<close>)

lemma broadcast_begins: "wf_db d \<Longrightarrow> begins w K d (broadcast i st d)"
  by (rule same_rows_begins) (simp_all add: same_rows_def broadcast_def)

lemma new_queue_job_uuid [simp]: "q_uuid (new_queue_job d j n) = next_uuid d"
  by (simp add: new_queue_job_def split: prod.split)

lemma begins_wf: "begins w K d d' \<Longrightarrow> wf_db d'"
  by (simp add: begins_def)

lemma begins_keys:
  assumes "begins w K d d'" and "\<And>j. j \<in> set (jobs d) \<Longrightarrow> jid j \<in> S \<Longrightarrow> key_of j = K"
    and "j \<in> set (jobs d')" and "jid j \<in> S"
  shows "key_of j = K"
  using assms unfolding begins_def by metis

lemma dispatch_single_begins:
  assumes "wf_db d" and "\<And>j. j \<in> set (jobs d) \<Longrightarrow> jid j = i \<Longrightarrow> key_of j = K"
  shows "begins w K d (dispatch_single w' i d)"
proof (cases "job_of d i")
  case None
  then show ?thesis using assms(1) by (simp add: dispatch_single_def same_rows_begins)
next
  case (Some j)
  let ?d = "hand_over i (new_queue_job d j (max_retries_of w' j)) Pending d"
  have "begins w K d ?d" by (rule hand_over_begins) (use assms in auto)
  then show ?thesis
    using begins_trans broadcast_begins begins_wf Some by (fastforce simp: dispatch_single_def)
qed

lemma hand_over_steps_begins:
  assumes "wf_db d" and "\<And>j. j \<in> set (jobs d) \<Longrightarrow> jid j \<in> set ids \<Longrightarrow> key_of j = K"
    and "s \<noteq> Queued"
  shows "begins w K d (hand_over_steps g s ids d)"
  using assms
proof (induction g s ids d rule: hand_over_steps.induct)
  case (1 g s d)
  then show ?case by (simp add: same_rows_begins)
next
  case (2 g s i "is" d)
  show ?case
  proof (cases "job_of d i")
    case None
    then show ?thesis using 2 by simp
  next
    case (Some j)
    let ?q = "(new_queue_job d j 1)\<lparr>q_state := s, q_graph_uuid := g,
                   q_reverse_depends_on := (if is = [] then [] else [Suc (next_uuid d)])\<rparr>"
    let ?d = "broadcast i Job_created (hand_over i ?q s d)"
    have "begins w K d (hand_over i ?q s d)" by (rule hand_over_begins) (use 2 in auto)
    then have d: "begins w K d ?d" using begins_trans broadcast_begins begins_wf by blast
    have "begins w K ?d (hand_over_steps g Wait_dependencies is ?d)"
      using Some begins_wf [OF d] begins_keys [OF d, of "set is"] "2.prems"(2)
      by (intro "2.IH"(2)) auto
    then show ?thesis using begins_trans [OF d] Some by simp
  qed
qed

lemma resolve_chain_refs_begins:
  assumes "wf_db d" and "\<And>j. j \<in> set (jobs d) \<Longrightarrow> jid j \<in> set is \<Longrightarrow> key_of j = K"
    and "resolve_chain_refs ids is d = Inr d'"
  shows "begins w K d d'"
  using assms
proof (induction ids "is" d rule: resolve_chain_refs.induct)
  case (1 ids d)
  then show ?case by (simp add: same_rows_begins)
next
  case (2 ids i "is" d)
  show ?case
  proof (cases "Option.bind (job_of d i) payload")
    case None
    then show ?thesis using 2 by simp
  next
    case (Some p)
    with 2 obtain q where q: "resolve_refs ids p = Inr q" by (auto split: sum.splits)
    let ?d = "write_jobs [i] (\<lambda>j. j\<lparr>payload := Some q\<rparr>) d"
    have d: "begins w K d ?d" by (rule write_jobs_begins) (use 2 in auto)
    have "begins w K ?d d'"
      using Some q "2.prems" begins_wf [OF d] begins_keys [OF d, of "set is"]
      by (intro "2.IH"(2)) auto
    then show ?thesis using begins_trans [OF d] by blast
  qed
qed

lemma dispatch_chain_begins:
  assumes "wf_db d" and "\<And>j. j \<in> set (jobs d) \<Longrightarrow> jid j \<in> set ids \<Longrightarrow> key_of j = K"
    and "dispatch_chain ids d = Inr d'"
  shows "begins w K d d'"
proof -
  obtain d1 where d1: "resolve_chain_refs ids ids d = Inr d1"
    using assms(3) by (cases "resolve_chain_refs ids ids d") (auto simp: dispatch_chain_def)
  have b1: "begins w K d d1" by (rule resolve_chain_refs_begins [OF assms(1,2) d1])
  let ?d2 = "if 1 < length ids then d1\<lparr>next_uuid := Suc (next_uuid d1)\<rparr> else d1"
  have "wf_db ?d2"
    using begins_wf [OF b1]
    by (auto simp: wf_db_def wf_ids_def ids_positive_def one_link_def queue_job_running_def less_SucI
        split: option.splits)
  moreover have "occupies w ?d2 = occupies w d1"
    by (auto simp: occupies_def job_running_def queue_job_running_def fun_eq_iff split: option.splits)
  ultimately have b2: "begins w K d1 ?d2"
    unfolding begins_def by auto
  have b12: "begins w K d ?d2" by (rule begins_trans [OF b1 b2])
  have "begins w K ?d2 (hand_over_steps (if 1 < length ids then Some (next_uuid d1) else None) Pending ids ?d2)"
    by (rule hand_over_steps_begins) (use begins_wf [OF b12] begins_keys [OF b12, of "set ids"] assms(2) in auto)
  then show ?thesis
    using begins_trans [OF b12] assms(3) d1 by (simp add: dispatch_chain_def)
qed

section \<open>What cancelling waiting jobs changes\<close>

text \<open>What the queue relies on of the executors' hooks and of the layers' ones:
  they write no job that is there, and the jobs they ask for are hidden ones,
  dispatched at once, outside every queue (\<^verbatim>\<open>discard_handoff\<close>, the probe of
  an instance that changed).\<close>

definition hook_effect :: "world \<Rightarrow> db \<Rightarrow> db \<Rightarrow> bool" where
  "hook_effect w d d' \<longleftrightarrow>
     wf_db d' \<and> held_locks d' = held_locks d \<and> postcommit d' = postcommit d \<and>
     (\<exists>js. jobs d' = jobs d @ js \<and>
        (\<forall>j \<in> set js. \<not> visible w j \<and> queue_chain_key j = None \<and> state j \<noteq> Some Queued)) \<and>
     (\<exists>qs. qjobs d' = qjobs d @ qs \<and> (\<forall>q \<in> set qs. next_uuid d \<le> q_uuid q))"

definition hooks_ok :: "world \<Rightarrow> bool" where
  "hooks_ok w \<longleftrightarrow> (\<forall>c d d'. wf_db d \<longrightarrow> hooks w c d = Some d' \<longrightarrow> hook_effect w d d')"

text \<open>Nothing new runs, the entries keep their members, and only the rows of
  \<open>S\<close> change.\<close>

definition settles :: "world \<Rightarrow> nat set \<Rightarrow> db \<Rightarrow> db \<Rightarrow> bool" where
  "settles w S d d' \<longleftrightarrow>
     wf_db d' \<and> quieter w d d' \<and> (\<forall>K. entry_members d' K = entry_members d K) \<and>
     (\<forall>j \<in> set (jobs d). jid j \<in> S \<or> j \<in> set (jobs d')) \<and>
     set (held_locks d) \<subseteq> set (held_locks d')"

lemma settles_trans:
  assumes "settles w S a b" and "settles w T b c"
  shows "settles w (S \<union> T) a c"
  unfolding settles_def
proof (intro conjI allI ballI)
  show "quieter w a c" using assms quieter_trans by (auto simp: settles_def)
  show "jid j \<in> S \<union> T \<or> j \<in> set (jobs c)" if "j \<in> set (jobs a)" for j
    using that assms unfolding settles_def by blast
qed (use assms in \<open>auto simp: settles_def\<close>)

lemma settles_mono: "settles w S d d' \<Longrightarrow> S \<subseteq> T \<Longrightarrow> settles w T d d'"
  by (auto simp: settles_def)

lemma settles_trans_empty:
  "settles w {} a b \<Longrightarrow> settles w S b c \<Longrightarrow> settles w S a c"
  "settles w S a b \<Longrightarrow> settles w {} b c \<Longrightarrow> settles w S a c"
  using settles_trans [of w "{}" a b S c] settles_trans [of w S a b "{}" c] by auto

lemma same_rows_settles:
  assumes "same_rows d d'" and "wf_db d" and "set (held_locks d) \<subseteq> set (held_locks d')"
  shows "settles w {} d d'"
  using assms same_rows_quieter by (auto simp: settles_def same_rows_reads)

lemma settles_wf: "settles w S d d' \<Longrightarrow> wf_db d'"
  by (simp add: settles_def)

lemma hook_settles:
  assumes "wf_db d" and "hook_effect w d d'"
  shows "settles w {} d d'"
proof -
  obtain js qs where js: "jobs d' = jobs d @ js"
    "\<And>j. j \<in> set js \<Longrightarrow> \<not> visible w j \<and> queue_chain_key j = None \<and> state j \<noteq> Some Queued"
    and qs: "qjobs d' = qjobs d @ qs" "\<And>q. q \<in> set qs \<Longrightarrow> next_uuid d \<le> q_uuid q"
    using assms(2) unfolding hook_effect_def by auto
  have run: "job_running d' j = job_running d j" if "j \<in> set (jobs d)" for j
    using new_queue_job_running [OF assms(1) that qs]
    by (simp add: job_running_def split: option.split)
  have "occupies w d r' s" if "occupies w d' r' s" for r' s
    using that js run by (auto simp: occupies_def)
  moreover have "entry_members d' K = entry_members d K" for K
    using js by (auto simp: entry_members_def chain_steps_def filter_empty_conv split: entry_key.split)
  ultimately show ?thesis
    using assms(2) js(1) by (auto simp: settles_def quieter_def hook_effect_def)
qed

lemma add_log_settles: "wf_db d \<Longrightarrow> settles w {} d (add_log i n d)"
  by (rule same_rows_settles) (simp_all add: same_rows_def add_log_def)

lemma hook_run_settles:
  assumes "hooks_ok w" and "wf_db d"
  shows "settles w {} d (run_cancelled_queued_hook w i d)"
    "settles w {} d (run_after_terminal w st i d)"
  using assms hook_settles add_log_settles same_rows_settles [of d d]
  by (auto simp: run_cancelled_queued_hook_def run_after_terminal_def hooks_ok_def
      split: option.split)

lemma cancel_one_settles:
  assumes "hooks_ok w" and "wf_db d"
  shows "settles w {} d (cancel_one w n i d)"
proof -
  let ?a = "add_log i n d"
  let ?b = "run_cancelled_queued_hook w i ?a"
  let ?c = "run_after_terminal w Cancelled i ?b"
  have a: "settles w {} d ?a" by (rule add_log_settles [OF assms(2)])
  have b: "settles w {} ?a ?b" by (rule hook_run_settles [OF assms(1) settles_wf [OF a]])
  have c: "settles w {} ?b ?c" by (rule hook_run_settles [OF assms(1) settles_wf [OF b]])
  have "settles w {} ?c (broadcast i (Job_ended Cancelled) ?c)"
    by (rule same_rows_settles) (use settles_wf [OF c] in \<open>simp_all add: same_rows_def broadcast_def\<close>)
  then show ?thesis
    unfolding cancel_one_def using a b c settles_trans_empty(1) by blast
qed

lemma cancel_fold_settles:
  assumes "hooks_ok w" and "wf_db d"
  shows "settles w {} d (fold (cancel_one w n) cs d)"
  using assms
proof (induction cs arbitrary: d)
  case Nil
  then show ?case by (simp add: same_rows_settles)
next
  case (Cons c cs)
  have c: "settles w {} d (cancel_one w n c d)" by (rule cancel_one_settles [OF Cons.prems])
  then show ?case
    using Cons.IH [OF Cons.prems(1) settles_wf [OF c]] settles_trans_empty(1) by fastforce
qed

lemma chain_steps_write:
  assumes "\<And>j. jid (f j) = jid j" and "\<And>j. queue_chain_key (f j) = queue_chain_key j"
  shows "map jid (chain_steps (write_jobs ids f d) k) = map jid (chain_steps d k)"
proof -
  let ?g = "\<lambda>j. if jid j \<in> set ids then f j else j"
  have "filter (\<lambda>j. queue_chain_key j = Some k) (map ?g js)
      = map ?g (filter (\<lambda>j. queue_chain_key j = Some k) js)" for js
    by (induction js) (auto simp: assms)
  moreover have "sort_key jid (map ?g js) = map ?g (sort_key jid js)" for js
  proof -
    have ins: "insort_key jid (?g x) (map ?g ys) = map ?g (insort_key jid x ys)" for x ys
      using assms(1) by (induction ys) auto
    show ?thesis by (induction js) (simp_all only: list.map sort_key_simps ins)
  qed
  moreover have "map jid (map ?g js) = map jid js" for js using assms(1) by simp
  ultimately show ?thesis
    by (simp add: chain_steps_def jobs_write_jobs write_rows_def del: map_map)
qed

lemma cancel_write_settles:
  assumes "wf_db d" and "\<And>j. j \<in> set (jobs d) \<Longrightarrow> jid j \<in> set cs \<Longrightarrow> state j = Some Queued"
  shows "settles w (set cs) d (write_jobs cs (\<lambda>j. j\<lparr>state := Some Cancelled\<rparr>) d)"
proof -
  let ?f = "\<lambda>j. j\<lparr>state := Some Cancelled\<rparr>" and ?d = "write_jobs cs (\<lambda>j. j\<lparr>state := Some Cancelled\<rparr>) d"
  have "wf_db ?d" by (rule wf_write_jobs [OF assms(1)]) auto
  moreover have "quieter w d ?d"
  proof (rule write_quieter [where S = "set cs" and f = ?f])
    show "jobs ?d = write_rows jid (\<lambda>i. i \<in> set cs) ?f (jobs d)" by (rule jobs_write_jobs)
    show "key_of (?f j) = key_of j" for j by (simp add: key_of_def split: option.split)
  next
    fix j assume "j \<in> set (jobs d)" "jid j \<in> set cs" "job_running ?d (?f j)"
    then show "job_running d j"
      using wf_dbD(6) [OF assms(1)] assms(2)
      by (auto simp: job_running_def queue_job_running_def)
  qed (auto simp: write_jobs_running in_scope_def)
  moreover have "entry_members ?d K = entry_members d K" for K
    by (auto simp: entry_members_def chain_steps_write split: entry_key.split)
  moreover have "jid j \<in> set cs \<or> j \<in> set (jobs ?d)" if "j \<in> set (jobs d)" for j
    using that by (auto simp: jobs_write_jobs intro: cloud_jobs.write_frame)
  ultimately show ?thesis by (auto simp: settles_def)
qed

lemma set_with_chains: "set (records d ids) \<subseteq> set (with_chains d (records d ids))"
  by (auto simp: with_chains_def)

lemma with_chains_jobs: "wf_ids d \<Longrightarrow> set (with_chains d (records d ids)) \<subseteq> set (jobs d)"
  by (auto simp: with_chains_def set_records)

lemma cancel_queued_settles:
  assumes "hooks_ok w" and "wf_db d" and "cancel_queued w ids n skip lock d = (cs, d')"
  shows "settles w (set cs) d d'"
proof -
  let ?js = "with_chains d (records d ids)"
  let ?cs = "map jid (filter (\<lambda>j. state j = Some Queued) ?js)"
  define d1 where "d1 = (if lock then lock_scopes (uniq (map scope_of ?js)) d else d)"
  have rows: "same_rows d d1" by (simp add: d1_def rows_simps)
  have s1: "settles w {} d d1"
    by (rule same_rows_settles [OF rows assms(2)]) (auto simp: d1_def lock_scopes_def)
  show ?thesis
  proof (cases "?cs = []")
    case True
    then show ?thesis using assms(3) s1 by (auto simp: cancel_queued_def Let_def d1_def)
  next
    case False
    define d2 where "d2 = write_jobs ?cs (\<lambda>j. j\<lparr>state := Some Cancelled\<rparr>) d1"
    define d3 where "d3 = fold (cancel_one w n) ?cs d2"
    have eq: "cs = ?cs" "d' = schedule_dispatch (filter (\<lambda>s. Some s \<noteq> skip) (uniq (map scope_of ?js))) d3"
      using assms(3) False by (auto simp: cancel_queued_def Let_def d1_def d2_def d3_def)
    have s2: "settles w (set ?cs) d1 d2"
      unfolding d2_def
    proof (rule cancel_write_settles [OF settles_wf [OF s1]])
      fix j assume "j \<in> set (jobs d1)" "jid j \<in> set ?cs"
      then show "state j = Some Queued"
        using with_chains_jobs [OF wf_dbD(1) [OF assms(2)], of ids] rows
          same_jid [OF wf_dbD(1) [OF assms(2)], of j] by (auto simp: same_rows_reads)
    qed
    have s3: "settles w {} d2 d3"
      unfolding d3_def by (rule cancel_fold_settles [OF assms(1) settles_wf [OF s2]])
    have "settles w {} d3 d'"
      by (rule same_rows_settles) (use settles_wf [OF s3] eq in \<open>simp_all add: same_rows_def schedule_dispatch_def\<close>)
    then show ?thesis
      using s1 s2 s3 eq(1) settles_trans_empty by blast
  qed
qed

section \<open>The dispatcher's loop\<close>

lemma scope_busy_cong: "in_scope s = in_scope s' \<Longrightarrow> scope_busy w d s = scope_busy w d s'"
  by (simp add: scope_busy_def)

definition in_queue :: "db \<Rightarrow> scope \<Rightarrow> nat list \<Rightarrow> entry_key \<Rightarrow> bool" where
  "in_queue d s e K \<longleftrightarrow>
     e = entry_members d K \<and> (\<exists>j \<in> set (jobs d). waiting_in s j \<and> key_of j = K)"

lemma in_queue_members:
  assumes "wf_db d" and "in_queue d s e K"
  shows "set e = jid ` {j \<in> set (jobs d). key_of j = K}"
  using assms set_entry_members [OF wf_dbD(1) [OF assms(1)]] by (auto simp: in_queue_def)

lemma in_queue_ids:
  assumes "wf_db d" and "in_queue d s e K" and "j \<in> set (jobs d)"
  shows "jid j \<in> set e \<longleftrightarrow> key_of j = K"
  using in_queue_members [OF assms(1,2)] assms(3) same_jid [OF wf_dbD(1) [OF assms(1)]] by auto

lemma in_queue_records:
  assumes "wf_db d" and "in_queue d s e K"
  shows "set (records d e) = {j \<in> set (jobs d). key_of j = K}"
  using in_queue_ids [OF assms] by (auto simp: set_records [OF wf_dbD(1) [OF assms(1)]])

lemma in_queue_with_chains:
  assumes "wf_db d" and "in_queue d s e K"
  shows "set (with_chains d (records d e)) = {j \<in> set (jobs d). key_of j = K}"
proof -
  have "key_of x = key_of y" if "queue_chain_key x = queue_chain_key y" "queue_chain_key x \<noteq> None" for x y
    using that by (auto simp: key_of_def)
  then show ?thesis using in_queue_records [OF assms] by (auto simp: with_chains_def)
qed

lemma in_queue_settles:
  assumes "in_queue d s e K" and "settles w S d d'" and "set e \<inter> S = {}" and "wf_db d"
  shows "in_queue d' s e K"
proof -
  obtain j where j: "j \<in> set (jobs d)" "waiting_in s j" "key_of j = K"
    using assms(1) by (auto simp: in_queue_def)
  then have "jid j \<in> set e" using in_queue_ids [OF assms(4,1)] by simp
  then have "j \<in> set (jobs d')" using j assms(2,3) by (auto simp: settles_def)
  then show ?thesis using assms(1,2) j by (auto simp: in_queue_def settles_def)
qed

lemma try_locks_held:
  assumes "try_locks w ss d = (b, d')"
  shows "set (held_locks d) \<subseteq> set (held_locks d') \<and> (b \<longrightarrow> lock_key ` set ss \<subseteq> set (held_locks d'))"
  using assms
proof (induction w ss d arbitrary: b d' rule: try_locks.induct)
  case (2 w s ss d)
  show ?case
  proof (cases "lock_key s \<in> set (foreign_locks w)")
    case True
    then show ?thesis using 2 by (auto simp: try_lock_scope_def)
  next
    case False
    then show ?thesis using 2 by (fastforce simp: try_lock_scope_def)
  qed
qed simp

definition others :: "db \<Rightarrow> nat list \<Rightarrow> scope \<Rightarrow> scope list" where
  "others d e s = filter (\<lambda>x. x \<noteq> s) (queue_scopes_of d (records d e))"

lemma scope_among_others:
  assumes "wf_db d" and "in_queue d s e K" and "t \<in> set (jobs d)" and "key_of t = K"
  shows "scope_of t = s \<or> scope_of t \<in> set (others d e s)"
  using in_queue_with_chains [OF assms(1,2)] assms(3,4) by (auto simp: others_def queue_scopes_of_def)

text \<open>The locks of every queue an entry waits in are held once the others' were
  taken.\<close>

lemma entry_locked:
  assumes "wf_db d" and "in_queue d s e K" and "t \<in> set (jobs d)" and "key_of t = K"
    and "lock_key s \<in> set (held_locks d)" and "try_locks w (others d e s) d = (True, d')"
  shows "lock_key (scope_of t) \<in> set (held_locks d')"
  using scope_among_others [OF assms(1-4)] try_locks_held [OF assms(6)] assms(5) by auto

lemma follow_instance_begins:
  assumes "wf_db d" and "\<And>j. j \<in> set (jobs d) \<Longrightarrow> jid j = i \<Longrightarrow> key_of j = K"
  shows "begins w K d (follow_instance w' i d)"
proof (cases "follow_instance w' i d = d")
  case True
  then show ?thesis using assms(1) by (simp add: same_rows_begins)
next
  case False
  then obtain j h where j: "job_of d i = Some j" "inst_of d j \<noteq> None"
    and eq: "follow_instance w' i d = write_jobs [i] (\<lambda>j. j\<lparr>host_id := h\<rparr>) d"
    by (auto simp: follow_instance_def bind_eq_Some_conv split: option.splits if_splits)
  have "instance_id j \<noteq> None" using j(2) by (cases "instance_id j") (auto simp: inst_of_def)
  then have "instance_id r \<noteq> None" if "r \<in> set (jobs d)" "jid r = i" for r
    using that j(1) job_of_Some [OF wf_dbD(1) [OF assms(1)]] same_jid [OF wf_dbD(1) [OF assms(1)]] by blast
  then show ?thesis
    unfolding eq by (intro write_jobs_begins) (use assms in auto)
qed

lemma lone_entry_key:
  assumes "wf_db d" and "in_queue d s e K" and "lone_entry d e"
  obtains j where "j \<in> set (jobs d)" "waiting_in s j" "K = Lone_id (jid j)" "e = [jid j]"
proof -
  obtain j where j: "j \<in> set (jobs d)" "waiting_in s j" "key_of j = K"
    using assms(2) by (auto simp: in_queue_def)
  then have "jid j \<in> set e" using in_queue_ids [OF assms(1,2)] by simp
  then have e: "e = [jid j]" "Option.bind (job_of d (jid j)) queue_chain_key = None"
    using assms(3) by (auto simp: lone_entry_def split: list.splits)
  moreover have "job_of d (jid j) = Some j" using j job_of_Some [OF wf_dbD(1) [OF assms(1)]] by blast
  ultimately have "queue_chain_key j = None" by simp
  then show thesis using that j e by auto
qed

lemma verdict_start:
  assumes "entry_verdict w e s d = (V_start, d1)"
  obtains d0 where "try_locks w (others d e s) d = (True, d0)" "\<not> entry_gone w d (records d e)"
    "(lone_entry d e \<and> d1 = follow_instance w (hd e) d0) \<or>
     (\<not> lone_entry d e \<and> d1 = d0 \<and>
      (\<forall>x \<in> set (others d e s). \<not> scope_busy w d x \<and> queue_held_by w d x = None))"
proof -
  obtain b d0 where lock: "try_locks w (others d e s) d = (b, d0)" by (cases "try_locks w (others d e s) d")
  note reads = same_rows_reads [OF try_locks_rows [OF lock]]
  have b: "b = True" using assms lock by (auto simp: entry_verdict_def Let_def simp flip: others_def split: bool.splits)
  show thesis
  proof (rule that)
    show "try_locks w (others d e s) d = (True, d0)" using lock b by simp
    show "\<not> entry_gone w d (records d e)"
      using assms lock b by (auto simp: entry_verdict_def Let_def reads simp flip: others_def)
    show "(lone_entry d e \<and> d1 = follow_instance w (hd e) d0) \<or>
     (\<not> lone_entry d e \<and> d1 = d0 \<and>
      (\<forall>x \<in> set (others d e s). \<not> scope_busy w d x \<and> queue_held_by w d x = None))"
      using assms lock b
      by (auto simp: entry_verdict_def Let_def reads list_all_iff ready_in_def simp flip: others_def
          split: if_splits)
  qed
qed

lemma held_hand_over_steps: "held_locks (hand_over_steps g st ids d) = held_locks d"
  by (induction g st ids d rule: hand_over_steps.induct) (auto simp: broadcast_def split: option.split)

lemma held_resolve_chain_refs:
  "resolve_chain_refs ids is d = Inr d' \<Longrightarrow> held_locks d' = held_locks d"
  by (induction ids "is" d rule: resolve_chain_refs.induct)
     (auto split: option.splits sum.splits)

lemma held_dispatch_entry:
  assumes "dispatch_entry w e d = Inr d'"
  shows "held_locks d' = held_locks d"
proof (cases "lone_entry d e")
  case True
  then show ?thesis using assms
    by (auto simp: dispatch_entry_def dispatch_single_def broadcast_def split: option.splits)
next
  case False
  then show ?thesis using assms
    by (cases "resolve_chain_refs e e d")
       (auto simp: dispatch_entry_def dispatch_chain_def held_hand_over_steps dest: held_resolve_chain_refs)
qed

text \<open>What is true when an entry is started: it is the whole entry \<open>K\<close> of the
  queue, none of its targets was occupied, and the locks of all its queues are
  held.\<close>

definition started :: "world \<Rightarrow> scope \<Rightarrow> nat list \<Rightarrow> entry_key \<Rightarrow> db \<Rightarrow> db \<Rightarrow> bool" where
  "started w s e K d d' \<longleftrightarrow>
     in_queue d s e K \<and> begins w K d d' \<and> \<not> entry_gone w d (records d e) \<and>
     (\<forall>t \<in> set (jobs d). key_of t = K \<longrightarrow>
        \<not> scope_busy w d (scope_of t) \<and> lock_key (scope_of t) \<in> set (held_locks d'))"

lemma start_free:
  assumes wf: "wf_db d" and q: "in_queue d s e K" and free: "\<not> scope_busy w d s"
    and v: "entry_verdict w e s d = (V_start, d1)" and t: "t \<in> set (jobs d)" "key_of t = K"
  shows "\<not> scope_busy w d (scope_of t)"
proof (cases "lone_entry d e")
  case True
  then obtain j where j: "j \<in> set (jobs d)" "waiting_in s j" "K = Lone_id (jid j)"
    using lone_entry_key [OF wf q] by blast
  then have "t = j" using t same_jid [OF wf_dbD(1) [OF wf]] by (auto simp: key_of_eq)
  then have "in_scope s = in_scope (scope_of t)"
    using j in_scope_scope_of wf_dbD(7) [OF wf] by (auto simp: waiting_in_def)
  then show ?thesis using free scope_busy_cong by blast
next
  case False
  show ?thesis
    by (rule verdict_start [OF v]) (use scope_among_others [OF wf q t] free False in auto)
qed

lemma dispatch_entry_begins:
  assumes "wf_db d" and "\<And>j. j \<in> set (jobs d) \<Longrightarrow> jid j \<in> set e \<Longrightarrow> key_of j = K"
    and "dispatch_entry w e d = Inr d'" and "e \<noteq> []"
  shows "begins w K d d'"
proof (cases "lone_entry d e")
  case True
  then have "d' = dispatch_single w (hd e) d" using assms(3) by (simp add: dispatch_entry_def)
  then show ?thesis using dispatch_single_begins [OF assms(1), of "hd e" K w w] assms(2,4) by simp
next
  case False
  then have "dispatch_chain e d = Inr d'" using assms(3) by (simp add: dispatch_entry_def)
  then show ?thesis using dispatch_chain_begins [OF assms(1), of e K d' w] assms(2) by blast
qed

lemma start_begins:
  assumes wf: "wf_db d" and q: "in_queue d s e K"
    and v: "entry_verdict w e s d = (V_start, d1)" and go: "dispatch_entry w e d1 = Inr d'"
  shows "begins w K d d'"
proof -
  obtain d0 where d0: "try_locks w (others d e s) d = (True, d0)"
    and d1: "d1 = follow_instance w (hd e) d0 \<or> d1 = d0"
    by (rule verdict_start [OF v]) blast
  have ne: "e \<noteq> []" using in_queue_members [OF wf q] q by (auto simp: in_queue_def)
  have K: "key_of j = K" if "j \<in> set (jobs d)" "jid j \<in> set e" for j
    using that in_queue_ids [OF wf q] by blast
  have b0: "begins w K d d0"
    by (rule same_rows_begins [OF try_locks_rows [OF d0] wf]) (use try_locks_held [OF d0] in auto)
  have "key_of j = K" if "j \<in> set (jobs d0)" "jid j = hd e" for j
    using begins_keys [OF b0, of "set e"] K that ne by simp
  then have "begins w K d0 d1"
    using d1 follow_instance_begins [OF begins_wf [OF b0]] same_rows_begins [of d0 d0] begins_wf [OF b0]
    by auto
  then have b1: "begins w K d d1" by (rule begins_trans [OF b0])
  have "begins w K d1 d'"
    by (rule dispatch_entry_begins [OF begins_wf [OF b1] _ go ne])
      (use begins_keys [OF b1, of "set e"] K in blast)
  then show ?thesis by (rule begins_trans [OF b1])
qed

lemma entry_started:
  assumes wf: "wf_db d" and q: "in_queue d s e K" and free: "\<not> scope_busy w d s"
    and lock: "lock_key s \<in> set (held_locks d)"
    and v: "entry_verdict w e s d = (V_start, d1)" and go: "dispatch_entry w e d1 = Inr d'"
  shows "started w s e K d d'"
proof -
  obtain d0 where d0: "try_locks w (others d e s) d = (True, d0)" "\<not> entry_gone w d (records d e)"
    and d1: "d1 = follow_instance w (hd e) d0 \<or> d1 = d0"
    by (rule verdict_start [OF v]) blast
  have "held_locks d1 = held_locks d0"
    using d1 by (auto simp: follow_instance_def split: option.splits)
  then have "held_locks d' = held_locks d0" using held_dispatch_entry [OF go] by simp
  then have "lock_key (scope_of t) \<in> set (held_locks d')" if "t \<in> set (jobs d)" "key_of t = K" for t
    using entry_locked [OF wf q that lock d0(1)] by simp
  then show ?thesis
    unfolding started_def
    using q d0(2) start_free [OF wf q free v] start_begins [OF wf q v go] by blast
qed

lemma verdict_cancelled:
  assumes "hooks_ok w" and "wf_db d" and "in_queue d s e K" and "lock_key s \<in> set (held_locks d)"
    and "entry_verdict w e s d = (V_cancelled, d1)"
  shows "settles w (set e) d d1 \<and>
         (\<forall>t \<in> set (jobs d). key_of t = K \<longrightarrow> lock_key (scope_of t) \<in> set (held_locks d1))"
proof -
  obtain b d0 where lock: "try_locks w (others d e s) d = (b, d0)"
    by (cases "try_locks w (others d e s) d")
  note rows = try_locks_rows [OF lock]
  have b: "b = True" and d1: "d1 = snd (cancel_queued w e Instance_gone (Some s) False d0)"
    using assms(5) lock
    by (auto simp: entry_verdict_def Let_def simp flip: others_def split: bool.splits if_splits)
  have s0: "settles w {} d d0"
    by (rule same_rows_settles [OF rows assms(2)]) (use try_locks_held [OF lock] in auto)
  obtain cs where c: "cancel_queued w e Instance_gone (Some s) False d0 = (cs, d1)"
    using d1 by (cases "cancel_queued w e Instance_gone (Some s) False d0") auto
  have "set cs \<subseteq> set e"
    using c in_queue_with_chains [OF assms(2,3)] in_queue_ids [OF assms(2,3)] rows
    by (auto simp: cancel_queued_def Let_def same_rows_reads split: if_splits)
  then have s1: "settles w (set e) d0 d1"
    using cancel_queued_settles [OF assms(1) settles_wf [OF s0] c] settles_mono by blast
  moreover have "lock_key (scope_of t) \<in> set (held_locks d1)" if "t \<in> set (jobs d)" "key_of t = K" for t
    using entry_locked [OF assms(2,3) that assms(4)] lock b s1 by (auto simp: settles_def)
  ultimately show ?thesis using settles_trans_empty(1) [OF s0] by blast
qed

lemma verdict_wait:
  assumes "entry_verdict w e s d = (V_wait, d1)"
  shows "same_rows d d1 \<and> set (held_locks d) \<subseteq> set (held_locks d1)"
proof -
  obtain b d0 where lock: "try_locks w (others d e s) d = (b, d0)"
    by (cases "try_locks w (others d e s) d")
  then have "d1 = d0"
    using assms by (auto simp: entry_verdict_def Let_def simp flip: others_def split: bool.splits if_splits)
  then show ?thesis using try_locks_rows [OF lock] try_locks_held [OF lock] by simp
qed

text \<open>The outcome of a pass: first some entries whose instance is gone are
  cancelled, under the locks of their queues, then nothing or one entry is
  started.\<close>

definition outcome :: "world \<Rightarrow> scope \<Rightarrow> db \<Rightarrow> nat list \<Rightarrow> db \<Rightarrow> bool" where
  "outcome w s d e d' \<longleftrightarrow>
     (\<exists>d0 S. settles w S d d0 \<and>
        (\<forall>j \<in> set (jobs d). jid j \<in> S \<longrightarrow> lock_key (scope_of j) \<in> set (held_locks d0)) \<and>
        (if e = [] then same_rows d0 d' \<and> set (held_locks d0) \<subseteq> set (held_locks d')
         else \<exists>K. started w s e K d0 d'))"

lemma outcome_nothing:
  assumes "wf_db d" and "same_rows d d'" and "set (held_locks d) \<subseteq> set (held_locks d')"
  shows "outcome w s d [] d'"
  unfolding outcome_def
  using assms same_rows_settles [of d d] by (intro exI [of _ d] exI [of _ "{}"]) auto

lemma outcome_after_cancel:
  assumes "wf_db d" and "in_queue d s e1 K" and "settles w (set e1) d d1"
    and locked: "\<And>t. t \<in> set (jobs d) \<Longrightarrow> key_of t = K \<Longrightarrow> lock_key (scope_of t) \<in> set (held_locks d1)"
    and "outcome w s d1 e d'"
  shows "outcome w s d e d'"
proof -
  obtain d0 S where o: "settles w S d1 d0"
    "\<And>j. j \<in> set (jobs d1) \<Longrightarrow> jid j \<in> S \<Longrightarrow> lock_key (scope_of j) \<in> set (held_locks d0)"
    "if e = [] then same_rows d0 d' \<and> set (held_locks d0) \<subseteq> set (held_locks d')
     else \<exists>K. started w s e K d0 d'"
    using assms(5) unfolding outcome_def by blast
  have "lock_key (scope_of j) \<in> set (held_locks d0)"
    if j: "j \<in> set (jobs d)" "jid j \<in> set e1 \<union> S" for j
  proof (cases "jid j \<in> set e1")
    case True
    then have "key_of j = K" using in_queue_ids [OF assms(1,2) j(1)] by simp
    then show ?thesis using locked [OF j(1)] o(1) by (auto simp: settles_def)
  next
    case False
    then show ?thesis using j assms(3) o(2) by (auto simp: settles_def)
  qed
  then show ?thesis
    unfolding outcome_def using settles_trans [OF assms(3) o(1)] o(3) by blast
qed

lemma dispatch_loop_outcome:
  assumes "hooks_ok w" and "wf_db d" and "\<not> scope_busy w d s" and "lock_key s \<in> set (held_locks d)"
    and "\<And>e. e \<in> set es \<Longrightarrow> \<exists>K. in_queue d s e K" and "distinct (concat es)"
    and "dispatch_loop w s h es d = Inr (e, d')"
  shows "outcome w s d e d'"
  using assms
proof (induction w s h es d rule: dispatch_loop.induct)
  case (1 w s h d)
  then show ?case by (auto intro: outcome_nothing)
next
  case (2 w s h e1 es d)
  show ?case
  proof (cases "h \<noteq> [] \<and> \<not> (case records d e1 of [] \<Rightarrow> False | j # _ \<Rightarrow> passes_hold w d j h)")
    case True
    then show ?thesis using 2 by simp
  next
    case pass: False
    obtain v d1 where v: "entry_verdict w e1 s d = (v, d1)" by (cases "entry_verdict w e1 s d")
    obtain K where K: "in_queue d s e1 K" using "2.prems"(5) by auto
    show ?thesis
    proof (cases v)
      case V_start
      then obtain d2 where "dispatch_entry w e1 d1 = Inr d2" "e = e1" "d' = d2"
        using "2.prems"(7) pass v by (cases "dispatch_entry w e1 d1") (auto split: if_splits)
      then have "started w s e K d d'" using entry_started [OF "2.prems"(2) K "2.prems"(3,4)] v V_start by simp
      moreover have "e \<noteq> []"
        using K in_queue_members [OF "2.prems"(2) K] \<open>e = e1\<close> by (auto simp: in_queue_def)
      ultimately show ?thesis
        unfolding outcome_def using same_rows_settles [of d d] "2.prems"(2)
        by (intro exI [of _ d] exI [of _ "{}"]) auto
    next
      case V_wait
      then show ?thesis
        using outcome_nothing [OF "2.prems"(2)] verdict_wait [of w e1 s d d1] v pass "2.prems"(7)
        by (auto split: if_splits)
    next
      case V_cancelled
      have c: "settles w (set e1) d d1"
        "\<And>t. t \<in> set (jobs d) \<Longrightarrow> key_of t = K \<Longrightarrow> lock_key (scope_of t) \<in> set (held_locks d1)"
        using verdict_cancelled [OF "2.prems"(1,2) K "2.prems"(4)] v V_cancelled by auto
      have q: "\<exists>K. in_queue d1 s x K" if "x \<in> set es" for x
      proof -
        obtain K' where "in_queue d s x K'" using "2.prems"(5) \<open>x \<in> set es\<close> by auto
        moreover have "set x \<inter> set e1 = {}" using "2.prems"(6) that by auto
        ultimately show ?thesis using in_queue_settles [OF _ c(1) _ "2.prems"(2)] by blast
      qed
      have "quieter w d d1" "set (held_locks d) \<subseteq> set (held_locks d1)"
        using c(1) by (auto simp: settles_def)
      then have free: "\<not> scope_busy w d1 s" "lock_key s \<in> set (held_locks d1)"
        using quieter_busy "2.prems"(3,4) by blast+
      have rest: "distinct (concat es)" "dispatch_loop w s h es d1 = Inr (e, d')"
        using "2.prems"(6,7) pass v V_cancelled by (auto simp only: dispatch_loop.simps if_False split: prod.splits verdict.splits) auto
      have "outcome w s d1 e d'"
        by (rule "2.IH"(2) [OF pass v [symmetric] V_cancelled "2.prems"(1) settles_wf [OF c(1)] free q rest])
      then show ?thesis using outcome_after_cancel [OF "2.prems"(2) K c(1)] c(2) by blast
    qed
  qed
qed

lemma lock_scopes_held [simp]: "held_locks (lock_scopes [s] d) = held_locks d @ [lock_key s]"
  by (simp add: lock_scopes_def)

lemma queue_entries_in_queue:
  assumes "wf_db d" and "e \<in> set (queue_entries d s)"
  shows "\<exists>K. in_queue d s e K"
  by (rule in_queue_entries [OF wf_dbD(1) [OF assms(1)] assms(2)]) (auto simp: in_queue_def)

lemma dispatch_next_outcome:
  assumes "hooks_ok w" and "wf_db d" and "dispatch_next w s d = Inr (e, d')"
  shows "outcome w s (lock_scopes [s] d) e d'"
proof -
  let ?d = "lock_scopes [s] d"
  have wf: "wf_db ?d" using assms(2) by (simp add: same_rows_reads [OF same_rows_ops(1)])
  show ?thesis
  proof (cases "scope_busy w ?d s")
    case True
    then show ?thesis using assms(3) outcome_nothing [OF wf, of ?d] by (simp add: dispatch_next_def)
  next
    case False
    then have "dispatch_loop w s (holding_jobs w ?d s) (queue_entries ?d s) ?d = Inr (e, d')"
      using assms(3) by (simp add: dispatch_next_def Let_def)
    then show ?thesis
      by (rule dispatch_loop_outcome [OF assms(1) wf False _ queue_entries_in_queue [OF wf]
          distinct_entries [OF wf_dbD(1) [OF wf]], rotated 2]) simp_all
  qed
qed

lemma same_rows_serial: "same_rows d d' \<Longrightarrow> serial w d' = serial w d"
  unfolding serial_def by (simp only: same_rows_reads)

lemma outcome_keeps:
  assumes "outcome w s d e d'" and "wf_db d" and "serial w d"
  shows "wf_db d' \<and> serial w d' \<and>
         (\<forall>j \<in> set (jobs d). j \<in> set (jobs d') \<or> lock_key (scope_of j) \<in> set (held_locks d'))"
proof -
  obtain d0 S where o: "settles w S d d0"
    and locked: "\<And>j. j \<in> set (jobs d) \<Longrightarrow> jid j \<in> S \<Longrightarrow> lock_key (scope_of j) \<in> set (held_locks d0)"
    and e: "if e = [] then same_rows d0 d' \<and> set (held_locks d0) \<subseteq> set (held_locks d')
       else \<exists>K. started w s e K d0 d'"
    using assms(1) unfolding outcome_def by blast
  have q: "quieter w d d0" using o by (simp add: settles_def)
  have ser: "serial w d0" by (rule quieter_serial [OF q assms(3) wf_dbD(2) [OF assms(2)]])
  note wf0 = settles_wf [OF o]
  have "wf_db d' \<and> serial w d' \<and> set (held_locks d0) \<subseteq> set (held_locks d') \<and>
        (\<forall>j \<in> set (jobs d0). j \<in> set (jobs d') \<or> lock_key (scope_of j) \<in> set (held_locks d'))"
  proof (cases "e = []")
    case True
    then have rows: "same_rows d0 d'" "set (held_locks d0) \<subseteq> set (held_locks d')" using e by auto
    then show ?thesis
      using ser wf0 by (simp only: same_rows_serial same_rows_reads(6,9)) blast
  next
    case False
    then obtain K where K: "started w s e K d0 d'" using e by auto
    then have "serial w d'"
      by (intro begins_serial [OF _ ser wf0]) (auto simp: started_def)
    then show ?thesis using K unfolding started_def begins_def by blast
  qed
  then show ?thesis using o locked unfolding settles_def by blast
qed

lemma dispatch_next_keeps:
  assumes "hooks_ok w" and "wf_db d" and "serial w d" and "dispatch_next w s d = Inr (e, d')"
  shows "wf_db d' \<and> serial w d' \<and>
         (\<forall>j \<in> set (jobs d). j \<in> set (jobs d') \<or> lock_key (scope_of j) \<in> set (held_locks d'))"
proof -
  let ?d = "lock_scopes [s] d"
  have rows: "same_rows d ?d" by (rule same_rows_ops)
  have "wf_db ?d" "serial w ?d"
    using assms(2,3) same_rows_reads(6) [OF rows] same_rows_serial [OF rows] by blast+
  from outcome_keeps [OF dispatch_next_outcome [OF assms(1,2,4)] this] show ?thesis
    unfolding same_rows_reads(9) [OF rows] .
qed

text \<open>The core's world meets these hypotheses: the base executor's hooks do
  nothing.\<close>

lemma core_hooks_ok: "hooks_ok (core_world d)"
  by (simp add: hooks_ok_def hook_effect_def core_world_def)

lemma shop_wf: "wf_db shop_db"
  by code_simp

lemma shop_serial: "serial (core_world shop_db) shop_db"
  by code_simp

lemma shop_dispatch:
  "(case dispatch_next (core_world shop_db) (Some 7, None) shop_db of
      Inl _ \<Rightarrow> False
    | Inr (e, d') \<Rightarrow> e = [4] \<and> map state (jobs d') = [Some Queued, Some Queued, Some Queued, Some Pending] \<and>
        jobs shop_db ! 3 \<notin> set (jobs d'))"
  by code_simp

text \<open>One at a time. In a state where everything that occupies a target belongs
  to one entry (one job, or one chain), a pass of the dispatcher over any queue,
  whatever it cancels and starts, leaves a state where that is so again.\<close>

theorem dispatch_starts_one_at_a_time:
  assumes "hooks_ok w" and "wf_db d" and "serial w d" and "dispatch_next w s d = Inr (e, d')"
  shows "wf_db d' \<and> serial w d'"
  using dispatch_next_keeps [OF assms] by blast

theorem dispatch_starts_one_at_a_time_witness:
  "\<exists>d'. dispatch_next (core_world shop_db) (Some 7, None) shop_db = Inr ([4], d') \<and>
        wf_db d' \<and> serial (core_world shop_db) d'"
proof -
  obtain d' where d': "dispatch_next (core_world shop_db) (Some 7, None) shop_db = Inr ([4], d')"
    using shop_dispatch by (cases "dispatch_next (core_world shop_db) (Some 7, None) shop_db") auto
  then show ?thesis
    using dispatch_starts_one_at_a_time [OF core_hooks_ok shop_wf shop_serial d'] by blast
qed

text \<open>Lock discipline. Every job row a pass of the dispatcher changes, in its
  own queue or in the other queues of a chain, it changes holding the advisory
  lock of the queue that row belongs to.\<close>

theorem dispatch_writes_under_locks:
  assumes "hooks_ok w" and "wf_db d" and "serial w d" and "dispatch_next w s d = Inr (e, d')"
    and "j \<in> set (jobs d)" and "j \<notin> set (jobs d')"
  shows "lock_key (scope_of j) \<in> set (held_locks d')"
  using dispatch_next_keeps [OF assms(1-4)] assms(5,6) by blast

theorem dispatch_writes_under_locks_witness:
  "\<exists>d'. dispatch_next (core_world shop_db) (Some 7, None) shop_db = Inr ([4], d') \<and>
        lock_key (Some 7, None) \<in> set (held_locks d')"
proof -
  let ?j = "jobs shop_db ! 3"
  obtain d' where d': "dispatch_next (core_world shop_db) (Some 7, None) shop_db = Inr ([4], d')"
    and gone: "?j \<notin> set (jobs d')"
    using shop_dispatch by (cases "dispatch_next (core_world shop_db) (Some 7, None) shop_db") auto
  have j: "?j \<in> set (jobs shop_db)" "scope_of ?j = (Some 7, None)" by code_simp+
  then show ?thesis
    using dispatch_writes_under_locks [OF core_hooks_ok shop_wf shop_serial d' j(1) gone] d' by auto
qed

lemma records_Cons: "job_of d i = Some j \<Longrightarrow> records d (i # e) = j # records d e"
  by (simp add: records_def List.map_filter_def)

lemma entry_first:
  assumes "wf_db d" and "e \<in> set (queue_entries d s)"
  obtains i e' j where "e = i # e'" "job_of d i = Some j" "records d e = j # records d e'"
proof -
  obtain K where K: "in_queue d s e K" using queue_entries_in_queue [OF assms] by blast
  then have "e \<noteq> []" using in_queue_members [OF assms(1) K] by (auto simp: in_queue_def)
  then obtain i e' where e: "e = i # e'" by (cases e) auto
  then obtain j where "job_of d i = Some j"
    using in_queue_members [OF assms(1) K] job_of_Some [OF wf_dbD(1) [OF assms(1)]] by force
  then show thesis using that e records_Cons by blast
qed

text \<open>C29. A held queue. While a failure of a holding type is open on a target, and
  nothing that waits there is a retry of it, a delete, the rollback of a move or
  a new attempt at what failed, a pass of the dispatcher changes nothing.\<close>

theorem held_queue_stays:
  assumes "holding_jobs w d s \<noteq> []"
    and "\<And>e j. e \<in> set (queue_entries d s) \<Longrightarrow> job_of d (hd e) = Some j \<Longrightarrow>
           \<not> passes_hold w d j (holding_jobs w d s)"
    and "wf_db d"
  shows "dispatch_next w s d = Inr ([], lock_scopes [s] d)"
proof -
  let ?d = "lock_scopes [s] d"
  note reads = same_rows_reads [OF same_rows_ops(1) [of d "[s]"]]
  have "dispatch_loop w s (holding_jobs w d s) es ?d = Inr ([], ?d)"
    if "set es \<subseteq> set (queue_entries d s)" for es
    using that
  proof (induction es)
    case (Cons e es)
    then obtain i e' j where "e = i # e'" "job_of d i = Some j" "records d e = j # records d e'"
      using entry_first [OF assms(3)] by (metis list.set_intros(1) subset_code(1))
    then have "\<not> (case records ?d e of [] \<Rightarrow> False | j # _ \<Rightarrow> passes_hold w ?d j (holding_jobs w d s))"
      using assms(2) [of e j] Cons.prems by (simp add: reads)
    then show ?case using Cons assms(1) by simp
  qed simp
  then show ?thesis by (simp add: dispatch_next_def Let_def reads)
qed

text \<open>A target whose deploy failed, with its alert open and a restart waiting.\<close>

definition held_db :: db where
  "held_db = empty_db\<lparr>
     jobs := [blank_job\<lparr>jid := 1, job_type_id := ''deploy_instance'', state := Some Failed,
                instance_id := Some 7\<rparr>,
              blank_job\<lparr>jid := 2, state := Some Queued, instance_id := Some 7, create_date := 4\<rparr>],
     alerts := [\<lparr>a_id = 1, a_code = ''job_failed'', a_active = True, a_critical = True, a_was_critical = True, a_key = None,
                 a_job_id = Some 1, a_instance_id = Some 7, a_host_id = Some 1\<rparr>],
     instances := (\<lambda>i. if i = 7 then Some live_instance else None),
     types := (\<lambda>c. Some ((blank_type c)\<lparr>failure_holds_queue := (c = ''deploy_instance'')\<rparr>)),
     next_job_id := 3, next_alert_id := 2\<rparr>"

theorem held_queue_stays_witness:
  "holding_jobs (core_world held_db) held_db (Some 7, None) = [1] \<and>
   queue_entries held_db (Some 7, None) = [[2]] \<and>
   dispatch_next (core_world held_db) (Some 7, None) held_db =
     Inr ([], lock_scopes [(Some 7, None)] held_db)"
proof -
  have h: "holding_jobs (core_world held_db) held_db (Some 7, None) = [1]" by code_simp
  have q: "queue_entries held_db (Some 7, None) = [[2]]" by code_simp
  have j: "job_of held_db 2 = Some (jobs held_db ! 1)" by code_simp
  have p: "\<not> passes_hold (core_world held_db) held_db (jobs held_db ! 1) [1]" by code_simp
  have wf: "wf_db held_db" by code_simp
  have "dispatch_next (core_world held_db) (Some 7, None) held_db =
     Inr ([], lock_scopes [(Some 7, None)] held_db)"
    by (rule held_queue_stays) (use h q j p wf in auto)
  then show ?thesis using h q by blast
qed

section \<open>Progress\<close>

lemma job_of_hand_over:
  assumes "wf_db d"
  shows "job_of (hand_over i q st d) k =
     map_option (\<lambda>j. if k = i then j\<lparr>queue_job_uuid := Some (q_uuid q), state := Some st\<rparr> else j) (job_of d k)"
  using wf_dbD(1) [OF assms] by (simp add: job_of_def wf_ids_def cloud_jobs.browse_write)

lemma new_queue_job_found:
  assumes "wf_db d" and "q_uuid q = next_uuid d"
  shows "browse_row q_uuid (qjobs d @ [q]) (next_uuid d) = Some q"
proof -
  have "distinct (map q_uuid (qjobs d @ [q]))"
    using wf_dbD(1,4) [OF assms(1)] assms(2) by (fastforce simp: wf_ids_def)
  then show ?thesis using assms(2) queue_jobs.browse_Some [of "qjobs d @ [q]"] by simp
qed

lemma dispatch_single_job:
  assumes "wf_db d" and "job_of d i = Some j"
  shows "job_of (dispatch_single w i d) i =
           Some (j\<lparr>queue_job_uuid := Some (next_uuid d), state := Some Pending\<rparr>)"
    and "queue_job_of (dispatch_single w i d) (j\<lparr>queue_job_uuid := Some (next_uuid d), state := Some Pending\<rparr>)
           = Some (new_queue_job d j (max_retries_of w j))"
proof -
  let ?q = "new_queue_job d j (max_retries_of w j)"
  have d': "same_rows (hand_over i ?q Pending d) (dispatch_single w i d)"
    using assms(2) by (simp add: dispatch_single_def rows_simps)
  show "job_of (dispatch_single w i d) i =
           Some (j\<lparr>queue_job_uuid := Some (next_uuid d), state := Some Pending\<rparr>)"
    using assms by (simp add: same_rows_reads(1) [OF d'] job_of_hand_over)
  show "queue_job_of (dispatch_single w i d) (j\<lparr>queue_job_uuid := Some (next_uuid d), state := Some Pending\<rparr>)
           = Some ?q"
    using assms d' new_queue_job_found [OF assms(1), of ?q] by (simp add: queue_job_of_def same_rows_def)
qed

lemma new_queue_job_user [simp]:
  "q_user (new_queue_job d j n) = create_uid j"
  "q_su (new_queue_job d j n) = (asked_as_superuser j \<or> create_uid j = 1)"
  "q_state (new_queue_job d j n) = Pending"
  by (simp_all add: new_queue_job_def as_its_creator_def split: prod.split)

lemma follow_instance_job:
  assumes "wf_db d" and "job_of d i = Some j"
  obtains h where "job_of (follow_instance w i d) i = Some (j\<lparr>host_id := h\<rparr>)"
    "qjobs (follow_instance w i d) = qjobs d" "next_uuid (follow_instance w i d) = next_uuid d"
proof (cases "follow_instance w i d = d")
  case True
  then show ?thesis using that [of "host_id j"] assms(2) by simp
next
  case False
  then obtain h where eq: "follow_instance w i d = write_jobs [i] (\<lambda>j. j\<lparr>host_id := h\<rparr>) d"
    by (auto simp: follow_instance_def split: option.splits if_splits)
  have "job_of (write_jobs [i] (\<lambda>j. j\<lparr>host_id := h\<rparr>) d) i = Some (j\<lparr>host_id := h\<rparr>)"
    using assms wf_dbD(1) [OF assms(1)]
    by (simp add: job_of_def jobs_write_jobs wf_ids_def cloud_jobs.browse_write)
  then show ?thesis using that [of h] eq by simp
qed

text \<open>C30. Progress. On a free target whose queue nothing holds, a lone job that is
  first in the queue and whose instance is live starts: the pass returns it,
  pending, handed to a queue.job of its own that will run as the job's creator,
  as the superuser only if the job was asked for with those rights.\<close>

theorem free_queue_moves:
  assumes "wf_db d" and "\<not> scope_busy w d s" and "holding_jobs w d s = []"
    and "queue_entries d s = [i] # es" and "job_of d i = Some j" and "queue_chain_key j = None"
    and "s = scope_of j" and "\<not> entry_gone w d [j]"
  shows "\<exists>d' j' q. dispatch_next w s d = Inr ([i], d') \<and> job_of d' i = Some j' \<and>
           state j' = Some Pending \<and> queue_job_of d' j' = Some q \<and> q_state q = Pending \<and>
           q_user q = create_uid j \<and> (q_su q \<longleftrightarrow> asked_as_superuser j \<or> create_uid j = 1)"
proof -
  let ?d = "lock_scopes [s] d"
  note reads = same_rows_reads [OF same_rows_ops(1) [of d "[s]"]]
  have wf: "wf_db ?d" and j: "job_of ?d i = Some j" using assms(1,5) by (simp_all add: reads)
  have rec: "records d [i] = [j]" using assms(5) by (simp add: records_Cons) (simp add: records_def List.map_filter_def)
  have lone: "lone_entry d [i]" using assms(5,6) by (simp add: lone_entry_def)
  have "with_chains d [j] = [j]" using assms(6) by (auto simp: with_chains_def filter_empty_conv)
  then have sc: "queue_scopes_of d [j] = [s]" using assms(7) by (simp add: queue_scopes_of_def)
  have v: "entry_verdict w [i] s ?d = (V_start, follow_instance w i ?d)"
    using lone assms(8) by (simp add: entry_verdict_def Let_def reads rec sc)
  obtain h where f: "job_of (follow_instance w i ?d) i = Some (j\<lparr>host_id := h\<rparr>)"
    using follow_instance_job [OF wf j] by blast
  let ?d' = "dispatch_single w i (follow_instance w i ?d)"
  have "dispatch_entry w [i] (follow_instance w i ?d) = Inr ?d'"
    using f assms(6) by (simp add: dispatch_entry_def lone_entry_def)
  then have go: "dispatch_next w s d = Inr ([i], ?d')"
    using assms(2,3,4) v by (simp add: dispatch_next_def Let_def reads)
  have wf': "wf_db (follow_instance w i ?d)"
    using begins_wf [OF follow_instance_begins [OF wf, of i "key_of j" w w]]
      j job_of_Some [OF wf_dbD(1) [OF wf]] same_jid [OF wf_dbD(1) [OF wf]] by blast
  show ?thesis
    using go dispatch_single_job [OF wf' f, of w]
    by (intro exI [of _ ?d'] exI conjI) auto
qed

theorem free_queue_moves_witness:
  "\<exists>d' j' q. dispatch_next (core_world shop_db) (Some 7, None) shop_db = Inr ([4], d') \<and>
     job_of d' 4 = Some j' \<and> state j' = Some Pending \<and> queue_job_of d' j' = Some q \<and>
     q_state q = Pending \<and> q_user q = 2 \<and> \<not> q_su q"
proof -
  let ?j = "jobs shop_db ! 3"
  have "queue_entries shop_db (Some 7, None) = [4] # [[1], [2, 3]]" "job_of shop_db 4 = Some ?j"
    "holding_jobs (core_world shop_db) shop_db (Some 7, None) = []" by code_simp+
  moreover have "queue_chain_key ?j = None" "(Some 7, None) = scope_of ?j"
    "create_uid ?j = 2" "asked_as_superuser ?j = False" by code_simp+
  moreover have "\<not> scope_busy (core_world shop_db) shop_db (Some 7, None)"
    "\<not> entry_gone (core_world shop_db) shop_db [?j]" by code_simp+
  ultimately show ?thesis
    using free_queue_moves [OF shop_wf, of "core_world shop_db" "(Some 7, None)" 4 "[[1], [2, 3]]" ?j]
    by simp
qed

end
