(* ===== verification/Alerts.thy ===== *)
theory Alerts
  imports Dispatch_Facts
begin

text \<open>
  Alerts as the queue uses them (\<^verbatim>\<open>models/cloud_alert.py\<close>): their identity,
  raising an event's alert, closing alerts, and what closing one does to the
  queue it held (\<^verbatim>\<open>cloud.job._on_holding_alert_closed\<close>). The codes the queue
  raises have no row in \<^verbatim>\<open>cloud.alert.policy\<close> and exist at the first sighting; the
  confirmation of measurements by repeated sightings is in \<open>Alert_Confirm\<close>.
\<close>

section \<open>Operations\<close>

text \<open>\<^verbatim>\<open>_dedup_domain\<close>, for alerts on no project of their own.\<close>

definition dedup_match :: "string \<Rightarrow> nat option \<Rightarrow> nat option \<Rightarrow> string option \<Rightarrow> alert \<Rightarrow> bool" where
  "dedup_match c host inst key a \<longleftrightarrow>
     a_code a = c \<and> a_active a \<and> a_instance_id a = inst \<and> a_key a = key \<and>
     (inst = None \<longrightarrow> a_host_id a = host)"

text \<open>\<^verbatim>\<open>raise_alert\<close>: refresh the active alert of the same identity, or create
  one. The result is the alert's id.\<close>

definition raise_alert ::
  "string \<Rightarrow> bool \<Rightarrow> nat option \<Rightarrow> nat option \<Rightarrow> nat option \<Rightarrow> string option \<Rightarrow> db \<Rightarrow> nat \<times> db" where
  "raise_alert c critical host inst job key d =
     (case find (dedup_match c host inst key) (alerts d) of
        Some a \<Rightarrow>
          (a_id a, d\<lparr>alerts := write_rows a_id (\<lambda>i. i = a_id a)
             (\<lambda>x. x\<lparr>a_critical := critical,
                     a_was_critical := a_was_critical x \<or> (critical \<and> \<not> a_critical x),
                     a_job_id := (if job = None then a_job_id x else job),
                     a_host_id := (if host = None then a_host_id x else host)\<rparr>) (alerts d)\<rparr>)
      | None \<Rightarrow>
          (next_alert_id d, d\<lparr>alerts := alerts d @
             [\<lparr>a_id = next_alert_id d, a_code = c, a_active = True, a_critical = critical,
               a_was_critical = critical,
               a_key = key, a_job_id = job, a_instance_id = inst, a_host_id = host\<rparr>],
             next_alert_id := Suc (next_alert_id d)\<rparr>))"

definition on_holding_alert_closed :: "world \<Rightarrow> alert list \<Rightarrow> db \<Rightarrow> db" where
  "on_holding_alert_closed w as d =
     schedule_dispatch
       (uniq (List.map_filter
          (\<lambda>a. if a_code a \<in> set (queue_holding_alert_codes w)
               then map_option scope_of (Option.bind (a_job_id a) (job_of d)) else None) as)) d"

text \<open>\<^verbatim>\<open>write({"state": "dismissed"})\<close> on a set of alerts.\<close>

definition dismiss_alerts :: "world \<Rightarrow> nat list \<Rightarrow> db \<Rightarrow> db" where
  "dismiss_alerts w ids d =
     (let closing = filter (\<lambda>a. a_id a \<in> set ids \<and> a_active a) (alerts d);
          d' = d\<lparr>alerts := write_rows a_id (\<lambda>i. i \<in> set ids) (\<lambda>a. a\<lparr>a_active := False\<rparr>) (alerts d)\<rparr>
      in if closing = [] then d' else on_holding_alert_closed w closing d')"

text \<open>\<^verbatim>\<open>resolve_alert\<close>: close the active alert of an identity, if there is one.\<close>

definition resolve_alert ::
  "world \<Rightarrow> string \<Rightarrow> nat option \<Rightarrow> nat option \<Rightarrow> string option \<Rightarrow> db \<Rightarrow> db" where
  "resolve_alert w c host inst key d =
     (let active = map a_id (filter (dedup_match c host inst key) (alerts d))
      in if active = [] then d else dismiss_alerts w active d)"

section \<open>One active alert per identity\<close>

definition alert_identity :: "alert \<Rightarrow> string \<times> nat option \<times> nat option \<times> string option" where
  "alert_identity a =
     (a_code a, a_instance_id a, if a_instance_id a = None then a_host_id a else None, a_key a)"

definition wf_alerts :: "db \<Rightarrow> bool" where
  "wf_alerts d \<longleftrightarrow>
     distinct (map a_id (alerts d)) \<and> (\<forall>a \<in> set (alerts d). a_id a < next_alert_id d) \<and>
     distinct (map alert_identity (filter a_active (alerts d)))"

lemma dedup_identity:
  "dedup_match c host inst key a \<longleftrightarrow>
     a_active a \<and> alert_identity a = (c, inst, if inst = None then host else None, key)"
  by (auto simp: dedup_match_def alert_identity_def)

lemma distinct_map_filter_mono:
  "distinct (map f (filter P xs)) \<Longrightarrow> (\<And>x. Q x \<Longrightarrow> P x) \<Longrightarrow> distinct (map f (filter Q xs))"
  by (induction xs) (auto split: if_splits)

lemma filter_write_rows:
  assumes "\<And>r. r \<in> set rows \<Longrightarrow> sel (key r) \<Longrightarrow> P (f r) = P r"
  shows "filter P (write_rows key sel f rows) = write_rows key sel f (filter P rows)"
  using assms by (induction rows) (auto simp: write_rows_def)

text \<open>What a raise leaves: one active alert per identity, and the one asked for.\<close>

definition raised :: "string \<Rightarrow> bool \<Rightarrow> nat option \<Rightarrow> nat option \<Rightarrow> string option \<Rightarrow> nat \<Rightarrow> db \<Rightarrow> bool" where
  "raised c critical host inst key i d \<longleftrightarrow>
     wf_alerts d \<and>
     (\<exists>a \<in> set (alerts d). a_id a = i \<and> dedup_match c host inst key a \<and> a_critical a = critical)"

lemma raise_new:
  assumes "wf_alerts d" and "find (dedup_match c host inst key) (alerts d) = None"
    and "raise_alert c critical host inst job key d = (i, d')"
  shows "raised c critical host inst key i d'"
proof -
  let ?a = "\<lparr>a_id = next_alert_id d, a_code = c, a_active = True, a_critical = critical,
               a_was_critical = critical,
             a_key = key, a_job_id = job, a_instance_id = inst, a_host_id = host\<rparr>"
  have no: "\<forall>a \<in> set (alerts d). \<not> dedup_match c host inst key a"
    using assms(2) by (simp add: find_None_all)
  have d': "i = next_alert_id d" "alerts d' = alerts d @ [?a]" "next_alert_id d' = Suc (next_alert_id d)"
    using assms(2,3) by (auto simp: raise_alert_def)
  have a: "dedup_match c host inst key ?a" by (simp add: dedup_match_def)
  then have "alert_identity ?a \<notin> alert_identity ` set (filter a_active (alerts d))"
    using no by (auto simp: dedup_identity)
  then show ?thesis
    using assms(1) d' a by (auto simp: raised_def wf_alerts_def less_SucI)
qed

lemma raise_refresh:
  assumes "wf_alerts d" and "find (dedup_match c host inst key) (alerts d) = Some a"
    and "raise_alert c critical host inst job key d = (i, d')"
  shows "raised c critical host inst key i d'"
proof -
  have a: "a \<in> set (alerts d)" "dedup_match c host inst key a"
    using find_Some_set [OF assms(2)] by auto
  let ?f = "\<lambda>x. x\<lparr>a_critical := critical,
                   a_was_critical := a_was_critical x \<or> (critical \<and> \<not> a_critical x), a_job_id := (if job = None then a_job_id x else job),
                   a_host_id := (if host = None then a_host_id x else host)\<rparr>"
  have d': "i = a_id a" "alerts d' = write_rows a_id (\<lambda>k. k = a_id a) ?f (alerts d)"
    "next_alert_id d' = next_alert_id d"
    using assms(2,3) by (auto simp: raise_alert_def)
  have only: "x = a" if "x \<in> set (alerts d)" "a_id x = a_id a" for x
    using that a(1) assms(1) by (auto simp: wf_alerts_def distinct_map inj_on_def)
  have id: "alert_identity (?f a) = alert_identity a"
    using a(2) by (auto simp: alert_identity_def dedup_match_def)
  have same: "alert_identity (?f x) = alert_identity x" if "x \<in> set (alerts d)" "a_id x = a_id a" for x
    unfolding only [OF that] by (rule id)
  have ids: "map a_id (alerts d') = map a_id (alerts d)"
    unfolding d'(2) by (rule alert_rows.write_keys) simp
  have "map alert_identity (filter a_active (alerts d')) = map alert_identity (filter a_active (alerts d))"
    unfolding d'(2) by (subst filter_write_rows) (simp_all add: write_rows_def same)
  moreover have "a_id x < next_alert_id d'" if "x \<in> set (alerts d')" for x
  proof -
    have "a_id x \<in> set (map a_id (alerts d))" unfolding ids [symmetric] using that by simp
    then show ?thesis using assms(1) d'(3) by (auto simp: wf_alerts_def)
  qed
  ultimately have "wf_alerts d'" using assms(1) ids by (simp add: wf_alerts_def)
  moreover have "?f a \<in> set (alerts d')" using a(1) d'(2) by (auto simp: write_rows_def)
  moreover have "dedup_match c host inst key (?f a)" using a(2) by (auto simp: dedup_match_def)
  ultimately show ?thesis using d'(1) unfolding raised_def by (intro conjI bexI [of _ "?f a"]) auto
qed

lemma raised_again:
  assumes "raised c critical host inst key i d"
  shows "fst (raise_alert c critical' host inst job' key d) = i"
proof -
  let ?m = "dedup_match c host inst key"
  obtain a where a: "wf_alerts d" "a \<in> set (alerts d)" "a_id a = i" "?m a"
    using assms by (auto simp: raised_def)
  have "find ?m (alerts d) = Some a"
  proof (cases "find ?m (alerts d)")
    case (Some b)
    then have "b \<in> set (filter a_active (alerts d))" "alert_identity b = alert_identity a"
      using find_Some_set a(4) by (fastforce simp: dedup_identity)+
    then have "b = a"
      using a by (auto simp: wf_alerts_def distinct_map inj_on_def dedup_identity)
    then show ?thesis using Some by simp
  qed (use a in \<open>auto simp: find_None_all\<close>)
  then show ?thesis using a by (auto simp: raise_alert_def)
qed

text \<open>
  Raising an alert keeps one active alert per code, target and key, whether
  it refreshes the one that is open or files a new one; the alert whose id it
  returns is that one, open, of that identity and of the level asked for; and
  raised again, with whatever level and job, it is the same alert.
\<close>

theorem raise_alert_is_idempotent:
  assumes "wf_alerts d" and "raise_alert c critical host inst job key d = (i, d')"
  shows "wf_alerts d' \<and>
         (\<exists>a \<in> set (alerts d'). a_id a = i \<and> dedup_match c host inst key a \<and> a_critical a = critical) \<and>
         fst (raise_alert c critical' host inst job' key d') = i"
proof -
  have "raised c critical host inst key i d'"
    using raise_new [OF assms(1) _ assms(2)] raise_refresh [OF assms(1) _ assms(2)]
    by (cases "find (dedup_match c host inst key) (alerts d)") auto
  then show ?thesis using raised_again unfolding raised_def by blast
qed

theorem raise_alert_is_idempotent_witness:
  "fst (raise_alert ''job_failed'' False (Some 1) (Some 7) (Some 5) None
     (snd (raise_alert ''job_failed'' True (Some 1) (Some 7) (Some 9) None held_db))) = 1"
proof -
  let ?r = "raise_alert ''job_failed'' True (Some 1) (Some 7) (Some 9) None held_db"
  have "wf_alerts held_db" "fst ?r = 1" by code_simp+
  then show ?thesis
    using raise_alert_is_idempotent [of held_db _ _ _ _ _ _ 1 "snd ?r" False "Some 5"]
    by (metis prod.collapse)
qed

end
