(* ===== verification/Alert_Confirm.thy ===== *)
theory Alert_Confirm
  imports Alerts
begin

text \<open>
  The confirmation of measured conditions (\<^verbatim>\<open>models/cloud_alert.py\<close>): the table of
  policies, the suspicions that count sightings, and \<^verbatim>\<open>raise_alert\<close> and
  \<^verbatim>\<open>resolve_alert\<close> with both. Times are whole seconds, as the fields of the rows
  store them, and given to each operation; operations run one after the other, so
  the unique index that settles a race between two producers does not speak here.
\<close>

section \<open>Policies\<close>

text \<open>\<^verbatim>\<open>fnmatch.fnmatchcase\<close>: any text for a star, any character for a question mark,
  a set of characters in brackets, the first of which may be a bracket itself; a
  bracket that does not close is itself.\<close>

fun set_items :: "string \<Rightarrow> (char \<times> char) list" where
  "set_items (a # h # b # s) =
     (if h = CHR ''-'' then (a, b) # set_items s else (a, a) # set_items (h # b # s))"
| "set_items [a, b] = [(a, a), (b, b)]"
| "set_items [a] = [(a, a)]"
| "set_items [] = []"

fun until_bracket :: "string \<Rightarrow> (string \<times> string) option" where
  "until_bracket [] = None"
| "until_bracket (c # s) =
     (if c = CHR '']'' then Some ([], s) else map_option (\<lambda>(b, r). (c # b, r)) (until_bracket s))"

definition set_body :: "string \<Rightarrow> (bool \<times> string \<times> string) option" where
  "set_body s =
     (let negated = (s \<noteq> [] \<and> hd s = CHR ''!'')
      in case (if negated then tl s else s) of
           [] \<Rightarrow> None
         | c # t \<Rightarrow> map_option (\<lambda>(b, r). (negated, c # b, r)) (until_bracket t))"

lemma until_bracket_shorter: "until_bracket s = Some (b, r) \<Longrightarrow> length r < length s"
  by (induction s arbitrary: b) (auto simp: less_SucI split: if_splits)

lemma set_body_shorter: "set_body s = Some (n, b, r) \<Longrightarrow> length r < length s"
  by (cases s) (auto simp: set_body_def Let_def less_SucI split: list.splits if_splits dest!: until_bracket_shorter)

definition in_set :: "string \<Rightarrow> char \<Rightarrow> bool" where
  "in_set body c \<longleftrightarrow>
     list_ex (\<lambda>(lo, hi). (of_char lo :: nat) \<le> of_char c \<and> (of_char c :: nat) \<le> of_char hi) (set_items body)"

function fnmatch :: "string \<Rightarrow> string \<Rightarrow> bool" where
  "fnmatch [] s = (s = [])"
| "fnmatch (p # pat) s =
     (if p = CHR ''*'' then fnmatch pat s \<or> (case s of [] \<Rightarrow> False | _ # r \<Rightarrow> fnmatch (p # pat) r)
      else case s of
             [] \<Rightarrow> False
           | c # r \<Rightarrow>
               if p = CHR ''?'' then fnmatch pat r
               else case (if p = CHR ''['' then set_body pat else None) of
                      None \<Rightarrow> (if c = p then fnmatch pat r else False)
                    | Some (negated, body, rest) \<Rightarrow>
                        (if in_set body c \<noteq> negated then fnmatch rest r else False))"
  by pat_completeness auto

termination
  by (relation "measure (\<lambda>(p, s). length p + length s)") (auto dest: set_body_shorter split: if_splits)

record policy =
  po_code :: string
  po_after :: int
  po_window :: int

definition check_counts :: "policy \<Rightarrow> bool" where
  "check_counts p \<longleftrightarrow> 1 \<le> po_after p \<and> 1 \<le> po_window p"

definition DEFAULT :: "int \<times> int" where
  "DEFAULT = (1, 900)"

text \<open>The rows come in the order of their codes.\<close>

definition for_code :: "policy list \<Rightarrow> string \<Rightarrow> int \<times> int" where
  "for_code rows c =
     (case find (\<lambda>r. po_code r = c) rows of
        Some r \<Rightarrow> (po_after r, po_window r)
      | None \<Rightarrow>
          (case find (\<lambda>r. CHR ''*'' \<in> set (po_code r) \<and> fnmatch (po_code r) c) rows of
             Some r \<Rightarrow> (po_after r, po_window r)
           | None \<Rightarrow> DEFAULT))"

section \<open>Suspicions\<close>

record suspicion =
  su_code :: string
  su_host :: "nat option"
  su_instance :: "nat option"
  su_occurrences :: int
  su_last_seen :: int

definition target_match :: "string \<Rightarrow> nat option \<Rightarrow> nat option \<Rightarrow> suspicion \<Rightarrow> bool" where
  "target_match c host inst r \<longleftrightarrow> su_code r = c \<and> su_host r = host \<and> su_instance r = inst"

definition sight ::
  "string \<Rightarrow> nat option \<Rightarrow> nat option \<Rightarrow> int \<Rightarrow> int \<Rightarrow> int \<Rightarrow> suspicion list \<Rightarrow> bool \<times> suspicion list" where
  "sight c host inst confirm_after window now rows =
     (case find (target_match c host inst) rows of
        Some row \<Rightarrow>
          let fresh = (now - su_last_seen row \<le> window);
              count = (if fresh then su_occurrences row + 1 else 1)
          in if confirm_after \<le> count then (True, remove1 row rows)
             else (False, map (\<lambda>r. if r = row then r\<lparr>su_occurrences := count, su_last_seen := now\<rparr> else r) rows)
      | None \<Rightarrow>
          (False, rows @ [\<lparr>su_code = c, su_host = host, su_instance = inst, su_occurrences = 1, su_last_seen = now\<rparr>]))"

definition forget :: "string \<Rightarrow> nat option \<Rightarrow> nat option \<Rightarrow> suspicion list \<Rightarrow> suspicion list" where
  "forget c host inst rows = filter (\<lambda>r. \<not> target_match c host inst r) rows"

definition STALE_AFTER :: int where
  "STALE_AFTER = 24 * 60 * 60"

definition gc_suspicions :: "int \<Rightarrow> suspicion list \<Rightarrow> suspicion list" where
  "gc_suspicions now rows = filter (\<lambda>r. \<not> su_last_seen r < now - STALE_AFTER) rows"

section \<open>Raising and resolving\<close>

record monitor =
  mo_db :: db
  mo_suspicions :: "suspicion list"
  mo_policies :: "policy list"

text \<open>\<^verbatim>\<open>raise_alert\<close>: the id of the alert, none when the job that raises it was
  cancelled or the sighting is still a suspicion. Past the confirmation it is the
  creation of \<^const>\<open>raise_alert\<close>, and its refresh where the alert is open.\<close>

definition raise_measured ::
  "bool \<Rightarrow> string \<Rightarrow> bool \<Rightarrow> nat option \<Rightarrow> nat option \<Rightarrow> nat option \<Rightarrow> string option \<Rightarrow>
   int option \<Rightarrow> int option \<Rightarrow> int \<Rightarrow> monitor \<Rightarrow> nat option \<times> monitor" where
  "raise_measured cancelled c critical host inst job key confirm_after confirm_window now m =
     (let raise = (\<lambda>m. let (i, d) = raise_alert c critical host inst job key (mo_db m)
                       in (Some i, m\<lparr>mo_db := d\<rparr>))
      in if cancelled then (None, m)
         else if find (dedup_match c host inst key) (alerts (mo_db m)) \<noteq> None then raise m
         else
           let (after, window) = for_code (mo_policies m) c;
               confirm_after = (case confirm_after of None \<Rightarrow> after | Some n \<Rightarrow> n);
               confirm_window = (case confirm_window of None \<Rightarrow> window | Some n \<Rightarrow> n)
           in if confirm_after > 1 then
                let (confirmed, rows) = sight c host inst confirm_after confirm_window now (mo_suspicions m);
                    m = m\<lparr>mo_suspicions := rows\<rparr>
                in if confirmed then raise m else (None, m)
              else raise m)"

definition resolve_measured ::
  "world \<Rightarrow> string \<Rightarrow> nat option \<Rightarrow> nat option \<Rightarrow> string option \<Rightarrow> monitor \<Rightarrow> monitor" where
  "resolve_measured w c host inst key m =
     m\<lparr>mo_suspicions := forget c host inst (mo_suspicions m),
       mo_db := resolve_alert w c host inst key (mo_db m)\<rparr>"

section \<open>What the confirmation promises\<close>

text \<open>The events of one condition: a sighting, with the count and the window its producer
  brings, if any; a clear reading; and the daily sweep of the suspicions.\<close>

datatype event =
    Seen (ev_time: int) (ev_critical: bool) (ev_job: "nat option") (ev_after: "int option") (ev_window: "int option")
  | Cleared (ev_time: int)
  | Swept (ev_time: int)

definition counts_of :: "policy list \<Rightarrow> string \<Rightarrow> event \<Rightarrow> int \<times> int" where
  "counts_of pols c e =
     (let (after, window) = for_code pols c
      in (case ev_after e of None \<Rightarrow> after | Some n \<Rightarrow> n, case ev_window e of None \<Rightarrow> window | Some n \<Rightarrow> n))"

definition monitor_step ::
  "world \<Rightarrow> string \<Rightarrow> nat option \<Rightarrow> nat option \<Rightarrow> string option \<Rightarrow> event \<Rightarrow> monitor \<Rightarrow> monitor" where
  "monitor_step w c host inst key e m =
     (case e of
        Seen now critical job after window \<Rightarrow>
          snd (raise_measured False c critical host inst job key after window now m)
      | Cleared now \<Rightarrow> resolve_measured w c host inst key m
      | Swept now \<Rightarrow> m\<lparr>mo_suspicions := gc_suspicions now (mo_suspicions m)\<rparr>)"

text \<open>The specification keeps the sightings themselves, newest first, each with its
  window, since the condition was last clear or confirmed: how many come in a row, each
  within its window of the one before, decides.\<close>

fun in_a_row :: "(int \<times> int) list \<Rightarrow> int" where
  "in_a_row [] = 0"
| "in_a_row [x] = 1"
| "in_a_row ((t, w) # (t', w') # h) = (if t - t' \<le> w then in_a_row ((t', w') # h) + 1 else 1)"

record confirmation =
  sp_open :: bool
  sp_seen :: "(int \<times> int) list"

definition confirmation_step :: "policy list \<Rightarrow> string \<Rightarrow> event \<Rightarrow> confirmation \<Rightarrow> confirmation" where
  "confirmation_step pols c e s =
     (case e of
        Seen now critical job after window \<Rightarrow>
          let (n, w) = counts_of pols c e; seen = (now, w) # sp_seen s
          in if sp_open s then s
             else if n \<le> 1 then s\<lparr>sp_open := True\<rparr>
             else if n \<le> in_a_row seen then \<lparr>sp_open = True, sp_seen = []\<rparr>
             else s\<lparr>sp_seen := seen\<rparr>
      | Cleared now \<Rightarrow> \<lparr>sp_open = False, sp_seen = []\<rparr>
      | Swept now \<Rightarrow> s)"

definition alert_open :: "string \<Rightarrow> nat option \<Rightarrow> nat option \<Rightarrow> string option \<Rightarrow> monitor \<Rightarrow> bool" where
  "alert_open c host inst key m \<longleftrightarrow> list_ex (dedup_match c host inst key) (alerts (mo_db m))"

definition target :: "suspicion \<Rightarrow> string \<times> nat option \<times> nat option" where
  "target r = (su_code r, su_host r, su_instance r)"

lemma target_match_eq: "target_match c host inst r \<longleftrightarrow> target r = (c, host, inst)"
  by (auto simp: target_match_def target_def)

text \<open>The counter of a target, at a time: it counts the last sightings in a row; a
  counter swept away had gone stale.\<close>

definition row_counts :: "int \<Rightarrow> suspicion option \<Rightarrow> (int \<times> int) list \<Rightarrow> bool" where
  "row_counts now row seen \<longleftrightarrow>
     (case row of
        None \<Rightarrow> seen = [] \<or> STALE_AFTER < now - fst (hd seen)
      | Some r \<Rightarrow> seen \<noteq> [] \<and> su_occurrences r = in_a_row seen \<and> su_last_seen r = fst (hd seen))"

definition confirms ::
  "policy list \<Rightarrow> string \<Rightarrow> nat option \<Rightarrow> nat option \<Rightarrow> string option \<Rightarrow> int \<Rightarrow> monitor \<Rightarrow> confirmation \<Rightarrow> bool" where
  "confirms pols c host inst key now m s \<longleftrightarrow>
     wf_alerts (mo_db m) \<and> mo_policies m = pols \<and> distinct (map target (mo_suspicions m)) \<and>
     alert_open c host inst key m = sp_open s \<and>
     row_counts now (find (target_match c host inst) (mo_suspicions m)) (sp_seen s)"

lemma find_target:
  assumes "distinct (map target rows)"
  shows "find (target_match c host inst) rows = Some r \<longleftrightarrow> r \<in> set rows \<and> target r = (c, host, inst)"
proof
  show "find (target_match c host inst) rows = Some r \<Longrightarrow> r \<in> set rows \<and> target r = (c, host, inst)"
    by (auto simp: find_Some_iff target_match_eq)
  show "r \<in> set rows \<and> target r = (c, host, inst) \<Longrightarrow> find (target_match c host inst) rows = Some r"
    using assms by (induction rows) (auto simp: target_match_eq image_iff)
qed

lemma find_no_target: "find (target_match c host inst) rows = None \<longleftrightarrow> (c, host, inst) \<notin> target ` set rows"
  by (auto simp: find_None_iff target_match_eq image_iff)

lemma in_a_row_next:
  "seen \<noteq> [] \<Longrightarrow> in_a_row ((t, w) # seen) = (if t - fst (hd seen) \<le> w then in_a_row seen + 1 else 1)"
  by (cases seen) auto

lemma sight_first:
  assumes "distinct (map target rows)" "find (target_match c host inst) rows = None"
    and "seen = [] \<or> STALE_AFTER < now - fst (hd seen)" "w \<le> STALE_AFTER"
    and "sight c host inst n w now rows = (confirmed, rows')"
  shows "\<not> confirmed" "in_a_row ((now, w) # seen) = 1" "distinct (map target rows')"
    and "row_counts now (find (target_match c host inst) rows') ((now, w) # seen)"
proof -
  let ?r = "\<lparr>su_code = c, su_host = host, su_instance = inst, su_occurrences = 1, su_last_seen = now\<rparr>"
  have eq: "\<not> confirmed" "rows' = rows @ [?r]"
    using assms(2,5) by (auto simp: sight_def)
  then show "\<not> confirmed" by simp
  show row: "in_a_row ((now, w) # seen) = 1"
    using assms(3,4) by (cases "seen = []") (auto simp: in_a_row_next)
  show new: "distinct (map target rows')"
    using assms(1,2) eq(2) by (auto simp: find_no_target target_def)
  then have "find (target_match c host inst) rows' = Some ?r"
    using eq(2) by (simp add: find_target) (simp add: target_def)
  then show "row_counts now (find (target_match c host inst) rows') ((now, w) # seen)"
    using row by (simp add: row_counts_def)
qed

lemma sight_next:
  assumes "distinct (map target rows)" "find (target_match c host inst) rows = Some r"
    and "seen \<noteq> []" "su_occurrences r = in_a_row seen" "su_last_seen r = fst (hd seen)"
    and "sight c host inst n w now rows = (confirmed, rows')"
  shows "confirmed \<longleftrightarrow> n \<le> in_a_row ((now, w) # seen)" "distinct (map target rows')"
    and "row_counts now (find (target_match c host inst) rows') (if confirmed then [] else (now, w) # seen)"
proof -
  let ?r = "r\<lparr>su_occurrences := in_a_row ((now, w) # seen), su_last_seen := now\<rparr>"
  have r: "r \<in> set rows" "target r = (c, host, inst)"
    using assms(1,2) find_target by blast+
  have count: "(if now - su_last_seen r \<le> w then su_occurrences r + 1 else 1) = in_a_row ((now, w) # seen)"
    using assms(3-5) by (simp add: in_a_row_next)
  show c: "confirmed \<longleftrightarrow> n \<le> in_a_row ((now, w) # seen)"
    using assms(2,6) count by (auto simp: sight_def Let_def split: if_splits)
  have rows': "rows' = (if confirmed then remove1 r rows else map (\<lambda>x. if x = r then ?r else x) rows)"
    using assms(2,6) c count unfolding sight_def Let_def by (cases confirmed) (auto intro!: map_cong split: if_splits)
  have same: "map target (map (\<lambda>x. if x = r then ?r else x) rows) = map target rows"
    by (auto simp: target_def)
  show d: "distinct (map target rows')"
    using assms(1) same unfolding rows' by (auto simp: distinct_map inj_on_def notin_set_remove1 dest: notin_set_remove1)
  show "row_counts now (find (target_match c host inst) rows') (if confirmed then [] else (now, w) # seen)"
  proof (cases confirmed)
    case True
    then have "(c, host, inst) \<notin> target ` set rows'"
      using assms(1) r rows' by (auto simp: distinct_map inj_on_def)
    then have "find (target_match c host inst) rows' = None"
      by (simp add: find_no_target)
    then show ?thesis using True by (simp add: row_counts_def)
  next
    case False
    have "find (target_match c host inst) rows' = Some ?r"
      unfolding find_target[OF d] using r rows' False by (auto simp: target_def)
    then show ?thesis using False by (simp add: row_counts_def)
  qed
qed

lemma sight_counts:
  assumes "distinct (map target rows)" "row_counts now (find (target_match c host inst) rows) seen"
    and "sight c host inst n w now rows = (confirmed, rows')" "1 < n" "w \<le> STALE_AFTER"
  shows "distinct (map target rows')"
    and "confirmed \<longleftrightarrow> n \<le> in_a_row ((now, w) # seen)"
    and "row_counts now (find (target_match c host inst) rows') (if confirmed then [] else (now, w) # seen)"
proof -
  have "distinct (map target rows') \<and> (confirmed \<longleftrightarrow> n \<le> in_a_row ((now, w) # seen)) \<and>
    row_counts now (find (target_match c host inst) rows') (if confirmed then [] else (now, w) # seen)"
  proof (cases "find (target_match c host inst) rows")
    case None
    then show ?thesis
      using sight_first[OF assms(1) None _ assms(5,3), of seen] assms(2,4) by (auto simp: row_counts_def)
  next
    case (Some r)
    then show ?thesis
      using sight_next[OF assms(1) Some _ _ _ assms(3), of seen] assms(2) by (simp add: row_counts_def)
  qed
  then show "distinct (map target rows')" "confirmed \<longleftrightarrow> n \<le> in_a_row ((now, w) # seen)"
    "row_counts now (find (target_match c host inst) rows') (if confirmed then [] else (now, w) # seen)"
    by auto
qed

section \<open>Simulation, event by event\<close>

primrec along :: "('e \<Rightarrow> 's \<Rightarrow> 's) \<Rightarrow> ('e \<Rightarrow> 's \<Rightarrow> bool) \<Rightarrow> 'e list \<Rightarrow> 's \<Rightarrow> bool" where
  "along step ok [] s = True"
| "along step ok (e # es) s = (ok e s \<and> along step ok es (step e s))"

locale simulation =
  fixes step :: "'e \<Rightarrow> 's \<Rightarrow> 's" and spec_step :: "'e \<Rightarrow> 'a \<Rightarrow> 'a"
    and ok :: "'e \<Rightarrow> 's \<Rightarrow> bool" and related :: "'s \<Rightarrow> 'a \<Rightarrow> bool"
  assumes step_related: "related s a \<Longrightarrow> ok e s \<Longrightarrow> related (step e s) (spec_step e a)"
begin

lemma runs_related:
  "related s a \<Longrightarrow> along step ok es s \<Longrightarrow> related (fold step es s) (fold spec_step es a)"
  by (induction es arbitrary: s a) (auto intro: step_related)

end

definition timed_step ::
  "world \<Rightarrow> string \<Rightarrow> nat option \<Rightarrow> nat option \<Rightarrow> string option \<Rightarrow> event \<Rightarrow> int \<times> monitor \<Rightarrow> int \<times> monitor" where
  "timed_step w c host inst key e tm = (ev_time e, monitor_step w c host inst key e (snd tm))"

text \<open>The clock does not go back, and no window is longer than a suspicion is kept.\<close>

definition in_time :: "policy list \<Rightarrow> string \<Rightarrow> event \<Rightarrow> int \<times> monitor \<Rightarrow> bool" where
  "in_time pols c e tm \<longleftrightarrow>
     fst tm \<le> ev_time e \<and> (case e of Seen _ _ _ _ _ \<Rightarrow> snd (counts_of pols c e) \<le> STALE_AFTER | _ \<Rightarrow> True)"

lemma row_counts_later: "row_counts t row seen \<Longrightarrow> t \<le> t' \<Longrightarrow> row_counts t' row seen"
  by (auto simp: row_counts_def split: option.splits)

lemma alert_open_find:
  "alert_open c host inst key m \<longleftrightarrow> find (dedup_match c host inst key) (alerts (mo_db m)) \<noteq> None"
  by (auto simp: alert_open_def list_ex_iff find_None_iff)

lemma raise_opens:
  assumes "wf_alerts d"
  shows "wf_alerts (snd (raise_alert c critical host inst job key d))"
    and "list_ex (dedup_match c host inst key) (alerts (snd (raise_alert c critical host inst job key d)))"
proof -
  obtain i d' where r: "raise_alert c critical host inst job key d = (i, d')"
    by fastforce
  have "raised c critical host inst key i d'"
    using raise_new[OF assms _ r] raise_refresh[OF assms _ r]
    by (cases "find (dedup_match c host inst key) (alerts d)") auto
  then show "wf_alerts (snd (raise_alert c critical host inst job key d))"
    "list_ex (dedup_match c host inst key) (alerts (snd (raise_alert c critical host inst job key d)))"
    using r by (auto simp: raised_def list_ex_iff)
qed

lemma seen_confirms:
  assumes "confirms pols c host inst key t m s" "t \<le> now" "snd (counts_of pols c (Seen now critical job after window)) \<le> STALE_AFTER"
  shows "confirms pols c host inst key now (snd (raise_measured False c critical host inst job key after window now m))
    (confirmation_step pols c (Seen now critical job after window) s)"
proof -
  let ?e = "Seen now critical job after window"
  obtain n w where nw: "counts_of pols c ?e = (n, w)" by fastforce
  have m: "wf_alerts (mo_db m)" "mo_policies m = pols" "distinct (map target (mo_suspicions m))"
    "alert_open c host inst key m = sp_open s"
    "row_counts now (find (target_match c host inst) (mo_suspicions m)) (sp_seen s)"
    using assms(1,2) row_counts_later by (auto simp: confirms_def)
  note open_now = raise_opens[OF m(1), where c = c and critical = critical and host = host and inst = inst and job = job and key = key]
  have raised: "raise_measured False c critical host inst job key after window now m =
     (if sp_open s \<or> n \<le> 1 then (Some (fst (raise_alert c critical host inst job key (mo_db m))),
        m\<lparr>mo_db := snd (raise_alert c critical host inst job key (mo_db m))\<rparr>)
      else let (confirmed, rows) = sight c host inst n w now (mo_suspicions m)
           in if confirmed then (Some (fst (raise_alert c critical host inst job key (mo_db m))),
                m\<lparr>mo_suspicions := rows, mo_db := snd (raise_alert c critical host inst job key (mo_db m))\<rparr>)
              else (None, m\<lparr>mo_suspicions := rows\<rparr>))"
    using nw m(2,4) unfolding raise_measured_def counts_of_def alert_open_find
    by (auto simp: Let_def split_beta)
  show ?thesis
  proof (cases "sp_open s \<or> n \<le> 1")
    case True
    then show ?thesis
      using m open_now raised nw by (auto simp: confirms_def confirmation_step_def alert_open_def)
  next
    case False
    obtain confirmed rows where r: "sight c host inst n w now (mo_suspicions m) = (confirmed, rows)"
      by fastforce
    have w: "w \<le> STALE_AFTER" using assms(3) nw by simp
    note c = sight_counts[OF m(3,5) r _ w]
    show ?thesis
      using False m open_now raised nw r c by (auto simp: confirms_def confirmation_step_def alert_open_def)
  qed
qed

lemma alerts_dismissed:
  "alerts (dismiss_alerts w ids d) = write_rows a_id (\<lambda>i. i \<in> set ids) (\<lambda>a. a\<lparr>a_active := False\<rparr>) (alerts d)"
  "next_alert_id (dismiss_alerts w ids d) = next_alert_id d"
  by (simp_all add: dismiss_alerts_def on_holding_alert_closed_def schedule_dispatch_def Let_def)

lemma wf_alerts_dismissed:
  assumes "wf_alerts d"
  shows "wf_alerts (dismiss_alerts w ids d)"
proof -
  let ?f = "\<lambda>a :: alert. if a_id a \<in> set ids then a\<lparr>a_active := False\<rparr> else a"
  have rows: "alerts (dismiss_alerts w ids d) = map ?f (alerts d)"
    by (simp add: alerts_dismissed write_rows_def)
  have "map alert_identity (filter a_active (map ?f (alerts d))) =
      map alert_identity (filter (\<lambda>a. a_active a \<and> a_id a \<notin> set ids) (alerts d))"
    by (induction "alerts d" rule: rev_induct) (auto simp: filter_map o_def intro!: map_cong filter_cong)
  moreover have "a_id \<circ> ?f = a_id"
    by auto
  moreover from this have "a_id (?f a) = a_id a" for a
    by simp
  ultimately show ?thesis
    using assms distinct_map_filter_mono[of alert_identity a_active "alerts d" "\<lambda>a. a_active a \<and> a_id a \<notin> set ids"]
    unfolding wf_alerts_def rows by (auto simp: alerts_dismissed)
qed

lemma resolved_alert:
  assumes "wf_alerts d"
  shows "wf_alerts (resolve_alert w c host inst key d)"
    and "\<not> list_ex (dedup_match c host inst key) (alerts (resolve_alert w c host inst key d))"
proof -
  show "wf_alerts (resolve_alert w c host inst key d)"
    using assms wf_alerts_dismissed by (simp add: resolve_alert_def Let_def)
  show "\<not> list_ex (dedup_match c host inst key) (alerts (resolve_alert w c host inst key d))"
    by (auto simp: resolve_alert_def Let_def alerts_dismissed write_rows_def list_ex_iff filter_empty_conv
        dedup_match_def split: if_splits)
qed

lemma cleared_confirms:
  assumes "confirms pols c host inst key t m s"
  shows "confirms pols c host inst key now (resolve_measured w c host inst key m) \<lparr>sp_open = False, sp_seen = []\<rparr>"
proof -
  have m: "wf_alerts (mo_db m)" "distinct (map target (mo_suspicions m))" "mo_policies m = pols"
    using assms by (auto simp: confirms_def)
  have "(c, host, inst) \<notin> target ` set (forget c host inst (mo_suspicions m))"
    by (auto simp: forget_def target_match_eq)
  then have "find (target_match c host inst) (forget c host inst (mo_suspicions m)) = None"
    by (simp add: find_no_target)
  then show ?thesis
    using m resolved_alert[OF m(1)]
    by (auto simp: confirms_def resolve_measured_def alert_open_def row_counts_def forget_def distinct_map_filter)
qed

lemma swept_confirms:
  assumes "confirms pols c host inst key t m s" "t \<le> now"
  shows "confirms pols c host inst key now (m\<lparr>mo_suspicions := gc_suspicions now (mo_suspicions m)\<rparr>) s"
proof -
  let ?rows = "mo_suspicions m"
  have m: "distinct (map target ?rows)" "row_counts now (find (target_match c host inst) ?rows) (sp_seen s)"
    using assms row_counts_later by (auto simp: confirms_def)
  have d: "distinct (map target (gc_suspicions now ?rows))"
    using m(1) by (simp add: gc_suspicions_def distinct_map_filter)
  have "row_counts now (find (target_match c host inst) (gc_suspicions now ?rows)) (sp_seen s)"
  proof (cases "find (target_match c host inst) ?rows")
    case None
    then have "find (target_match c host inst) (gc_suspicions now ?rows) = None"
      by (auto simp: find_no_target gc_suspicions_def)
    then show ?thesis using m(2) None by simp
  next
    case (Some r)
    show ?thesis
    proof (cases "su_last_seen r < now - STALE_AFTER")
      case True
      have "x = r" if "x \<in> set ?rows" "target x = (c, host, inst)" for x
        using find_target[OF m(1), of c host inst x] Some that by simp
      then have "find (target_match c host inst) (gc_suspicions now ?rows) = None"
        using True by (auto simp: find_no_target gc_suspicions_def)
      then show ?thesis using m(2) Some True by (simp add: row_counts_def)
    next
      case False
      then have "find (target_match c host inst) (gc_suspicions now ?rows) = Some r"
        using Some unfolding find_target[OF m(1)] find_target[OF d] by (simp add: gc_suspicions_def)
      then show ?thesis using m(2) Some by simp
    qed
  qed
  then show ?thesis using assms(1) d by (simp add: confirms_def alert_open_def)
qed

interpretation confirmation: simulation "timed_step w c host inst key" "confirmation_step pols c" "in_time pols c"
  "\<lambda>tm s. confirms pols c host inst key (fst tm) (snd tm) s"
proof
  fix tm s e
  assume "confirms pols c host inst key (fst tm) (snd tm) s" "in_time pols c e tm"
  then show "confirms pols c host inst key (fst (timed_step w c host inst key e tm))
      (snd (timed_step w c host inst key e tm)) (confirmation_step pols c e s)"
    using seen_confirms[of pols c host inst key "fst tm" "snd tm" s] cleared_confirms swept_confirms
    by (cases e) (auto simp: timed_step_def monitor_step_def in_time_def confirmation_step_def[of _ _ "Cleared _"]
        confirmation_step_def[of _ _ "Swept _"])
qed

text \<open>C34. A measured condition is an alert exactly when it was seen enough times in a row.
  Whatever sightings, clear readings and sweeps follow one another from a panel where
  nothing is open or suspected of the target, the alert of the target is open in the
  end if and only if it is in the specification, which keeps the sightings themselves:
  the alert opens at the sighting that is the last of as many as the policy of its code,
  or its producer, asks for, each within its window of the one before, none of them from
  before a clear reading; and it stays open until a clear reading. The clock does not go
  back, and no window exceeds the day a suspicion is kept.\<close>

theorem measured_alert_refines_its_specification:
  assumes "wf_alerts (mo_db m)" and "distinct (map target (mo_suspicions m))"
    and "\<not> alert_open c host inst key m" and "find (target_match c host inst) (mo_suspicions m) = None"
    and "along (timed_step w c host inst key) (in_time (mo_policies m) c) es (t, m)"
  shows "alert_open c host inst key (snd (fold (timed_step w c host inst key) es (t, m))) \<longleftrightarrow>
    sp_open (fold (confirmation_step (mo_policies m) c) es \<lparr>sp_open = False, sp_seen = []\<rparr>)"
proof -
  have "confirms (mo_policies m) c host inst key (fst (t, m)) (snd (t, m)) \<lparr>sp_open = False, sp_seen = []\<rparr>"
    using assms(1-4) by (simp add: confirms_def row_counts_def)
  from confirmation.runs_related[OF this assms(5)] show ?thesis
    by (simp add: confirms_def)
qed

definition watched :: monitor where
  "watched = \<lparr>mo_db = held_db, mo_suspicions = [],
     mo_policies = [\<lparr>po_code = ''instance_down'', po_after = 2, po_window = 900\<rparr>]\<rparr>"

definition two_sightings :: "event list" where
  "two_sightings = [Seen 0 True None None None, Seen 1200 True None None None, Swept 1500,
     Seen 1800 True None None None]"

theorem measured_alert_refines_its_specification_witness:
  "\<not> alert_open ''instance_down'' None (Some 7) None watched \<and>
   alert_open ''instance_down'' None (Some 7) None
     (snd (fold (timed_step (core_world held_db) ''instance_down'' None (Some 7) None) two_sightings (0, watched)))"
proof -
  have "wf_alerts (mo_db watched)" "distinct (map target (mo_suspicions watched))"
    "\<not> alert_open ''instance_down'' None (Some 7) None watched"
    "find (target_match ''instance_down'' None (Some 7)) (mo_suspicions watched) = None"
    "along (timed_step (core_world held_db) ''instance_down'' None (Some 7) None) (in_time (mo_policies watched) ''instance_down'')
       two_sightings (0, watched)"
    "sp_open (fold (confirmation_step (mo_policies watched) ''instance_down'') two_sightings
       \<lparr>sp_open = False, sp_seen = []\<rparr>)"
    by code_simp+
  then show ?thesis
    using measured_alert_refines_its_specification by blast
qed

end
