(* ===== verification/Job_Entry.thy ===== *)
theory Job_Entry
  imports Alerts
begin

text \<open>
  How a job reaches its queue: \<^verbatim>\<open>enqueue\<close>, \<^verbatim>\<open>enqueue_chain\<close>, \<^verbatim>\<open>retry_job\<close> and
  \<^verbatim>\<open>unblock_and_enqueue\<close> of \<^verbatim>\<open>models/cloud_job.py\<close>, with the checks each makes of
  its caller. What the database's record rules let a caller read, write and
  create is part of the caller.
\<close>

section \<open>The caller\<close>

record actor =
  who :: caller
  reads_instance :: "nat \<Rightarrow> bool"
  reads_host :: "nat \<Rightarrow> bool"
  reads_job :: "nat \<Rightarrow> bool"
  writes_job :: "nat \<Rightarrow> bool"
  reads_alert :: "nat \<Rightarrow> bool"
  writes_alert :: "nat \<Rightarrow> bool"
  creates_job :: "cloud_job \<Rightarrow> bool"

definition is_su :: "actor \<Rightarrow> bool" where
  "is_su a = su (who a)"

definition sudo :: "actor \<Rightarrow> actor" where
  "sudo a = a\<lparr>who := (who a)\<lparr>su := True\<rparr>\<rparr>"

definition may_ask :: "world \<Rightarrow> actor \<Rightarrow> db \<Rightarrow> string \<Rightarrow> nat option \<Rightarrow> (queue_error, unit) result" where
  "may_ask w a d c inst =
     map_sum Role_refused id
       (check_job_type_allowed (min_groups w) (who a) c
          (if given inst then map_option i_environment (Option.bind inst (instances d)) else None))"

definition check_internal_queue_flags ::
  "actor \<Rightarrow> bool \<Rightarrow> dict option list \<Rightarrow> (queue_error, unit) result" where
  "check_internal_queue_flags a bypass ps =
     (if is_su a then Inr ()
      else if bypass \<or> (\<exists>p \<in> set ps. case p of None \<Rightarrow> False | Some q \<Rightarrow> truthy (dget q ''move_rollback''))
      then Inl Internal_flag else Inr ())"

definition check_target_access ::
  "actor \<Rightarrow> nat option \<Rightarrow> nat \<Rightarrow> (queue_error, unit) result" where
  "check_target_access a inst host =
     (if is_su a then Inr ()
      else if (if given inst then reads_instance a (the inst) else reads_host a host)
      then Inr () else Inl Target_unreadable)"

definition check_step_host ::
  "actor \<Rightarrow> db \<Rightarrow> nat option \<Rightarrow> nat \<Rightarrow> (queue_error, unit) result" where
  "check_step_host a d inst host =
     (if is_su a \<or> \<not> given inst then Inr ()
      else case Option.bind inst (instances d) of
             None \<Rightarrow> Inl Wrong_host
           | Some i \<Rightarrow>
               if Some host \<in> {i_host_id i, i_move_origin_host_id i, i_move_target_host_id i}
               then Inr () else Inl Wrong_host)"

text \<open>The fields only superuser rights may set, refused to a direct create or
  write.\<close>

definition queue_control_fields :: "string list" where
  "queue_control_fields =
     [''state'', ''queue_head'', ''queue_chain_key'', ''retry_of_id'', ''blocked_alert_id'',
      ''queue_job_uuid'', ''queue_job_id'', ''job_type_id'', ''payload'', ''secret_payload'',
      ''instance_id'', ''host_id'', ''asked_as_superuser'', ''date_done'',
      ''succeeded_before_cancel'', ''worker_lost_at'']"

definition check_queue_control_vals ::
  "actor \<Rightarrow> string list list \<Rightarrow> (queue_error, unit) result" where
  "check_queue_control_vals a vals_list =
     (if is_su a \<or> (\<forall>fs \<in> set vals_list. \<forall>f \<in> set fs. f \<notin> set queue_control_fields)
      then Inr () else Inl Control_fields)"

text \<open>\<^verbatim>\<open>_create_queued\<close>: the row, created with the queue's fields and the
  caller as its creator, if the caller may create it.\<close>

definition create_queued :: "actor \<Rightarrow> cloud_job \<Rightarrow> db \<Rightarrow> (queue_error, nat \<times> db) result" where
  "create_queued a vals d =
     (let i = next_job_id d;
          j = vals\<lparr>jid := i, create_uid := uid (who a), create_date := clock d,
                   asked_as_superuser := is_su a\<rparr>
      in if is_su a \<or> creates_job a j
         then Inr (i, broadcast i Job_created (d\<lparr>jobs := jobs d @ [j], next_job_id := Suc i\<rparr>))
         else Inl Create_refused)"

text \<open>What a new row holds besides what the entry point says.\<close>

definition new_job :: "string \<Rightarrow> nat \<Rightarrow> nat option \<Rightarrow> cloud_job" where
  "new_job c host inst =
     \<lparr>jid = 0, job_type_id = c, state = None, queue_head = False, queue_chain_key = None,
      succeeded_before_cancel = False, worker_lost_at = None, payload = None,
      secret_payload = None, queue_job_uuid = None,
      instance_id = (if given inst then inst else None), host_id = host,
      blocked_alert_id = None, retry_of_id = None, asked_as_superuser = False,
      create_uid = 0, create_date = 0\<rparr>"

section \<open>What a cancellation ends\<close>

definition ended_with :: "db \<Rightarrow> cloud_job \<Rightarrow> cloud_job list" where
  "ended_with d j =
     (if blocked_alert_id j \<noteq> None then []
      else if state j = Some Queued then
        (case queue_chain_key j of
           None \<Rightarrow> []
         | Some k \<Rightarrow> filter (\<lambda>x. queue_chain_key x = Some k \<and> state x = Some Queued \<and> jid x \<noteq> jid j) (jobs d))
      else
        (case graph_of d j of
           None \<Rightarrow> []
         | Some g \<Rightarrow> filter (\<lambda>x. graph_of d x = Some g \<and> state x = Some Wait_dependencies \<and> jid j < jid x) (jobs d)))"

definition stoppable :: "world \<Rightarrow> actor \<Rightarrow> db \<Rightarrow> cloud_job \<Rightarrow> bool" where
  "stoppable w a d j \<longleftrightarrow>
     reads_job a (jid j) \<and> may_ask w a d (job_type_id j) (instance_id j) = Inr ()"

definition first_unstoppable :: "world \<Rightarrow> actor \<Rightarrow> db \<Rightarrow> cloud_job list \<Rightarrow> cloud_job option" where
  "first_unstoppable w a d js = (if is_su a then None else find (\<lambda>j. \<not> stoppable w a d j) js)"

definition check_may_end_waiting ::
  "world \<Rightarrow> actor \<Rightarrow> db \<Rightarrow> cloud_job list \<Rightarrow> (queue_error, unit) result" where
  "check_may_end_waiting w a d waiting =
     (if is_su a then Inr ()
      else case first_unstoppable w a d (waiting @ concat (map (ended_with d) waiting)) of
             None \<Rightarrow> Inr ()
           | Some j \<Rightarrow> Inl (May_not_end (jid j)))"

section \<open>\<^verbatim>\<open>enqueue\<close>\<close>

text \<open>The checks before the queue is looked at.\<close>

definition enqueue_checks ::
  "world \<Rightarrow> actor \<Rightarrow> nat \<Rightarrow> nat option \<Rightarrow> string \<Rightarrow> dict option \<Rightarrow> bool \<Rightarrow> db \<Rightarrow> (queue_error, job_type) result" where
  "enqueue_checks w a host inst c p bypass d =
     (case may_ask w a d c inst of Inl e \<Rightarrow> Inl e | Inr _ \<Rightarrow>
     (case check_internal_queue_flags a bypass [p] of Inl e \<Rightarrow> Inl e | Inr _ \<Rightarrow>
     (case check_target_access a inst host of Inl e \<Rightarrow> Inl e | Inr _ \<Rightarrow>
     (case types d c of None \<Rightarrow> Inl (Type_not_found c) | Some t \<Rightarrow> Inr t))))"

definition pip_blocked_types :: "string list" where
  "pip_blocked_types = [''deploy_instance'', ''rebuild_instance'']"

definition block_on :: "nat \<Rightarrow> nat \<Rightarrow> db \<Rightarrow> db" where
  "block_on i al d = write_jobs [i] (\<lambda>j. j\<lparr>blocked_alert_id := Some al, state := None\<rparr>) d"

text \<open>The conflict check of a deploy or a rebuild: the job is left waiting for
  the alert (\<open>True\<close>), or the stale alert of a conflict that is gone is
  dismissed.\<close>

definition conflict_gate ::
  "world \<Rightarrow> actor \<Rightarrow> nat \<Rightarrow> nat \<Rightarrow> db \<Rightarrow> (queue_error, bool \<times> db) result" where
  "conflict_gate w a inst i d =
     (if (case instances d inst of None \<Rightarrow> False | Some r \<Rightarrow> i_pip_conflicts r)
      then (case raise_alert ''pip_conflict'' False None (Some inst) None None d of
              (al, d') \<Rightarrow> Inr (True, block_on i al d'))
      else
        let open_of = (\<lambda>c d. filter (\<lambda>x. a_instance_id x = Some inst \<and> a_code x = c \<and> a_active x \<and>
                                (is_su a \<or> reads_alert a (a_id x))) (alerts d));
            stale = map a_id (open_of ''pip_conflict'' d)
        in if \<not> is_su a \<and> (\<exists>x \<in> set stale. \<not> writes_alert a x) then Inl Write_refused
           else let d1 = dismiss_alerts w stale d in
             (case open_of ''addon_conflict'' d1 of
                [] \<Rightarrow> Inr (False, d1)
              | x # _ \<Rightarrow> Inr (True, block_on i (a_id x) d1)))"

definition add_audit :: "string \<Rightarrow> nat option \<Rightarrow> nat \<Rightarrow> nat \<Rightarrow> db \<Rightarrow> db" where
  "add_audit action inst host i d =
     d\<lparr>audit_log := audit_log d @
         [\<lparr>au_action = action, au_instance_id = inst, au_host_id = host, au_job_id = i\<rparr>]\<rparr>"

text \<open>The fast path: a quiet target, in this snapshot and in a fresh one, starts
  the job now; otherwise its queue is served after the commit.\<close>

definition serve_now_or_later ::
  "world \<Rightarrow> scope list \<Rightarrow> nat list \<Rightarrow> db \<Rightarrow> (queue_error, db) result" where
  "serve_now_or_later w ss ids d =
     (case (if list_all (\<lambda>s. scope_quiet w d s ids \<and> scope_quiet_fresh w s ids) ss
            then map_sum id snd (dispatch_next w (hd ss) d) else Inr d) of
        Inl e \<Rightarrow> Inl e
      | Inr d' \<Rightarrow>
          Inr (if Option.bind (job_of d' (hd ids)) state = Some Queued
               then schedule_dispatch ss d' else d'))"

text \<open>From the row's creation on.\<close>

definition queue_new ::
  "world \<Rightarrow> actor \<Rightarrow> nat \<Rightarrow> nat option \<Rightarrow> string \<Rightarrow> dict option \<Rightarrow> bool \<Rightarrow> db
     \<Rightarrow> (queue_error, nat \<times> db) result" where
  "queue_new w a host inst c p head d =
     (let hid = (c \<in> set (hidden_job_types w)) in
      case create_queued a
             ((new_job c host inst)\<lparr>queue_head := head,
                state := (if hid then None else Some Queued),
                payload := (case p of Some (x # xs) \<Rightarrow> p | _ \<Rightarrow> None)\<rparr>) d of
        Inl e \<Rightarrow> Inl e
      | Inr (i, d1) \<Rightarrow>
     (case (if given inst \<and> c \<in> set pip_blocked_types
            then conflict_gate w a (the inst) i d1 else Inr (False, d1)) of
        Inl e \<Rightarrow> Inl e
      | Inr (True, d2) \<Rightarrow> Inr (i, d2)
      | Inr (False, d2) \<Rightarrow>
          if hid then Inr (i, dispatch_single w i d2)
          else map_sum id (\<lambda>d3. (i, d3))
                 (serve_now_or_later w [scope_of_step inst (Some host)] [i]
                    (add_audit c (if given inst then inst else None) host i d2))))"

definition admit_and_queue ::
  "world \<Rightarrow> actor \<Rightarrow> nat \<Rightarrow> nat option \<Rightarrow> string \<Rightarrow> job_type \<Rightarrow> dict option \<Rightarrow> bool \<Rightarrow> db
     \<Rightarrow> (queue_error, nat \<times> db) result" where
  "admit_and_queue w a host inst c t p head d =
     (case check_queue_admission w d t (scope_of_step inst (Some host)) p head of
        Inl e \<Rightarrow> Inl e
      | Inr (Some i, d') \<Rightarrow> Inr (i, d')
      | Inr (None, d') \<Rightarrow> queue_new w a host inst c p head d')"

text \<open>A type that clears no queue.\<close>

definition enqueue_plain ::
  "world \<Rightarrow> actor \<Rightarrow> nat \<Rightarrow> nat option \<Rightarrow> string \<Rightarrow> dict option \<Rightarrow> bool \<Rightarrow> db
     \<Rightarrow> (queue_error, nat \<times> db) result" where
  "enqueue_plain w a host inst c p bypass d =
     (case enqueue_checks w a host inst c p bypass d of
        Inl e \<Rightarrow> Inl e
      | Inr t \<Rightarrow>
          if c \<in> set (hidden_job_types w) then queue_new w a host inst c p bypass d
          else admit_and_queue w a host inst c t p bypass
                 (lock_scopes [scope_of_step inst (Some host)] d))"

text \<open>\<^verbatim>\<open>cloud.instance._enqueue_frozen_cleanup\<close>: the copy a move left frozen on
  its old host is removed first, or forgotten when that host cannot do it. The
  removal is of a type that clears no queue.\<close>

definition frozen_copy_reachable :: "db \<Rightarrow> instance_rec \<Rightarrow> bool" where
  "frozen_copy_reachable d r \<longleftrightarrow>
     (case i_move_frozen_source_host_id r of
        None \<Rightarrow> False
      | Some h \<Rightarrow> host_available d h \<and> Some h \<noteq> i_host_id r)"

definition forget_frozen_copy :: "nat \<Rightarrow> nat \<Rightarrow> instance_rec \<Rightarrow> db \<Rightarrow> db" where
  "forget_frozen_copy i h r d =
     (add_audit ''Frozen copy forgotten'' (Some i) h 0 d)
       \<lparr>instances := (instances d)(i \<mapsto> r\<lparr>i_move_frozen_source_host_id := None\<rparr>)\<rparr>"

definition enqueue_frozen_cleanup ::
  "world \<Rightarrow> actor \<Rightarrow> nat \<Rightarrow> db \<Rightarrow> (queue_error, db) result" where
  "enqueue_frozen_cleanup w a i d =
     (case instances d i of
        None \<Rightarrow> Inr d
      | Some r \<Rightarrow>
     (case i_move_frozen_source_host_id r of
        None \<Rightarrow> Inr d
      | Some h \<Rightarrow>
          if \<not> frozen_copy_reachable d r then Inr (forget_frozen_copy i h r d)
          else if \<exists>j \<in> set (jobs d). instance_id j = Some i \<and> host_id j = h \<and>
                    job_type_id j = ''move_cleanup_source'' \<and>
                    (case state j of None \<Rightarrow> False | Some s \<Rightarrow> s \<in> set active_states)
          then Inr d
          else map_sum id snd (enqueue_plain w (sudo a) h (Some i) ''move_cleanup_source'' None False d)))"

definition enqueue ::
  "world \<Rightarrow> actor \<Rightarrow> nat \<Rightarrow> nat option \<Rightarrow> string \<Rightarrow> dict option \<Rightarrow> bool \<Rightarrow> db
     \<Rightarrow> (queue_error, nat \<times> db) result" where
  "enqueue w a host inst c p bypass d =
     (if c \<in> set (hidden_job_types w) \<or> \<not> given inst \<or> c \<notin> set (queue_clearing_job_types w)
      then enqueue_plain w a host inst c p bypass d
      else
        case enqueue_checks w a host inst c p bypass d of
          Inl e \<Rightarrow> Inl e
        | Inr t \<Rightarrow>
       (let s = scope_of_step inst (Some host); d1 = lock_scopes [s] d; waiting = queued_on d1 s in
        case check_may_end_waiting w a d1 waiting of
          Inl e \<Rightarrow> Inl e
        | Inr _ \<Rightarrow>
       (case enqueue_frozen_cleanup w a (the inst)
               (snd (cancel_queued w (map jid waiting) Instance_being_deleted None True d1)) of
          Inl e \<Rightarrow> Inl e
        | Inr d2 \<Rightarrow> admit_and_queue w a host inst c t p bypass d2)))"

section \<open>\<^verbatim>\<open>enqueue_chain\<close>\<close>

record chain_step =
  st_host :: nat
  st_instance :: "nat option"
  st_code :: string
  st_payload :: "dict option"

definition step_scope :: "chain_step \<Rightarrow> scope" where
  "step_scope st = scope_of_step (st_instance st) (Some (st_host st))"

text \<open>The first refusal of a list of checks, if any.\<close>

fun check_all :: "('a \<Rightarrow> (queue_error, unit) result) \<Rightarrow> 'a list \<Rightarrow> (queue_error, unit) result" where
  "check_all f [] = Inr ()"
| "check_all f (x # xs) = (case f x of Inl e \<Rightarrow> Inl e | Inr _ \<Rightarrow> check_all f xs)"

definition chain_checks ::
  "world \<Rightarrow> actor \<Rightarrow> chain_step list \<Rightarrow> bool \<Rightarrow> db \<Rightarrow> (queue_error, unit) result" where
  "chain_checks w a steps bypass d =
     (case check_all (\<lambda>st. may_ask w a d (st_code st) (st_instance st)) steps of
        Inl e \<Rightarrow> Inl e | Inr _ \<Rightarrow>
     (case check_internal_queue_flags a bypass (map st_payload steps) of
        Inl e \<Rightarrow> Inl e | Inr _ \<Rightarrow>
     (case check_all (\<lambda>st. case check_target_access a (st_instance st) (st_host st) of
                             Inl e \<Rightarrow> Inl e
                           | Inr _ \<Rightarrow> check_step_host a d (st_instance st) (st_host st)) steps of
        Inl e \<Rightarrow> Inl e | Inr _ \<Rightarrow>
      check_all (\<lambda>st. if types d (st_code st) = None then Inl (Type_not_found (st_code st))
                      else Inr ()) steps)))"

definition chain_admission ::
  "world \<Rightarrow> chain_step list \<Rightarrow> bool \<Rightarrow> db \<Rightarrow> scope \<Rightarrow> (queue_error, unit) result" where
  "chain_admission w steps head d s =
     (case check_all (\<lambda>st. case types d (st_code st) of
                             None \<Rightarrow> Inr ()
                           | Some t \<Rightarrow> check_queue_exclusive w d t s)
             (filter (\<lambda>st. step_scope st = s) steps) of
        Inl e \<Rightarrow> Inl e
      | Inr _ \<Rightarrow> if head then Inr () else check_queue_cap w d s)"

fun create_steps ::
  "actor \<Rightarrow> nat \<Rightarrow> bool \<Rightarrow> chain_step list \<Rightarrow> db \<Rightarrow> (queue_error, nat list \<times> db) result" where
  "create_steps a key head [] d = Inr ([], d)"
| "create_steps a key head (st # sts) d =
     (case create_queued a
             ((new_job (st_code st) (st_host st) (st_instance st))
                \<lparr>payload := st_payload st, queue_chain_key := Some key, queue_head := head,
                 state := Some Queued\<rparr>) d of
        Inl e \<Rightarrow> Inl e
      | Inr (i, d') \<Rightarrow> map_sum id (\<lambda>(ids, d''). (i # ids, d'')) (create_steps a key head sts d'))"

definition audit_step :: "world \<Rightarrow> nat \<Rightarrow> db \<Rightarrow> db" where
  "audit_step w i d =
     (case job_of d i of
        None \<Rightarrow> d
      | Some j \<Rightarrow> if hidden w j then d else add_audit (job_type_id j) (instance_id j) (host_id j) i d)"

text \<open>The chain's key is a new \<^verbatim>\<open>uuid4\<close>: one no row has. The scopes are a
  set; whichever the fast path takes first, it dispatches the one entry there
  is.\<close>

definition enqueue_chain ::
  "world \<Rightarrow> actor \<Rightarrow> chain_step list \<Rightarrow> bool \<Rightarrow> db \<Rightarrow> (queue_error, nat list \<times> db) result" where
  "enqueue_chain w a steps bypass d =
     (case chain_checks w a steps bypass d of
        Inl e \<Rightarrow> Inl e
      | Inr _ \<Rightarrow>
     (let ss = uniq (map step_scope steps); d1 = lock_scopes ss d in
      case check_all (chain_admission w steps bypass d1) ss of
        Inl e \<Rightarrow> Inl e
      | Inr _ \<Rightarrow>
     (case create_steps a (next_uuid d1) bypass steps (d1\<lparr>next_uuid := Suc (next_uuid d1)\<rparr>) of
        Inl e \<Rightarrow> Inl e
      | Inr (ids, d2) \<Rightarrow>
          if steps = [] then Inl Empty_chain
          else map_sum id (\<lambda>d3. (ids, d3)) (serve_now_or_later w ss ids (fold (audit_step w) ids d2)))))"

section \<open>\<^verbatim>\<open>retry_job\<close>\<close>

definition check_retry_of_a_move_step ::
  "world \<Rightarrow> db \<Rightarrow> cloud_job \<Rightarrow> (queue_error, unit) result" where
  "check_retry_of_a_move_step w d j =
     (let r = retry_root d j; i = inst_of d r in
      if \<not> is_a_move_step d r then Inr ()
      else let moving = (case i of None \<Rightarrow> False | Some x \<Rightarrow> i_move_origin_host_id x \<noteq> None);
               current = (moving \<and> (case i of None \<Rightarrow> False | Some x \<Rightarrow> jid r \<in> set (i_move_chain_job_ids x)));
               back = (case i of None \<Rightarrow> False | Some x \<Rightarrow> i_move_rollback_in_progress x)
           in if \<not> current \<and> \<not> pinned_to_host w j then Inl Move_over
              else if moving \<or> back then Inl Move_in_progress else Inr ())"

definition is_active_retry_of :: "nat \<Rightarrow> cloud_job \<Rightarrow> bool" where
  "is_active_retry_of i j \<longleftrightarrow>
     retry_of_id j = Some i \<and> (case state j of None \<Rightarrow> False | Some s \<Rightarrow> s \<in> set active_states)"

definition retry_job :: "world \<Rightarrow> actor \<Rightarrow> cloud_job \<Rightarrow> db \<Rightarrow> (queue_error, nat \<times> db) result" where
  "retry_job w a j d =
     (if blocked_alert_id j \<noteq> None then Inl Waits_for_alert
      else if state j \<noteq> Some Failed then Inl Not_failed
      else case may_ask w a d (job_type_id j) (instance_id j) of Inl e \<Rightarrow> Inl e | Inr _ \<Rightarrow>
     (case check_retry_of_a_move_step w d j of Inl e \<Rightarrow> Inl e | Inr _ \<Rightarrow>
     (let s = scope_of j; d1 = lock_scopes [s] d in
      if (\<exists>x \<in> set (jobs d1). is_active_retry_of (jid j) x) \<or>
         fresh_only w d1 (is_active_retry_of (jid j)) \<noteq> []
      then Inl Retry_waiting
      else case create_queued a
                  ((new_job (job_type_id j) (host_id j) (instance_id j))
                     \<lparr>payload := payload j, secret_payload := secret_payload j,
                      retry_of_id := Some (jid j), queue_head := True, state := Some Queued\<rparr>) d1 of
             Inl e \<Rightarrow> Inl e
           | Inr (i, d2) \<Rightarrow> Inr (i, schedule_dispatch [s] d2))))"

section \<open>\<^verbatim>\<open>unblock_and_enqueue\<close>\<close>

definition unblock_and_enqueue ::
  "world \<Rightarrow> actor \<Rightarrow> cloud_job \<Rightarrow> db \<Rightarrow> (queue_error, db) result" where
  "unblock_and_enqueue w a j d =
     (case may_ask w a d (job_type_id j) (instance_id j) of Inl e \<Rightarrow> Inl e | Inr _ \<Rightarrow>
      if \<not> is_su a \<and> \<not> writes_job a (jid j) then Inl Write_refused
      else if \<not> is_su a \<and> blocked_alert_id j = None then Inl Not_blocked
      else if (case inst_of d j of None \<Rightarrow> False | Some r \<Rightarrow> \<not> i_deployed r \<and> i_host_id r = None)
      then Inl Host_required
      else
       (let i = jid j;
            d1 = (case inst_of d j of
                    None \<Rightarrow> d
                  | Some r \<Rightarrow>
                      (case i_host_id r of
                         Some h \<Rightarrow> if \<not> i_deployed r \<and> h \<noteq> host_id j
                                   then write_jobs [i] (\<lambda>x. x\<lparr>host_id := h\<rparr>) d else d
                       | None \<Rightarrow> d));
            s = (case job_of d1 i of None \<Rightarrow> scope_of j | Some x \<Rightarrow> scope_of x);
            d2 = lock_scopes [s] d1;
            twins = (if given (instance_id j)
                     then map jid (filter (\<lambda>x. jid x \<noteq> i \<and> instance_id x = instance_id j \<and>
                                  job_type_id x = job_type_id j \<and> blocked_alert_id x \<noteq> None \<and>
                                  (is_su a \<or> reads_job a (jid x))) (jobs d2)) else []);
            d3 = fold (run_after_terminal w Cancelled) twins
                   (write_jobs twins (\<lambda>x. x\<lparr>state := Some Cancelled, blocked_alert_id := None\<rparr>) d2);
            d4 = write_jobs [i] (\<lambda>x. x\<lparr>blocked_alert_id := None\<rparr>) d3
        in case (if executors w (job_type_id j) = None then Some d4 else hooks w (On_unblocked i) d4) of
             None \<Rightarrow> Inl Hook_raised
           | Some d5 \<Rightarrow>
               Inr (schedule_dispatch [s]
                 (write_jobs [i] (\<lambda>x. x\<lparr>state := Some Queued, queue_head := False,
                                        asked_as_superuser := is_su a\<rparr>) d5))))"

end
