(* ===== verification/Entry_Facts.thy ===== *)
theory Entry_Facts
  imports Job_Entry
begin

text \<open>
  What the entry points guarantee: every one of them keeps one entry at a time
  on each target; a caller gets in only with the role, the access and the flags
  that are theirs; a full queue takes nobody else; a failure has one retry at a
  time.
\<close>

section \<open>Keeping the queue's invariants\<close>

definition calm :: "world \<Rightarrow> db \<Rightarrow> db \<Rightarrow> bool" where
  "calm w d d' \<longleftrightarrow> wf_db d' \<and> quieter w d d'"

definition keeps :: "world \<Rightarrow> db \<Rightarrow> db \<Rightarrow> bool" where
  "keeps w d d' \<longleftrightarrow> wf_db d' \<and> (serial w d \<longrightarrow> serial w d')"

lemma calm_trans: "calm w a b \<Longrightarrow> calm w b c \<Longrightarrow> calm w a c"
  by (auto simp: calm_def intro: quieter_trans)

lemma keeps_trans: "keeps w a b \<Longrightarrow> keeps w b c \<Longrightarrow> keeps w a c"
  by (auto simp: keeps_def)

lemma calm_keeps: "wf_db d \<Longrightarrow> calm w d d' \<Longrightarrow> keeps w d d'"
  by (auto simp: calm_def keeps_def intro: quieter_serial wf_dbD(2))

lemma settles_calm: "settles w S d d' \<Longrightarrow> calm w d d'"
  by (simp add: settles_def calm_def)

lemma rows_calm:
  assumes "wf_db d" and "jobs d' = jobs d" and "qjobs d' = qjobs d"
    and "next_job_id d' = next_job_id d" and "next_uuid d \<le> next_uuid d'"
  shows "calm w d d'"
proof -
  have run: "queue_job_running d' = queue_job_running d"
    using assms(3) by (intro ext) (simp add: queue_job_running_def)
  then have "job_running d' = job_running d" by (intro ext) (simp add: job_running_def split: option.split)
  then have "occupies w d' = occupies w d" using assms(2) by (intro ext) (simp add: occupies_def)
  then have "quieter w d d'" by (auto simp: quieter_def)
  moreover have "one_link d'" using wf_dbD(9) [OF assms(1)] by (simp only: one_link_def assms(2))
  then have "wf_db d'"
    using assms(2-4) run wf_dbD(1-3,6,7) [OF assms(1)]
      wf_dbD(5,8) [OF assms(1), THEN less_le_trans, OF _ _ assms(5)]
      wf_dbD(4) [OF assms(1), THEN less_le_trans, OF _ assms(5)]
    unfolding wf_db_def wf_ids_def ids_positive_def
    by (auto split: option.split)
  ultimately show ?thesis by (simp add: calm_def)
qed

named_theorems calm_ops \<open>operations that start nothing\<close>

lemma frame_calm [calm_ops]:
  assumes "wf_db d"
  shows "calm w d d" "calm w d (lock_scopes ss d)" "calm w d (add_audit x y z i d)"
    "calm w d (schedule_dispatch ss d)" "calm w d (broadcast i st d)"
    "calm w d (snd (raise_alert c cr h i' j k d))" "calm w d (forget_frozen_copy i2 h2 r d)"
  using assms
  by (auto intro!: rows_calm simp: lock_scopes_def add_audit_def schedule_dispatch_def broadcast_def
      raise_alert_def forget_frozen_copy_def split: option.split)

lemma dismiss_calm [calm_ops]: "wf_db d \<Longrightarrow> calm w d (dismiss_alerts w' ids d)"
  by (auto intro!: rows_calm simp: dismiss_alerts_def on_holding_alert_closed_def
      schedule_dispatch_def Let_def)

lemma write_calm:
  assumes "wf_db d" and f: "\<And>j. jid (f j) = jid j" "\<And>j. instance_id (f j) = instance_id j"
    "\<And>j. queue_job_uuid (f j) = queue_job_uuid j" "\<And>j. state (f j) = state j \<or> state (f j) = None"
    "\<And>j. queue_chain_key (f j) = queue_chain_key j" "\<And>j. job_type_id (f j) = job_type_id j"
    "\<And>j. host_id (f j) = host_id j"
  shows "calm w d (write_jobs ids f d)"
  unfolding calm_def
proof
  have "state j = Some Queued" if "state (f j) = Some Queued" for j using f(4) [of j] that by auto
  then show "wf_db (write_jobs ids f d)" by (rule wf_write_jobs [OF assms(1) f(1-3) _ f(5)])
  show "quieter w d (write_jobs ids f d)"
  proof (rule write_quieter [where S = "set ids" and f = f])
    show "jobs (write_jobs ids f d) = write_rows jid (\<lambda>i. i \<in> set ids) f (jobs d)" by (rule jobs_write_jobs)
    show "key_of (f j) = key_of j" for j by (simp add: key_of_def f split: option.split)
    show "job_running d j" if "job_running (write_jobs ids f d) (f j)" for j
      using f(4) [of j]
    proof (elim disjE)
      assume "state (f j) = state j"
      then show ?thesis
        using that by (simp add: job_running_def queue_job_running_def f(3) cong: option.case_cong)
    next
      assume "state (f j) = None"
      then show ?thesis using that by (simp add: job_running_def)
    qed
  qed (auto simp: f write_jobs_running in_scope_def)
qed

lemma block_on_calm [calm_ops]: "wf_db d \<Longrightarrow> calm w d (block_on i al d)"
  unfolding block_on_def by (rule write_calm) auto

text \<open>A new row that does not run and joins no running chain.\<close>

lemma add_job_calm:
  assumes "wf_db d" and "jid j = next_job_id d" and "queue_job_uuid j = None"
    and "instance_id j \<noteq> Some 0" and "state j \<in> {None, Some Queued}"
    and key: "\<And>k r. queue_chain_key j = Some k \<Longrightarrow> k < next_uuid d \<and>
              (r \<in> set (jobs d) \<longrightarrow> queue_chain_key r = Some k \<longrightarrow> \<not> job_running d r)"
  shows "calm w d (d\<lparr>jobs := jobs d @ [j], next_job_id := Suc (next_job_id d)\<rparr>)"
  unfolding calm_def
proof
  let ?d = "d\<lparr>jobs := jobs d @ [j], next_job_id := Suc (next_job_id d)\<rparr>"
  have run: "job_running ?d = job_running d" "queue_job_running ?d = queue_job_running d"
    by (auto simp: job_running_def queue_job_running_def fun_eq_iff split: option.split)
  have "\<not> job_running d j" using assms(5) by (auto simp: job_running_def)
  then have "occupies w d r s" if "occupies w ?d r s" for r s
    using that key by (auto simp: occupies_def run)
  then show "quieter w d ?d" by (auto simp: quieter_def)
  have "jid j \<notin> jid ` set (jobs d)" using wf_dbD(3) [OF assms(1)] assms(2) by fastforce
  then have "wf_ids ?d" using wf_dbD(1) [OF assms(1)] by (simp add: wf_ids_def)
  moreover have "\<not> queue_job_running d j" using assms(3) by (simp add: queue_job_running_def)
  moreover have "one_link ?d"
    by (rule one_link_by_rows [OF wf_dbD(9) [OF assms(1)]]) (use assms(3) in auto)
  ultimately show "wf_db ?d"
    using assms wf_dbD(1-8) [OF assms(1)] key unfolding wf_db_def ids_positive_def run(2)
    by (auto split: option.splits simp: less_SucI)
qed

lemma create_queued_calm:
  assumes "wf_db d" and "create_queued a v d = Inr (i, d')" and "queue_job_uuid v = None"
    and "instance_id v \<noteq> Some 0" and "state v \<in> {None, Some Queued}"
    and "\<And>k r. queue_chain_key v = Some k \<Longrightarrow> k < next_uuid d \<and>
              (r \<in> set (jobs d) \<longrightarrow> queue_chain_key r = Some k \<longrightarrow> \<not> job_running d r)"
  shows "calm w d d'"
proof -
  let ?j = "v\<lparr>jid := next_job_id d, create_uid := uid (who a), create_date := clock d,
              asked_as_superuser := is_su a\<rparr>"
  let ?d = "d\<lparr>jobs := jobs d @ [?j], next_job_id := Suc (next_job_id d)\<rparr>"
  have d': "d' = broadcast i Job_created ?d" using assms(2) by (auto simp: create_queued_def Let_def split: if_splits)
  have "calm w d ?d" by (rule add_job_calm [OF assms(1)]) (use assms in auto)
  then show ?thesis unfolding d' using calm_trans frame_calm(5) calm_def by metis
qed

lemma create_queued_row:
  assumes "create_queued a v d = Inr (i, d')"
  shows "i = next_job_id d" "qjobs d' = qjobs d" "next_uuid d' = next_uuid d"
    "jobs d' = jobs d @ [v\<lparr>jid := next_job_id d, create_uid := uid (who a), create_date := clock d,
                          asked_as_superuser := is_su a\<rparr>]"
  using assms by (auto simp: create_queued_def Let_def broadcast_def split: if_splits)

section \<open>A hidden job starts beside the queue\<close>

lemma hidden_not_visible: "c \<in> set (hidden_job_types w) \<Longrightarrow> job_type_id j = c \<Longrightarrow> \<not> visible w j"
  by (auto simp: visible_def)

lemma hidden_dispatch_calm:
  assumes "wf_db d" and "job_of d i = Some j" and "\<not> visible w j" and "queue_chain_key j = None"
  shows "calm w d (dispatch_single w' i d)"
  unfolding calm_def
proof
  let ?q = "new_queue_job d j (max_retries_of w' j)" and ?d = "dispatch_single w' i d"
  let ?f = "\<lambda>j. j\<lparr>queue_job_uuid := Some (next_uuid d), state := Some Pending\<rparr>"
  have j: "j \<in> set (jobs d)" "jid j = i" using assms(1,2) job_of_Some wf_dbD(1) by auto
  have b: "begins w (key_of j) d ?d"
    by (rule dispatch_single_begins [OF assms(1)]) (use j same_jid [OF wf_dbD(1) [OF assms(1)]] in blast)
  then show "wf_db ?d" by (rule begins_wf)
  have jobs': "jobs ?d = write_rows jid (\<lambda>k. k \<in> {i}) ?f (jobs d)"
    using assms(2) by (simp add: dispatch_single_def broadcast_def)
  show "quieter w d ?d"
    unfolding quieter_def
  proof (intro allI impI)
    fix s r' assume occ: "occupies w ?d r' s"
    have "key_of r' \<noteq> key_of j"
    proof
      assume "key_of r' = key_of j"
      then have r': "queue_chain_key r' = None" "jid r' = i" using assms(4) j(2) by (auto simp: key_of_eq)
      obtain r where r: "r \<in> set (jobs d)" "r' = (if jid r = i then ?f r else r)"
        using occ jobs' by (auto simp: occupies_def write_rows_def)
      then have "r = j" using r' j same_jid [OF wf_dbD(1) [OF assms(1)]] by (auto split: if_splits)
      then show False using occ r r'(1) assms(3) j(2) by (auto simp: occupies_def visible_def)
    qed
    then show "\<exists>r. occupies w d r s \<and> key_of r = key_of r'"
      using b occ unfolding begins_def by blast
  qed
qed

section \<open>Every entry point keeps the invariants\<close>

lemma calm_wf: "calm w d d' \<Longrightarrow> wf_db d'"
  by (simp add: calm_def)

lemma keeps_wf: "keeps w d d' \<Longrightarrow> wf_db d'"
  by (simp add: keeps_def)

lemma conflict_gate_calm:
  assumes "wf_db d" and "conflict_gate w' a inst i d = Inr (b, d')"
  shows "calm w d d'"
proof (cases "case instances d inst of None \<Rightarrow> False | Some r \<Rightarrow> i_pip_conflicts r")
  case True
  let ?r = "raise_alert ''pip_conflict'' False None (Some inst) None None d"
  have r: "calm w d (snd ?r)" by (rule frame_calm [OF assms(1)])
  then show ?thesis
    using assms(2) True calm_trans [OF r block_on_calm [OF calm_wf [OF r]]]
    by (auto simp: conflict_gate_def split: prod.splits)
next
  case False
  then obtain ids where d': "d' = dismiss_alerts w' ids d \<or> (\<exists>al. d' = block_on i al (dismiss_alerts w' ids d))"
    using assms(2) by (auto simp: conflict_gate_def Let_def split: if_splits list.splits)
  have d1: "calm w d (dismiss_alerts w' ids d)" by (rule dismiss_calm [OF assms(1)])
  have "calm w (dismiss_alerts w' ids d) (block_on i al (dismiss_alerts w' ids d))" for al
    by (rule block_on_calm [OF calm_wf [OF d1]])
  then show ?thesis using d' d1 calm_trans [OF d1] by blast
qed

lemma dispatch_next_does_keep:
  assumes "hooks_ok w" and "wf_db d" and "dispatch_next w s d = Inr (e, d')" and "serial w d"
  shows "keeps w d d'"
  using dispatch_next_keeps [OF assms(1,2,4,3)] by (simp add: keeps_def)

lemma serve_keeps:
  assumes "hooks_ok w" and "wf_db d" and "serial w d" and "serve_now_or_later w ss ids d = Inr d'"
  shows "keeps w d d'"
proof -
  let ?q = "list_all (\<lambda>s. scope_quiet w d s ids \<and> scope_quiet_fresh w s ids) ss"
  obtain d1 where d1: "(if ?q then map_sum id snd (dispatch_next w (hd ss) d) else Inr d) = Inr d1"
    and d': "d' = d1 \<or> d' = schedule_dispatch ss d1"
    using assms(4) unfolding serve_now_or_later_def by (auto split: sum.splits if_split_asm)
  have k1: "keeps w d d1"
  proof (cases ?q)
    case True
    then obtain e where "dispatch_next w (hd ss) d = Inr (e, d1)"
      using d1 by (cases "dispatch_next w (hd ss) d") auto
    then show ?thesis using assms dispatch_next_does_keep by blast
  next
    case False
    then have "d1 = d" using d1 by (simp only: if_False sum.inject)
    then show ?thesis using assms(2) by (simp add: keeps_def)
  qed
  have "keeps w d1 d'"
    using d' calm_keeps [OF keeps_wf [OF k1]] frame_calm [OF keeps_wf [OF k1]] by metis
  then show ?thesis by (rule keeps_trans [OF k1])
qed

lemma new_job_simps [simp]:
  "queue_job_uuid (new_job c h i) = None" "queue_chain_key (new_job c h i) = None"
  "instance_id (new_job c h i) \<noteq> Some 0" "job_type_id (new_job c h i) = c"
  "state (new_job c h i) = None"
  by (auto simp: new_job_def given_def)

lemma hidden_start_calm:
  assumes "wf_db d" and "create_queued a v d = Inr (i, d1)" and "calm w d1 d2"
    and row: "job_of d2 i = Some j" and "job_type_id j \<in> set (hidden_job_types w)"
    and "queue_chain_key j = None"
  shows "calm w d2 (dispatch_single w i d2)"
  by (rule hidden_dispatch_calm [OF calm_wf [OF assms(3)] row _ assms(6)])
    (use assms(5) hidden_not_visible in blast)

lemma job_of_write_field:
  assumes "wf_ids d" and "\<And>j. jid (f j) = jid j"
  shows "job_of (write_jobs ids f d) i = map_option (\<lambda>j. if i \<in> set ids then f j else j) (job_of d i)"
  using assms by (simp add: job_of_def jobs_write_jobs wf_ids_def cloud_jobs.browse_write)

lemma conflict_gate_open:
  assumes "conflict_gate w a inst i d = Inr (False, d')"
  shows "jobs d' = jobs d"
  using assms
  by (auto simp: conflict_gate_def Let_def dismiss_alerts_def on_holding_alert_closed_def
      schedule_dispatch_def split: if_splits list.splits prod.splits)

lemma queue_new_keeps:
  assumes "hooks_ok w" and "wf_db d" and "serial w d" and "queue_new w a host inst c p head d = Inr (i, d')"
  shows "keeps w d d'"
proof -
  let ?hid = "c \<in> set (hidden_job_types w)"
  let ?v = "(new_job c host inst)\<lparr>queue_head := head, state := (if ?hid then None else Some Queued),
                payload := (case p of Some (x # xs) \<Rightarrow> p | _ \<Rightarrow> None)\<rparr>"
  let ?g = "\<lambda>d1 i. if given inst \<and> c \<in> set pip_blocked_types
            then conflict_gate w a (the inst) i d1 else Inr (False, d1)"
  obtain k d1 where c1: "create_queued a ?v d = Inr (k, d1)"
    using assms(4) by (cases "create_queued a ?v d") (auto simp: queue_new_def Let_def)
  obtain b d2 where c2: "?g d1 k = Inr (b, d2)"
    using assms(4) c1 by (cases "?g d1 k") (auto simp: queue_new_def Let_def)
  have v1: "queue_job_uuid ?v = None" "instance_id ?v \<noteq> Some 0" "state ?v \<in> {None, Some Queued}"
    "queue_chain_key ?v = None" using new_job_simps by simp_all
  have k1: "calm w d d1" by (rule create_queued_calm [OF assms(2) c1 v1(1-3)]) (use v1(4) in auto)
  have k2: "calm w d1 d2"
    using c2 conflict_gate_calm [OF calm_wf [OF k1]] frame_calm(1) [OF calm_wf [OF k1]]
    by (auto split: if_splits)
  have k12: "keeps w d d2" using calm_keeps [OF assms(2) calm_trans [OF k1 k2]] .
  consider "b" "d' = d2" | "\<not> b" "?hid" "d' = dispatch_single w k d2"
    | d3 where "\<not> b" "\<not> ?hid" "d' = d3"
      "serve_now_or_later w [scope_of_step inst (Some host)] [k]
         (add_audit c (if given inst then inst else None) host k d2) = Inr d3"
    using assms(4) c1 c2 by (cases b) (auto simp: queue_new_def Let_def split: if_splits
        elim!: map_sum_InrE)
  then show ?thesis
  proof cases
    case 1
    then show ?thesis using k12 by simp
  next
    case 2
    let ?j = "?v\<lparr>jid := next_job_id d, create_uid := uid (who a), create_date := clock d,
                  asked_as_superuser := is_su a\<rparr>"
    have "jobs d2 = jobs d1" using c2 2(1) conflict_gate_open by (auto split: if_splits)
    then have "?j \<in> set (jobs d2)" using create_queued_row(4) [OF c1] by simp
    then have "job_of d2 k = Some ?j"
      using job_of_Some [OF wf_dbD(1) [OF calm_wf [OF k2]]] create_queued_row(1) [OF c1] by simp
    then have "calm w d2 d'"
      unfolding 2(3) by (rule hidden_start_calm [OF assms(2) c1 k2]) (use 2(2) v1(4) in simp_all)
    then show ?thesis using keeps_trans [OF k12 calm_keeps [OF keeps_wf [OF k12]]] by blast
  next
    case 3
    let ?d = "add_audit c (if given inst then inst else None) host k d2"
    have a: "keeps w d ?d"
      using keeps_trans [OF k12 calm_keeps [OF keeps_wf [OF k12]]] frame_calm(3) [OF keeps_wf [OF k12]] by blast
    then have "keeps w ?d d'"
      using serve_keeps [OF assms(1) keeps_wf [OF a] _ 3(4)] assms(3) 3(3) by (simp add: keeps_def)
    then show ?thesis by (rule keeps_trans [OF a])
  qed
qed

lemma admission_calm:
  assumes "wf_db d" and "check_queue_admission w' d t s p head = Inr (r, d')"
  shows "calm w d d'"
proof -
  have "d' = d \<or> (\<exists>i q. d' = write_jobs [i] (\<lambda>j. j\<lparr>payload := Some q\<rparr>) d)"
    using assms(2) by (auto simp: check_queue_admission_def split: option.splits sum.splits if_splits prod.splits)
  moreover have "calm w d (write_jobs [i] (\<lambda>j. j\<lparr>payload := Some q\<rparr>) d)" for i q
    by (rule write_calm [OF assms(1)]) auto
  ultimately show ?thesis using frame_calm(1) [OF assms(1)] by auto
qed

lemma admit_keeps:
  assumes "hooks_ok w" and "wf_db d" and "serial w d"
    and "admit_and_queue w a host inst c t p head d = Inr (i, d')"
  shows "keeps w d d'"
proof -
  obtain r d1 where r: "check_queue_admission w d t (scope_of_step inst (Some host)) p head = Inr (r, d1)"
    using assms(4) by (cases "check_queue_admission w d t (scope_of_step inst (Some host)) p head")
      (auto simp: admit_and_queue_def)
  have k: "keeps w d d1" by (rule calm_keeps [OF assms(2) admission_calm [OF assms(2) r]])
  then have ser: "serial w d1" using assms(3) by (simp add: keeps_def)
  show ?thesis
  proof (cases r)
    case None
    then have "queue_new w a host inst c p head d1 = Inr (i, d')"
      using assms(4) r by (simp add: admit_and_queue_def)
    then show ?thesis using keeps_trans [OF k] queue_new_keeps [OF assms(1) keeps_wf [OF k] ser] by blast
  next
    case (Some x)
    then show ?thesis using assms(4) r k by (simp add: admit_and_queue_def)
  qed
qed

lemma lock_keeps: "wf_db d \<Longrightarrow> keeps w d (lock_scopes ss d)"
  by (rule calm_keeps) (auto intro: frame_calm)

lemma enqueue_plain_keeps:
  assumes "hooks_ok w" and "wf_db d" and "serial w d"
    and "enqueue_plain w a host inst c p bypass d = Inr (i, d')"
  shows "keeps w d d'"
proof -
  obtain t where t: "enqueue_checks w a host inst c p bypass d = Inr t"
    using assms(4) by (cases "enqueue_checks w a host inst c p bypass d") (auto simp: enqueue_plain_def)
  show ?thesis
  proof (cases "c \<in> set (hidden_job_types w)")
    case True
    then show ?thesis using assms queue_new_keeps t by (simp add: enqueue_plain_def)
  next
    case False
    let ?d = "lock_scopes [scope_of_step inst (Some host)] d"
    have k: "keeps w d ?d" by (rule lock_keeps [OF assms(2)])
    then have "keeps w ?d d'"
      using admit_keeps [OF assms(1) keeps_wf [OF k]] assms(3,4) t False
      by (simp add: enqueue_plain_def keeps_def)
    then show ?thesis by (rule keeps_trans [OF k])
  qed
qed

lemma frozen_cleanup_keeps:
  assumes "hooks_ok w" and "wf_db d" and "serial w d" and "enqueue_frozen_cleanup w a i d = Inr d'"
  shows "keeps w d d'"
proof -
  consider "d' = d" | h r where "d' = forget_frozen_copy i h r d"
    | h k where "enqueue_plain w (sudo a) h (Some i) ''move_cleanup_source'' None False d = Inr (k, d')"
    using assms(4) by (auto simp: enqueue_frozen_cleanup_def split: option.splits if_splits elim!: map_sum_InrE)
  then show ?thesis
  proof cases
    case 2
    then show ?thesis using calm_keeps [OF assms(2)] frame_calm(7) [OF assms(2)] by simp
  next
    case 3
    then show ?thesis by (rule enqueue_plain_keeps [OF assms(1-3)])
  qed (use assms(2) in \<open>simp add: keeps_def\<close>)
qed

lemma enqueue_keeps:
  assumes "hooks_ok w" and "wf_db d" and "serial w d"
    and "enqueue w a host inst c p bypass d = Inr (i, d')"
  shows "keeps w d d'"
proof (cases "c \<in> set (hidden_job_types w) \<or> \<not> given inst \<or> c \<notin> set (queue_clearing_job_types w)")
  case True
  then show ?thesis using assms enqueue_plain_keeps by (simp add: enqueue_def)
next
  case False
  let ?s = "scope_of_step inst (Some host)"
  let ?d1 = "lock_scopes [?s] d"
  let ?d2 = "snd (cancel_queued w (map jid (queued_on ?d1 ?s)) Instance_being_deleted None True ?d1)"
  obtain t d3 where d3: "enqueue_frozen_cleanup w a (the inst) ?d2 = Inr d3"
    and d': "admit_and_queue w a host inst c t p bypass d3 = Inr (i, d')"
    using assms(4) False by (auto simp: enqueue_def Let_def split: sum.splits if_splits)
  have k1: "keeps w d ?d1" by (rule lock_keeps [OF assms(2)])
  have "calm w ?d1 ?d2"
    by (rule settles_calm, rule cancel_queued_settles [OF assms(1) keeps_wf [OF k1]]) (rule prod.collapse [symmetric])
  then have k2: "keeps w d ?d2" using keeps_trans [OF k1 calm_keeps [OF keeps_wf [OF k1]]] by blast
  then have "keeps w ?d2 d3"
    using frozen_cleanup_keeps [OF assms(1) keeps_wf [OF k2] _ d3] assms(3) by (simp add: keeps_def)
  then have k3: "keeps w d d3" by (rule keeps_trans [OF k2])
  then have "keeps w d3 d'"
    using admit_keeps [OF assms(1) keeps_wf [OF k3] _ d'] assms(3) by (simp add: keeps_def)
  then show ?thesis by (rule keeps_trans [OF k3])
qed

lemma queued_not_running: "state j = Some Queued \<Longrightarrow> \<not> job_running d j"
  by (simp add: job_running_def)

lemma create_steps_calm:
  assumes "wf_db d" and "k < next_uuid d"
    and "\<And>r. r \<in> set (jobs d) \<Longrightarrow> queue_chain_key r = Some k \<Longrightarrow> \<not> job_running d r"
    and "create_steps a k head steps d = Inr (ids, d')"
  shows "calm w d d'"
  using assms
proof (induction a k head steps d arbitrary: ids rule: create_steps.induct)
  case (1 a k head d)
  then show ?case by (simp add: frame_calm(1))
next
  case (2 a k head st sts d)
  let ?v = "(new_job (st_code st) (st_host st) (st_instance st))
                \<lparr>payload := st_payload st, queue_chain_key := Some k, queue_head := head, state := Some Queued\<rparr>"
  obtain i d1 where c: "create_queued a ?v d = Inr (i, d1)"
    using "2.prems"(4) by (cases "create_queued a ?v d") auto
  obtain ids' where rest: "create_steps a k head sts d1 = Inr (ids', d')"
    using "2.prems"(4) c by (auto elim!: map_sum_InrE)
  have k1: "calm w d d1"
    by (rule create_queued_calm [OF "2.prems"(1) c]) (use "2.prems"(2,3) new_job_simps in simp_all)
  have run: "job_running d1 r = job_running d r" for r
    using create_queued_row(2) [OF c] by (simp add: job_running_def queue_job_running_def split: option.split)
  have "calm w d1 d'"
  proof (rule "2.IH" [OF c refl calm_wf [OF k1] _ _ rest])
    show "k < next_uuid d1" using create_queued_row(3) [OF c] "2.prems"(2) by simp
    show "\<not> job_running d1 r" if "r \<in> set (jobs d1)" "queue_chain_key r = Some k" for r
      using that create_queued_row(4) [OF c] "2.prems"(3) by (auto simp: run queued_not_running)
  qed
  then show ?case by (rule calm_trans [OF k1])
qed

lemma audit_fold_calm: "wf_db d \<Longrightarrow> calm w d (fold (audit_step w') ids d)"
proof (induction ids arbitrary: d)
  case (Cons i ids)
  have "calm w d (audit_step w' i d)"
    using Cons.prems frame_calm(1,3) by (auto simp: audit_step_def split: option.split)
  then show ?case using Cons.IH [of "audit_step w' i d"] calm_trans calm_wf by fastforce
qed (simp add: frame_calm(1))

lemma enqueue_chain_keeps:
  assumes "hooks_ok w" and "wf_db d" and "serial w d" and "enqueue_chain w a steps bypass d = Inr (ids, d')"
  shows "keeps w d d'"
proof -
  let ?ss = "uniq (map step_scope steps)"
  let ?d1 = "lock_scopes ?ss d"
  let ?d2 = "?d1\<lparr>next_uuid := Suc (next_uuid ?d1)\<rparr>"
  obtain d3 where d3: "create_steps a (next_uuid ?d1) bypass steps ?d2 = Inr (ids, d3)"
    and d': "serve_now_or_later w ?ss ids (fold (audit_step w) ids d3) = Inr d'"
    using assms(4) by (auto simp: enqueue_chain_def Let_def split: sum.splits if_splits elim!: map_sum_InrE)
  have c1: "calm w d ?d1" by (rule frame_calm [OF assms(2)])
  have c2: "calm w ?d1 ?d2" by (rule rows_calm [OF calm_wf [OF c1]]) simp_all
  have "queue_chain_key r \<noteq> Some (next_uuid ?d1)" if "r \<in> set (jobs ?d2)" for r
    using that wf_dbD(8) [OF calm_wf [OF c1]] by fastforce
  then have c3: "calm w ?d2 d3" by (intro create_steps_calm [OF calm_wf [OF c2] _ _ d3]) auto
  have c4: "calm w d3 (fold (audit_step w) ids d3)" by (rule audit_fold_calm [OF calm_wf [OF c3]])
  have k: "keeps w d (fold (audit_step w) ids d3)"
    by (rule calm_keeps [OF assms(2) calm_trans [OF c1 calm_trans [OF c2 calm_trans [OF c3 c4]]]])
  then have "keeps w (fold (audit_step w) ids d3) d'"
    using serve_keeps [OF assms(1) keeps_wf [OF k] _ d'] assms(3) by (simp add: keeps_def)
  then show ?thesis by (rule keeps_trans [OF k])
qed

lemma retry_job_created:
  assumes "retry_job w a j d = Inr (i, d')"
  obtains d2 where
    "create_queued a ((new_job (job_type_id j) (host_id j) (instance_id j))
       \<lparr>payload := payload j, secret_payload := secret_payload j, retry_of_id := Some (jid j),
        queue_head := True, state := Some Queued\<rparr>) (lock_scopes [scope_of j] d) = Inr (i, d2)"
    "d' = schedule_dispatch [scope_of j] d2"
    "\<not> (\<exists>x \<in> set (jobs d). is_active_retry_of (jid j) x)"
    "state j = Some Failed" "blocked_alert_id j = None"
    "may_ask w a d (job_type_id j) (instance_id j) = Inr ()"
    "check_retry_of_a_move_step w d j = Inr ()"
  using assms that same_rows_reads(9) [OF same_rows_ops(1) [of d "[scope_of j]"]]
  by (auto simp: retry_job_def Let_def split: sum.splits if_splits)

lemma retry_keeps:
  assumes "wf_db d" and "retry_job w a j d = Inr (i, d')"
  shows "keeps w' d d'"
proof -
  let ?d1 = "lock_scopes [scope_of j] d"
  have c1: "calm w' d ?d1" by (rule frame_calm [OF assms(1)])
  show ?thesis
  proof (rule retry_job_created [OF assms(2)])
    fix d2
    assume c: "create_queued a ((new_job (job_type_id j) (host_id j) (instance_id j))
       \<lparr>payload := payload j, secret_payload := secret_payload j, retry_of_id := Some (jid j),
        queue_head := True, state := Some Queued\<rparr>) ?d1 = Inr (i, d2)"
      and d': "d' = schedule_dispatch [scope_of j] d2"
    have c2: "calm w' ?d1 d2" by (rule create_queued_calm [OF calm_wf [OF c1] c]) (use new_job_simps in simp_all)
    have "calm w' d2 d'" unfolding d' by (rule frame_calm [OF calm_wf [OF c2]])
    then show ?thesis using calm_keeps [OF assms(1)] calm_trans c1 c2 by blast
  qed
qed

text \<open>
  Whatever is asked for, a job (with the clearing of the queue and the clean-up
  of a frozen copy that a delete brings, and the start on a quiet target), a
  chain, or a retry, the entry points leave a state in which everything that
  occupies a target is one entry, if it was so before.
\<close>

theorem entry_points_keep_one_at_a_time:
  assumes "hooks_ok w" and "wf_db d" and "serial w d"
    and "(\<exists>host inst c p bypass i. enqueue w a host inst c p bypass d = Inr (i, d')) \<or>
         (\<exists>steps bypass ids. enqueue_chain w a steps bypass d = Inr (ids, d')) \<or>
         (\<exists>j i. retry_job w a j d = Inr (i, d'))"
  shows "wf_db d' \<and> serial w d'"
  using assms enqueue_keeps [OF assms(1-3)] enqueue_chain_keeps [OF assms(1-3)] retry_keeps [OF assms(2)]
  unfolding keeps_def by blast

text \<open>The shop's manager asks for a restart of its staging, whose queue is quiet
  but for the chain waiting there.\<close>

definition manager :: actor where
  "manager = \<lparr>who = \<lparr>su = False, uid = 2, has_group = (\<lambda>r. r = Group_cloud_manager)\<rparr>,
     reads_instance = (\<lambda>_. True), reads_host = (\<lambda>_. True), reads_job = (\<lambda>_. True),
     writes_job = (\<lambda>_. True), reads_alert = (\<lambda>_. True), writes_alert = (\<lambda>_. True),
     creates_job = (\<lambda>_. True)\<rparr>"

theorem entry_points_keep_one_at_a_time_witness:
  "\<exists>d'. enqueue (core_world shop_db) manager 1 (Some 9) ''restart_instance'' None False shop_db = Inr (5, d') \<and>
        wf_db d' \<and> serial (core_world shop_db) d'"
proof -
  have "map_sum id fst (enqueue (core_world shop_db) manager 1 (Some 9) ''restart_instance'' None False shop_db)
    = Inr 5" by code_simp
  then obtain d' where
    d': "enqueue (core_world shop_db) manager 1 (Some 9) ''restart_instance'' None False shop_db = Inr (5, d')"
    by (auto elim!: map_sum_InrE)
  then show ?thesis
    using entry_points_keep_one_at_a_time [OF core_hooks_ok shop_wf shop_serial] by blast
qed

section \<open>Who gets in\<close>

lemma merge_into_twin: "merge_into x js p = Some (i, q) \<Longrightarrow> \<exists>j \<in> set js. jid j = i"
  by (induction js) (auto split: option.splits)

lemma enqueue_checks_ok:
  assumes "enqueue_checks w a host inst c p bypass d = Inr t"
  shows "may_ask w a d c inst = Inr ()" "check_internal_queue_flags a bypass [p] = Inr ()"
    "check_target_access a inst host = Inr ()" "types d c = Some t"
  using assms by (auto simp: enqueue_checks_def split: sum.splits option.splits)

lemma enqueue_checked:
  assumes "enqueue w a host inst c p bypass d = Inr r"
  obtains t where "enqueue_checks w a host inst c p bypass d = Inr t"
  using assms that
  by (cases "enqueue_checks w a host inst c p bypass d")
     (auto simp: enqueue_def enqueue_plain_def split: if_splits)

lemma check_all_ok: "check_all f xs = Inr () \<longleftrightarrow> (\<forall>x \<in> set xs. f x = Inr ())"
  by (induction xs) (auto split: sum.split)

lemma enqueue_chain_checked:
  assumes "enqueue_chain w a steps bypass d = Inr r"
  shows "\<forall>st \<in> set steps. may_ask w a d (st_code st) (st_instance st) = Inr () \<and>
           check_target_access a (st_instance st) (st_host st) = Inr () \<and>
           check_step_host a d (st_instance st) (st_host st) = Inr ()"
    and "check_internal_queue_flags a bypass (map st_payload steps) = Inr ()"
proof -
  have ok: "chain_checks w a steps bypass d = Inr ()"
    using assms by (auto simp: enqueue_chain_def split: sum.splits)
  then show "check_internal_queue_flags a bypass (map st_payload steps) = Inr ()"
    by (auto simp: chain_checks_def split: sum.splits)
  show "\<forall>st \<in> set steps. may_ask w a d (st_code st) (st_instance st) = Inr () \<and>
           check_target_access a (st_instance st) (st_host st) = Inr () \<and>
           check_step_host a d (st_instance st) (st_host st) = Inr ()"
    using ok by (auto simp: chain_checks_def check_all_ok seq_ok)
qed





text \<open>
  Asking again is free. A type that collapses gives the identical request the
  job already waiting on its own in that queue, and the request changes nothing
  but the lock it takes: no row, no audit entry, no dispatch.
\<close>

theorem identical_request_collapses:
  assumes "enqueue_checks w a host inst c p bypass d = Inr t" and "queue_collapse t"
    and "c \<notin> set (hidden_job_types w)" and "\<not> given inst \<or> c \<notin> set (queue_clearing_job_types w)"
    and "s = scope_of_step inst (Some host)"
    and "j \<in> set (queued_on d s)" and "job_type_id j = code t" and "queue_chain_key j = None"
    and "same_load j p"
  shows "\<exists>k \<in> set (queued_on d s). same_load k p \<and> job_type_id k = code t \<and>
           enqueue w a host inst c p bypass d = Inr (jid k, lock_scopes [s] d)"
proof -
  let ?d = "lock_scopes [s] d"
  have q: "queued_on ?d = queued_on d"
    by (simp add: queued_on_def same_rows_reads [OF same_rows_ops(1)] fun_eq_iff)
  have "j \<in> set (twins ?d t s)" using assms(6-8) by (simp add: twins_def q)
  then obtain k where k: "find (\<lambda>j. same_load j p) (twins ?d t s) = Some k"
    using assms(9) by (cases "find (\<lambda>j. same_load j p) (twins ?d t s)") (auto simp: find_None_all)
  then have "k \<in> set (twins ?d t s)" "same_load k p" using find_Some_set by fastforce+
  moreover have "enqueue w a host inst c p bypass d = Inr (jid k, ?d)"
    using assms(1-5) k
    by (auto simp: enqueue_def enqueue_plain_def admit_and_queue_def check_queue_admission_def)
  ultimately show ?thesis by (auto simp: twins_def q)
qed

text \<open>The shop again, with restarts that collapse.\<close>

definition collapsing_db :: db where
  "collapsing_db = shop_db\<lparr>types := (\<lambda>c. Some ((blank_type c)\<lparr>queue_collapse := True\<rparr>))\<rparr>"

theorem identical_request_collapses_witness:
  "\<exists>k \<in> set (queued_on collapsing_db (Some 7, None)).
     enqueue (core_world collapsing_db) manager 1 (Some 7) ''restart_instance'' None False collapsing_db
       = Inr (jid k, lock_scopes [(Some 7, None)] collapsing_db)"
proof -
  let ?t = "(blank_type ''restart_instance'')\<lparr>queue_collapse := True\<rparr>" and ?j = "jobs collapsing_db ! 3"
  let ?w = "core_world collapsing_db"
  have "enqueue_checks ?w manager 1 (Some 7) ''restart_instance'' None False collapsing_db = Inr ?t"
    "queue_collapse ?t" "job_type_id ?j = code ?t" "queue_chain_key ?j = None" by code_simp+
  moreover have "''restart_instance'' \<notin> set (hidden_job_types ?w)"
    "''restart_instance'' \<notin> set (queue_clearing_job_types ?w)"
    "(Some 7, None) = scope_of_step (Some 7) (Some 1)" by code_simp+
  moreover have "?j \<in> set (queued_on collapsing_db (Some 7, None))" "same_load ?j None" by code_simp+
  ultimately show ?thesis
    using identical_request_collapses [of ?w manager 1 "Some 7" "''restart_instance''" None False
        collapsing_db ?t "(Some 7, None)" ?j] by blast
qed

text \<open>
  A failure has one retry at a time, and its retry is what gets past it: the
  job \<^verbatim>\<open>retry_job\<close> creates waits at the head of the failed job's queue, is let
  through while that failure holds it, and until it ends no second retry of the
  same job is accepted, from anyone.
\<close>

theorem one_retry_at_a_time:
  assumes "retry_job w a j d = Inr (i, d')" and "wf_db d" and "instance_id j \<noteq> Some 0"
  shows "(\<exists>x \<in> set (queued_on d' (scope_of j)). jid x = i \<and> queue_head x \<and>
            retry_of_id x = Some (jid j) \<and> passes_hold w' d' x [jid j]) \<and>
         (\<exists>e. retry_job w'' b j d' = Inl e)"
proof (rule retry_job_created [OF assms(1)])
  fix d2
  let ?d1 = "lock_scopes [scope_of j] d"
  let ?v = "(new_job (job_type_id j) (host_id j) (instance_id j))
       \<lparr>payload := payload j, secret_payload := secret_payload j, retry_of_id := Some (jid j),
        queue_head := True, state := Some Queued\<rparr>"
  assume c: "create_queued a ?v ?d1 = Inr (i, d2)" and d': "d' = schedule_dispatch [scope_of j] d2"
    and st: "state j = Some Failed" "blocked_alert_id j = None"
  let ?x = "?v\<lparr>jid := next_job_id ?d1, create_uid := uid (who a), create_date := clock ?d1,
               asked_as_superuser := is_su a\<rparr>"
  have x: "?x \<in> set (jobs d')" "jid ?x = i"
    using create_queued_row(1,4) [OF c] d' by (simp_all add: schedule_dispatch_def)
  have sc: "scope_of ?x = scope_of j" "instance_id ?x \<noteq> Some 0"
    using assms(3) by (auto simp: scope_of_def new_job_def scope_of_step_def given_def)
  have "waiting_in (scope_of j) ?x"
    using in_own_scope [OF sc(2)] sc(1) by (simp add: waiting_in_def new_job_def)
  moreover have "passes_hold w' d' ?x [jid j]" by (simp add: passes_hold_def)
  ultimately have "?x \<in> set (queued_on d' (scope_of j))" "queue_head ?x" "retry_of_id ?x = Some (jid j)"
    "passes_hold w' d' ?x [jid j]" using x(1) by simp_all
  then have 1: "\<exists>x \<in> set (queued_on d' (scope_of j)). jid x = i \<and> queue_head x \<and>
            retry_of_id x = Some (jid j) \<and> passes_hold w' d' x [jid j]" using x(2) by blast
  have "is_active_retry_of (jid j) ?x" by (simp add: is_active_retry_of_def)
  then have "\<exists>x \<in> set (jobs (lock_scopes [scope_of j] d')). is_active_retry_of (jid j) x"
    using x(1) by (auto simp: lock_scopes_def)
  then have "\<exists>e. retry_job w'' b j d' = Inl e"
    by (cases "retry_job w'' b j d'") (auto simp: retry_job_def Let_def split: sum.splits if_splits)
  then show ?thesis using 1 by blast
qed

theorem one_retry_at_a_time_witness:
  "\<exists>d'. retry_job (core_world held_db) manager (jobs held_db ! 0) held_db = Inr (3, d') \<and>
        (\<exists>e. retry_job (core_world held_db) manager (jobs held_db ! 0) d' = Inl e)"
proof -
  let ?r = "retry_job (core_world held_db) manager (jobs held_db ! 0) held_db"
  have "map_sum id fst ?r = Inr 3" by code_simp
  then obtain d' where d': "?r = Inr (3, d')" by (auto elim!: map_sum_InrE)
  moreover have "wf_db held_db" "instance_id (jobs held_db ! 0) \<noteq> Some 0" by code_simp+
  ultimately show ?thesis using one_retry_at_a_time [OF d'] by blast
qed

end
