(* ===== verification/Queue_Mirror.thy ===== *)
theory Queue_Mirror
  imports Entry_Facts
begin

text \<open>
  How a run's end reaches the panel: what \<^verbatim>\<open>models/queue_job_ext.py\<close> does when
  queue_job stores a state on one of its jobs (the stop that arrives as a
  failure, as a marked success or as a postponement; the success that came
  before the stop; the mirror on \<^verbatim>\<open>cloud.job\<close>; the end of a chain; the alerts),
  with \<^verbatim>\<open>_on_state_changed\<close>, \<^verbatim>\<open>_adopt_queue_job_state\<close>, the alerts of a failed job
  and \<^verbatim>\<open>cancel_job\<close> of \<^verbatim>\<open>models/cloud_job.py\<close>. Notifications by mail and to
  outside channels, the clock of the automatic purge and the unlink a delete
  leaves for its commit are outside the model.
\<close>

section \<open>Acting on an end\<close>

text \<open>\<^verbatim>\<open>_on_state_changed\<close>: the hooks of each job that really ended, and the
  queues of those that are not hidden.\<close>

definition act_on_end :: "world \<Rightarrow> job_state \<Rightarrow> nat \<Rightarrow> db \<times> scope list \<Rightarrow> db \<times> scope list" where
  "act_on_end w s i x =
     (case x of (d, ss) \<Rightarrow>
       case job_of d i of
         None \<Rightarrow> (d, ss)
       | Some j \<Rightarrow>
           if (case queue_job_of d j of None \<Rightarrow> False | Some q \<Rightarrow> q_state q \<in> set running_states)
           then (d, ss)
           else let d' = run_after_terminal w s i d in
                (d', if hidden w j then ss else ss @ queue_scopes_of d' [j]))"

definition on_state_changed :: "world \<Rightarrow> job_state \<Rightarrow> nat list \<Rightarrow> db \<Rightarrow> db" where
  "on_state_changed w s ids d =
     (if s \<notin> set terminal_states then d
      else case fold (act_on_end w s) ids (d, []) of (d', ss) \<Rightarrow> schedule_dispatch ss d')"

text \<open>\<^verbatim>\<open>_let_go_for_jobs_never_run\<close>.\<close>

definition let_go :: "world \<Rightarrow> nat \<Rightarrow> db \<Rightarrow> db" where
  "let_go w i d =
     (case Option.bind (job_of d i) (\<lambda>j. executors w (job_type_id j)) of
        None \<Rightarrow> d
      | Some _ \<Rightarrow> (case hooks w (On_never_run i) d of Some d' \<Rightarrow> d' | None \<Rightarrow> d))"

section \<open>The alerts of a failure\<close>

definition job_failed_key :: "cloud_job \<Rightarrow> string" where
  "job_failed_key j = ''job_type:'' @ job_type_id j"

definition create_job_failed_alert :: "world \<Rightarrow> cloud_job \<Rightarrow> db \<Rightarrow> db" where
  "create_job_failed_alert w j d =
     (let open_of = (\<lambda>P. \<exists>a \<in> set (alerts d). a_job_id a = Some (jid j) \<and> a_active a \<and> P a) in
      if hidden w j then d
      else if open_of (\<lambda>a. a_code a \<in> set (actionable_alert_codes w) \<and> (a_critical a \<or> a_was_critical a)) then d
      else if (case Option.bind (executors w (job_type_id j)) failure_alert_code of
                 None \<Rightarrow> False
               | Some c \<Rightarrow> \<not> failure_holds_queue (type_of d j) \<and> open_of (\<lambda>a. a_code a = c)) then d
      else snd (raise_alert ''job_failed'' (job_type_id j \<in> set (severe_job_types w))
                  (Some (host_id j)) (instance_id j) (Some (jid j)) (Some (job_failed_key j)) d))"

definition create_host_unreachable_alert :: "world \<Rightarrow> cloud_job \<Rightarrow> queue_job \<Rightarrow> db \<Rightarrow> db" where
  "create_host_unreachable_alert w j q d =
     (if (case executors w (job_type_id j) of None \<Rightarrow> False | Some x \<Rightarrow> retry_on_connection_loss x) \<and>
         q_connection_lost q
      then snd (raise_alert ''host_unreachable'' True (Some (host_id j)) None (Some (jid j)) None d)
      else d)"

definition dismiss_job_failed_alerts :: "world \<Rightarrow> cloud_job \<Rightarrow> db \<Rightarrow> db" where
  "dismiss_job_failed_alerts w j d =
     dismiss_alerts w
       (map a_id (filter (dedup_match ''job_failed'' (Some (host_id j)) (instance_id j)
                            (Some (job_failed_key j))) (alerts d))) d"

section \<open>A write on a queue.job\<close>

text \<open>What a write sets: the state, and the result, the exception's name and its
  message when it sets them; of the message the panel reads whether it carries
  the mark of a connection retry.\<close>

record qvals =
  qv_state :: job_state
  qv_result :: "job_result option option"
  qv_exc_name :: "string option"
  qv_connection_lost :: "bool option"

definition write_queue_row :: "nat \<Rightarrow> qvals \<Rightarrow> db \<Rightarrow> db" where
  "write_queue_row u v d =
     d\<lparr>qjobs := write_rows q_uuid (\<lambda>x. x = u)
         (\<lambda>q. q\<lparr>q_state := qv_state v,
                 q_result := (case qv_result v of None \<Rightarrow> q_result q | Some r \<Rightarrow> r),
                 q_exc_name := (case qv_exc_name v of None \<Rightarrow> q_exc_name q | Some e \<Rightarrow> e),
                 q_connection_lost := (case qv_connection_lost v of None \<Rightarrow> q_connection_lost q | Some b \<Rightarrow> b)\<rparr>) (qjobs d)\<rparr>"

text \<open>The cloud job of a queue.job, and the two flags read from its row.\<close>

definition linked_job :: "db \<Rightarrow> nat \<Rightarrow> cloud_job option" where
  "linked_job d u = find (\<lambda>j. queue_job_uuid j = Some u) (jobs d)"

definition cancelled_while_running :: "db \<Rightarrow> nat \<Rightarrow> bool" where
  "cancelled_while_running d u \<longleftrightarrow>
     (\<exists>j \<in> set (jobs d). queue_job_uuid j = Some u \<and> state j = Some Cancelled)"

definition succeeded_before_stop :: "db \<Rightarrow> nat \<Rightarrow> bool" where
  "succeeded_before_stop d u \<longleftrightarrow>
     (\<exists>j \<in> set (jobs d). queue_job_uuid j = Some u \<and> succeeded_before_cancel j)"

definition mirrored_states :: "job_state list" where
  "mirrored_states = [Done, Failed, Cancelled, Pending, Started, Wait_dependencies]"

text \<open>\<^verbatim>\<open>_end_chain_after\<close>: the steps of the graph after the one that ended.\<close>

definition waiting_steps :: "db \<Rightarrow> nat \<Rightarrow> nat \<Rightarrow> cloud_job list" where
  "waiting_steps d g i =
     filter (\<lambda>x. graph_of d x = Some g \<and> state x = Some Wait_dependencies \<and> i < jid x) (jobs d)"

text \<open>Its two \<^verbatim>\<open>UPDATE\<close>s: the steps, and the queue.jobs that wait.\<close>

definition cancel_steps :: "nat \<Rightarrow> nat \<Rightarrow> db \<Rightarrow> db" where
  "cancel_steps g i d =
     (let links = List.map_filter queue_job_uuid
                    (filter (\<lambda>x. graph_of d x = Some g \<and> i < jid x) (jobs d));
          d1 = write_jobs (map jid (waiting_steps d g i)) (\<lambda>j. j\<lparr>state := Some Cancelled\<rparr>) d
      in d1\<lparr>qjobs := map (\<lambda>q. if q_uuid q \<in> set links \<and> q_state q = Wait_dependencies
                               then q\<lparr>q_state := Cancelled\<rparr> else q) (qjobs d1)\<rparr>)"

definition end_chain_after :: "world \<Rightarrow> cloud_job \<Rightarrow> job_state \<Rightarrow> nat \<Rightarrow> db \<Rightarrow> db" where
  "end_chain_after w c s g d =
     (let steps = map jid (waiting_steps d g (jid c)); d2 = cancel_steps g (jid c) d in
      if steps = [] then d2
      else
        (let d3 = fold (\<lambda>i. add_log i (Not_run (jid c) s)) steps d2;
             d4 = fold (run_after_terminal w Cancelled) steps d3;
             d5 = fold (let_go w) steps d4
         in schedule_dispatch (queue_scopes_of d5 (records d5 steps)) d5))"

text \<open>What a new attempt clears as it starts.\<close>

definition new_attempt_clears :: "job_state \<Rightarrow> cloud_job \<Rightarrow> cloud_job" where
  "new_attempt_clears s j =
     (if s = Started then j\<lparr>succeeded_before_cancel := False, worker_lost_at := None\<rparr> else j)"

text \<open>The end of a job once its row mirrors it: what it leaves on a host, its
  chain, the bus, its alerts, and then its queue.\<close>

definition end_of_job :: "world \<Rightarrow> cloud_job \<Rightarrow> queue_job \<Rightarrow> job_state \<Rightarrow> bool \<Rightarrow> db \<Rightarrow> db" where
  "end_of_job w c q s stopped d =
     (let d1 = (if s = Cancelled \<and> \<not> stopped then let_go w (jid c) d else d);
          d2 = (case q_graph_uuid q of
                  Some g \<Rightarrow> if s \<in> {Failed, Cancelled} then end_chain_after w c s g d1 else d1
                | None \<Rightarrow> d1);
          d3 = broadcast (jid c) (if q_result q = Some Blocked_by_alert then Job_blocked else Job_ended s) d2
      in if q_result q = Some Blocked_by_alert then d3
         else
          (let d4 = (if s = Failed
                     then create_job_failed_alert w c (create_host_unreachable_alert w c q d3)
                     else if s = Done then d3\<lparr>dismissals := dismissals d3 @ [jid c]\<rparr>
                     else d3)
           in on_state_changed w s [jid c] d4))"

text \<open>The write itself and the mirror; \<open>stopped\<close> is the context key
  \<^verbatim>\<open>ic_cancelled_while_running\<close>.\<close>

definition mirror :: "world \<Rightarrow> nat \<Rightarrow> qvals \<Rightarrow> bool \<Rightarrow> db \<Rightarrow> db" where
  "mirror w u v stopped d =
     (let s = qv_state v; d1 = write_queue_row u v d in
      if s \<notin> set mirrored_states \<or> (s = Started \<and> cancelled_while_running d1 u) then d1
      else
       (case (linked_job d1 u, browse_row q_uuid (qjobs d1) u) of
          (Some c, Some q) \<Rightarrow>
            (let d2 = write_jobs [jid c] (\<lambda>j. (new_attempt_clears s j)\<lparr>state := Some s\<rparr>) d1 in
             if s \<notin> set terminal_states then d2 else end_of_job w c q s stopped d2)
        | _ \<Rightarrow> d1))"

text \<open>\<^verbatim>\<open>_store_success_before_cancel\<close>: done, and the steps that wait on it set
  going, as queue_job does after any done: in a chain each waits on one job.\<close>

definition set_dependents_going :: "nat list \<Rightarrow> db \<Rightarrow> db" where
  "set_dependents_going us d =
     d\<lparr>qjobs := map (\<lambda>q. if q_uuid q \<in> set us \<and> q_state q = Wait_dependencies
                          then q\<lparr>q_state := Pending\<rparr> else q) (qjobs d)\<rparr>"

definition store_success_before_cancel :: "world \<Rightarrow> nat \<Rightarrow> db \<Rightarrow> db" where
  "store_success_before_cancel w u d =
     (let d1 = mirror w u \<lparr>qv_state = Done, qv_result = Some None, qv_exc_name = Some '''',
       qv_connection_lost = Some False\<rparr> False d in
      case browse_row q_uuid (qjobs d1) u of
        None \<Rightarrow> d1
      | Some q \<Rightarrow> set_dependents_going (q_reverse_depends_on q) d1)"

definition let_go_between_ticks :: "world \<Rightarrow> nat \<Rightarrow> job_state \<Rightarrow> db \<Rightarrow> db" where
  "let_go_between_ticks w u s d =
     (if s \<noteq> Pending then d
      else fold (let_go w)
             (map jid (filter (\<lambda>j. queue_job_uuid j = Some u \<and>
                (case executors w (job_type_id j) of None \<Rightarrow> False | Some x \<Rightarrow> postpones_between_ticks x))
                (jobs d))) d)"

definition queue_write :: "world \<Rightarrow> nat \<Rightarrow> qvals \<Rightarrow> bool \<Rightarrow> db \<Rightarrow> db" where
  "queue_write w u v stopped d =
     (let old = map_option q_state (browse_row q_uuid (qjobs d) u);
          candidate = (qv_state v = Failed \<or>
                       (qv_state v = Done \<and> qv_result v = Some (Some Cancelled_while_running)) \<or>
                       (qv_state v = Pending \<and> old = Some Started))
      in if candidate \<and> succeeded_before_stop d u then store_success_before_cancel w u d
         else if candidate \<and> cancelled_while_running d u
         then let_go_between_ticks w u (qv_state v)
                (mirror w u (v\<lparr>qv_state := Cancelled, qv_result := Some (Some Cancelled_while_running),
                              qv_exc_name := Some '''',
      qv_connection_lost := Some False\<rparr>) True d)
         else mirror w u v stopped d)"

section \<open>The job's own writes\<close>

text \<open>\<^verbatim>\<open>_adopt_queue_job_state\<close>.\<close>

definition adopt_queue_job_state :: "nat \<Rightarrow> db \<Rightarrow> db" where
  "adopt_queue_job_state i d =
     (case Option.bind (job_of d i) (queue_job_of d) of
        None \<Rightarrow> d
      | Some q \<Rightarrow> write_jobs [i] (\<lambda>j. j\<lparr>state := Some (q_state q)\<rparr>) d)"

text \<open>A state written through \<^verbatim>\<open>cloud.job.write\<close> without the context key that
  silences its hook.\<close>

definition write_state :: "world \<Rightarrow> nat \<Rightarrow> job_state \<Rightarrow> (cloud_job \<Rightarrow> cloud_job) \<Rightarrow> db \<Rightarrow> db" where
  "write_state w i s f d =
     on_state_changed w s [i] (write_jobs [i] (\<lambda>j. (f j)\<lparr>state := Some s\<rparr>) d)"

definition cancel_job :: "world \<Rightarrow> actor \<Rightarrow> cloud_job \<Rightarrow> db \<Rightarrow> (queue_error, db) result" where
  "cancel_job w a j d =
     (case first_unstoppable w a d (j # ended_with d j) of
        Some x \<Rightarrow> Inl (May_not_end (jid x))
      | None \<Rightarrow>
          let may_write = (is_su a \<or> writes_job a (jid j)) in
          if blocked_alert_id j \<noteq> None then
            (if may_write
             then Inr (write_state w (jid j) Cancelled (\<lambda>x. x\<lparr>blocked_alert_id := None\<rparr>) d)
             else Inl Write_refused)
          else if state j = Some Queued then
            (if may_write
             then Inr (snd (cancel_queued w [jid j] (Cancelled_by (uid (who a))) None True d))
             else Inl Write_refused)
          else if (case state j of None \<Rightarrow> True | Some s \<Rightarrow> s \<notin> set active_states) then Inl Not_active
          else if \<not> may_write then Inl Write_refused
          else if state j = Some Started \<or> queue_job_of d j = None
          then Inr (write_state w (jid j) Cancelled id d)
          else (case queue_job_uuid j of
                  None \<Rightarrow> Inr d
                | Some u \<Rightarrow>
                    Inr (queue_write w u \<lparr>qv_state = Cancelled, qv_result = Some (Some Other_result),
                                          qv_exc_name = None, qv_connection_lost = None\<rparr> False d)))"

end
