(* ===== verification/Mirror_Facts.thy ===== *)
theory Mirror_Facts
  imports Queue_Mirror
begin

text \<open>
  What the mirror guarantees: an end starts nothing, ends the rest of its
  chain, leaves a job a person stopped cancelled and one that had succeeded
  done, and a failure that holds its queue does hold it.
\<close>

section \<open>Writes of both rows\<close>

lemma state_write_calm:
  assumes "wf_db d" and f: "\<And>j. jid (f j) = jid j" "\<And>j. instance_id (f j) = instance_id j"
    "\<And>j. queue_job_uuid (f j) = queue_job_uuid j" "\<And>j. state (f j) \<noteq> Some Queued"
    "\<And>j. queue_chain_key (f j) = queue_chain_key j" "\<And>j. job_type_id (f j) = job_type_id j"
    "\<And>j. host_id (f j) = host_id j"
    and run: "\<And>j. j \<in> set (jobs d) \<Longrightarrow> jid j \<in> set ids \<Longrightarrow> job_running d (f j) \<Longrightarrow> job_running d j"
  shows "calm w d (write_jobs ids f d)"
  unfolding calm_def
proof
  show "wf_db (write_jobs ids f d)" by (rule wf_write_jobs [OF assms(1)]) (use f in auto)
  show "quieter w d (write_jobs ids f d)"
  proof (rule write_quieter [where S = "set ids" and f = f])
    show "jobs (write_jobs ids f d) = write_rows jid (\<lambda>i. i \<in> set ids) f (jobs d)" by (rule jobs_write_jobs)
    show "key_of (f j) = key_of j" for j by (simp add: key_of_def f split: option.split)
  qed (use run in \<open>auto simp: f write_jobs_running in_scope_def\<close>)
qed

lemma qmap_calm:
  assumes "wf_db d" and "d' = d\<lparr>qjobs := map g (qjobs d)\<rparr>" and "\<And>q. q_uuid (g q) = q_uuid q"
    and run: "\<And>q j. q \<in> set (qjobs d) \<Longrightarrow> q_state (g q) \<in> set running_states \<Longrightarrow>
       j \<in> set (jobs d) \<Longrightarrow> queue_job_uuid j = Some (q_uuid q) \<Longrightarrow>
       q_state q \<in> set running_states \<or> job_running d j"
  shows "calm w d d'"
proof -
  have qrun: "queue_job_running d j \<or> job_running d j"
    if j: "j \<in> set (jobs d)" and r: "queue_job_running d' j" for j
  proof -
    obtain q where "q \<in> set (qjobs d)" "queue_job_uuid j = Some (q_uuid q)" "q_state (g q) \<in> set running_states"
      using r assms(2,3) by (auto simp: queue_job_running_def)
    with run [OF _ _ j] show ?thesis unfolding queue_job_running_def by metis
  qed
  have "job_running d j" if "j \<in> set (jobs d)" "job_running d' j" for j
    using that qrun [OF that(1)] by (auto simp: job_running_def split: option.splits)
  then have "quieter w d d'" using assms(2) by (auto simp: quieter_def occupies_def)
  moreover have "wf_db d'"
    unfolding wf_db_def
  proof (intro conjI ballI impI)
    show "wf_ids d'" using wf_dbD(1) [OF assms(1)] assms(2,3) by (simp add: wf_ids_def comp_def)
    show "one_link d'" using wf_dbD(9) [OF assms(1)] assms(2) by (simp add: one_link_def)
    show "\<not> queue_job_running d' j" if "j \<in> set (jobs d')" "state j = Some Queued" for j
      using that qrun [of j] wf_dbD(6) [OF assms(1)] queued_not_running assms(2) by fastforce
  qed (use assms wf_dbD(2-8) [OF assms(1)] in \<open>auto simp: ids_positive_def split: option.split\<close>)
  ultimately show ?thesis by (simp add: calm_def)
qed

text \<open>An operation that starts nothing and, but for the rows named, leaves the rows
  there are as they are, and so every queue.job that does not wait for another.\<close>

definition extends :: "world \<Rightarrow> nat set \<Rightarrow> db \<Rightarrow> db \<Rightarrow> bool" where
  "extends w S d d' \<longleftrightarrow>
     calm w d d' \<and> (\<forall>j \<in> set (jobs d). jid j \<in> S \<or> j \<in> set (jobs d')) \<and>
     (\<forall>q \<in> set (qjobs d). q_state q = Wait_dependencies \<or> q \<in> set (qjobs d'))"

lemma extends_trans:
  assumes "extends w S a b" and "extends w S b c"
  shows "extends w S a c"
  using assms calm_trans unfolding extends_def by blast

lemma extends_wf: "extends w S d d' \<Longrightarrow> wf_db d'"
  by (simp add: extends_def calm_def)

lemma rows_extends:
  assumes "wf_db d" and "jobs d' = jobs d" and "qjobs d' = qjobs d"
    and "next_job_id d' = next_job_id d" and "next_uuid d \<le> next_uuid d'"
  shows "extends w S d d'"
  using rows_calm [OF assms] assms by (simp add: extends_def)

lemma hook_extends:
  assumes "wf_db d" and "hook_effect w d d'"
  shows "extends w S d d'"
  using settles_calm [OF hook_settles [OF assms]] assms(2) by (auto simp: extends_def hook_effect_def)

lemma hook_run_extends:
  assumes "hooks_ok w" and "wf_db d"
  shows "extends w S d (run_after_terminal w st i d)" "extends w S d (let_go w i d)"
  using assms hook_extends rows_extends [of d d]
  by (auto simp: run_after_terminal_def let_go_def hooks_ok_def split: option.split)

lemma fold_extends:
  assumes "\<And>x d. wf_db d \<Longrightarrow> extends w S d (f x d)" and "wf_db d"
  shows "extends w S d (fold f xs d)"
  using assms(2)
proof (induction xs arbitrary: d)
  case Nil
  then show ?case using rows_extends [of d d] by simp
next
  case (Cons x xs)
  then show ?case
    using extends_trans [OF assms(1) Cons.IH] extends_wf [OF assms(1)] by simp
qed

lemma act_on_end_extends:
  assumes "hooks_ok w" and "wf_db d" and "fold (act_on_end w s) ids (d, ss) = (d', ss')"
  shows "extends w S d d'"
  using assms(2,3)
proof (induction ids arbitrary: d ss)
  case Nil
  then show ?case using rows_extends [of d d] by simp
next
  case (Cons i ids)
  obtain d1 ss1 where a: "act_on_end w s i (d, ss) = (d1, ss1)" by (cases "act_on_end w s i (d, ss)")
  have "extends w S d d1"
    using a Cons.prems(1) hook_run_extends(1) [OF assms(1)] rows_extends [of d d]
    by (auto simp: act_on_end_def Let_def split: option.splits if_splits)
  moreover have "fold (act_on_end w s) ids (d1, ss1) = (d', ss')" using Cons.prems(2) a by simp
  ultimately show ?case using Cons.IH extends_wf extends_trans by blast
qed

lemma on_state_changed_extends:
  assumes "hooks_ok w" and "wf_db d"
  shows "extends w S d (on_state_changed w s ids d)"
proof (cases "s \<in> set terminal_states")
  case True
  obtain d' ss where f: "fold (act_on_end w s) ids (d, []) = (d', ss)" by (cases "fold (act_on_end w s) ids (d, [])")
  have e: "extends w S d d'" by (rule act_on_end_extends [OF assms f])
  have "extends w S d' (schedule_dispatch ss d')"
    by (rule rows_extends [OF extends_wf [OF e]]) (simp_all add: schedule_dispatch_def)
  then show ?thesis using extends_trans [OF e] True f by (simp add: on_state_changed_def)
next
  case False
  then show ?thesis using rows_extends [OF assms(2), of d] by (simp add: on_state_changed_def)
qed

lemma alert_extends:
  assumes "wf_db d"
  shows "extends w S d (create_job_failed_alert w' c d)"
    "extends w S d (create_host_unreachable_alert w' c q d)"
  using assms
  by (auto intro!: rows_extends simp: create_job_failed_alert_def create_host_unreachable_alert_def
      raise_alert_def Let_def split: option.split)

section \<open>The end of a chain\<close>

lemma waiting_steps_running: "j \<in> set (waiting_steps d g i) \<Longrightarrow> job_running d j"
  by (auto simp: waiting_steps_def job_running_def)

lemma cancel_steps_extends:
  assumes "wf_db d"
  shows "extends w {k. i < k} d (cancel_steps g i d)"
proof -
  let ?steps = "map jid (waiting_steps d g i)"
  let ?links = "List.map_filter queue_job_uuid (filter (\<lambda>x. graph_of d x = Some g \<and> i < jid x) (jobs d))"
  let ?d1 = "write_jobs ?steps (\<lambda>j. j\<lparr>state := Some Cancelled\<rparr>) d"
  let ?d2 = "?d1\<lparr>qjobs := map (\<lambda>q. if q_uuid q \<in> set ?links \<and> q_state q = Wait_dependencies
                                    then q\<lparr>q_state := Cancelled\<rparr> else q) (qjobs ?d1)\<rparr>"
  have d2: "cancel_steps g i d = ?d2" by (simp add: cancel_steps_def Let_def)
  have c1: "calm w d ?d1"
  proof (rule state_write_calm [OF assms])
    fix j assume "j \<in> set (jobs d)" "jid j \<in> set ?steps"
    then have "j \<in> set (waiting_steps d g i)"
      using same_jid [OF wf_dbD(1) [OF assms]] by (auto simp: waiting_steps_def)
    then show "job_running d j" by (rule waiting_steps_running)
  qed simp_all
  have "calm w ?d1 ?d2" by (rule qmap_calm [OF calm_wf [OF c1] refl]) (auto split: if_splits)
  then have "calm w d ?d2" by (rule calm_trans [OF c1])
  moreover have "i < jid j \<or> j \<in> set (jobs ?d2)" if "j \<in> set (jobs d)" for j
  proof (cases "jid j \<in> set ?steps")
    case True
    then show ?thesis by (auto simp: waiting_steps_def)
  next
    case False
    then show ?thesis using that cloud_jobs.write_frame by (fastforce simp: jobs_write_jobs)
  qed
  moreover have "q_state q = Wait_dependencies \<or> q \<in> set (qjobs ?d2)" if "q \<in> set (qjobs d)" for q
    using that by force
  ultimately show ?thesis unfolding d2 extends_def by blast
qed

lemma end_chain_after_tail:
  assumes "hooks_ok w" and "wf_db d"
  shows "extends w S (cancel_steps g (jid c) d) (end_chain_after w c s g d)"
proof -
  let ?steps = "map jid (waiting_steps d g (jid c))"
  let ?d2 = "cancel_steps g (jid c) d"
  have wf: "wf_db ?d2" by (rule extends_wf [OF cancel_steps_extends [OF assms(2)]])
  let ?d3 = "fold (\<lambda>i. add_log i (Not_run (jid c) s)) ?steps ?d2"
  have e3: "extends w S ?d2 ?d3"
    by (rule fold_extends [OF _ wf]) (auto intro!: rows_extends simp: add_log_def)
  let ?d4 = "fold (run_after_terminal w Cancelled) ?steps ?d3"
  have e4: "extends w S ?d3 ?d4"
    by (rule fold_extends [OF _ extends_wf [OF e3]]) (rule hook_run_extends [OF assms(1)])
  let ?d5 = "fold (let_go w) ?steps ?d4"
  have e5: "extends w S ?d4 ?d5"
    by (rule fold_extends [OF _ extends_wf [OF e4]]) (rule hook_run_extends [OF assms(1)])
  have e6: "extends w S ?d5 (schedule_dispatch ss ?d5)" for ss
    by (rule rows_extends [OF extends_wf [OF e5]]) (simp_all add: schedule_dispatch_def)
  note all = extends_trans [OF e3 extends_trans [OF e4 extends_trans [OF e5 e6]]]
  show ?thesis
    unfolding end_chain_after_def Let_def using all rows_extends [OF wf, of ?d2] by simp
qed

lemma end_chain_after_extends:
  assumes "hooks_ok w" and "wf_db d"
  shows "extends w {i. jid c < i} d (end_chain_after w c s g d)"
  by (rule extends_trans [OF cancel_steps_extends [OF assms(2)] end_chain_after_tail [OF assms]])

lemma failure_alerts_extend:
  assumes "wf_db d"
  shows "extends w S d (create_job_failed_alert w' c (create_host_unreachable_alert w' c q d))"
proof -
  have "extends w S d (create_host_unreachable_alert w' c q d)" by (rule alert_extends [OF assms])
  then show ?thesis using extends_trans alert_extends(1) extends_wf by blast
qed

text \<open>The state after the end has let go of its chain, and what comes after.\<close>

definition chain_ended :: "world \<Rightarrow> cloud_job \<Rightarrow> queue_job \<Rightarrow> job_state \<Rightarrow> bool \<Rightarrow> db \<Rightarrow> db" where
  "chain_ended w c q s stopped d =
     (let d1 = (if s = Cancelled \<and> \<not> stopped then let_go w (jid c) d else d) in
      case q_graph_uuid q of
        Some g \<Rightarrow> if s \<in> {Failed, Cancelled} then end_chain_after w c s g d1 else d1
      | None \<Rightarrow> d1)"

lemma let_go_first_extends:
  assumes "hooks_ok w" and "wf_db d"
  shows "extends w S d (if s = Cancelled \<and> \<not> stopped then let_go w i d else d)"
  using hook_run_extends(2) [OF assms] rows_extends [OF assms(2), of d] by simp

lemma chain_ended_extends:
  assumes "hooks_ok w" and "wf_db d"
  shows "extends w {i. jid c < i} d (chain_ended w c q s stopped d)"
proof -
  let ?S = "{i. jid c < i}" and ?d1 = "if s = Cancelled \<and> \<not> stopped then let_go w (jid c) d else d"
  have e1: "extends w ?S d ?d1" by (rule let_go_first_extends [OF assms])
  have "extends w ?S ?d1 (chain_ended w c q s stopped d)"
    using end_chain_after_extends [OF assms(1) extends_wf [OF e1]] rows_extends [OF extends_wf [OF e1], of ?d1]
    by (auto simp: chain_ended_def Let_def split: option.split)
  then show ?thesis by (rule extends_trans [OF e1])
qed

lemma end_of_job_tail:
  assumes "hooks_ok w" and "wf_db d"
  shows "extends w S (chain_ended w c q s stopped d) (end_of_job w c q s stopped d)"
proof -
  let ?d2 = "chain_ended w c q s stopped d"
  have wf: "wf_db ?d2" by (rule extends_wf [OF chain_ended_extends [OF assms]])
  define d3 where "d3 = broadcast (jid c) (if q_result q = Some Blocked_by_alert then Job_blocked else Job_ended s) ?d2"
  have e3: "extends w S ?d2 d3"
    unfolding d3_def by (rule rows_extends [OF wf]) (simp_all add: broadcast_def)
  define d4 where "d4 = (if s = Failed then create_job_failed_alert w c (create_host_unreachable_alert w c q d3)
             else if s = Done then d3\<lparr>dismissals := dismissals d3 @ [jid c]\<rparr> else d3)"
  have e4: "extends w S d3 d4"
    unfolding d4_def using failure_alerts_extend rows_extends extends_wf [OF e3] by auto
  have e5: "extends w S d4 (on_state_changed w s [jid c] d4)"
    by (rule on_state_changed_extends [OF assms(1) extends_wf [OF e4]])
  have "end_of_job w c q s stopped d =
      (if q_result q = Some Blocked_by_alert then d3 else on_state_changed w s [jid c] d4)"
    unfolding end_of_job_def d4_def d3_def chain_ended_def Let_def by (rule refl)
  then show ?thesis using e3 extends_trans [OF e3 extends_trans [OF e4 e5]] by simp
qed

lemma end_of_job_extends:
  assumes "hooks_ok w" and "wf_db d"
  shows "extends w {i. jid c < i} d (end_of_job w c q s stopped d)"
  by (rule extends_trans [OF chain_ended_extends [OF assms] end_of_job_tail [OF assms]])

section \<open>The mirror\<close>

text \<open>A queue.job and the one cloud job it runs.\<close>

lemma same_uuid:
  assumes "wf_ids d" and "x \<in> set (qjobs d)" and "y \<in> set (qjobs d)" and "q_uuid x = q_uuid y"
  shows "x = y"
  using assms by (auto simp: wf_ids_def distinct_map inj_on_def)

definition linked :: "db \<Rightarrow> nat \<Rightarrow> cloud_job \<Rightarrow> queue_job \<Rightarrow> bool" where
  "linked d u j q \<longleftrightarrow>
     j \<in> set (jobs d) \<and> queue_job_uuid j = Some u \<and> q \<in> set (qjobs d) \<and> q_uuid q = u \<and>
     (\<forall>x \<in> set (jobs d). queue_job_uuid x = Some u \<longrightarrow> jid x = jid j)"

lemma linkedD:
  assumes "linked d u j q"
  shows "j \<in> set (jobs d)" "queue_job_uuid j = Some u" "q \<in> set (qjobs d)" "q_uuid q = u"
    "x \<in> set (jobs d) \<Longrightarrow> queue_job_uuid x = Some u \<Longrightarrow> jid x = jid j"
  using assms unfolding linked_def by blast+

lemma linked_only:
  assumes "wf_db d" and "linked d u j q" and "x \<in> set (jobs d)" and "queue_job_uuid x = Some u"
  shows "x = j"
proof -
  show ?thesis
    by (rule same_jid [OF wf_dbD(1) [OF assms(1)] assms(3) linkedD(1) [OF assms(2)]])
      (rule linkedD(5) [OF assms(2-4)])
qed

lemma linked_reads:
  assumes "wf_db d" and "linked d u j q"
  shows "linked_job d u = Some j" "cancelled_while_running d u \<longleftrightarrow> state j = Some Cancelled"
    "succeeded_before_stop d u \<longleftrightarrow> succeeded_before_cancel j"
    "browse_row q_uuid (qjobs d) u = Some q"
proof -
  note only = linked_only [OF assms]
  have j: "j \<in> set (jobs d)" "queue_job_uuid j = Some u" using linkedD [OF assms(2)] by auto
  show "linked_job d u = Some j"
  proof (cases "linked_job d u")
    case None
    then show ?thesis using j by (auto simp: linked_job_def find_None_all)
  next
    case (Some x)
    then have "x \<in> set (jobs d) \<and> queue_job_uuid x = Some u" unfolding linked_job_def by (rule find_Some_set)
    then show ?thesis using only Some by simp
  qed
  show "cancelled_while_running d u \<longleftrightarrow> state j = Some Cancelled"
    "succeeded_before_stop d u \<longleftrightarrow> succeeded_before_cancel j"
    unfolding cancelled_while_running_def succeeded_before_stop_def using j only by blast+
  show "browse_row q_uuid (qjobs d) u = Some q"
    using linkedD(3,4) [OF assms(2)] wf_dbD(1) [OF assms(1)] by (simp add: queue_jobs.browse_Some wf_ids_def)
qed

definition stored :: "qvals \<Rightarrow> queue_job \<Rightarrow> queue_job" where
  "stored v q = q\<lparr>q_state := qv_state v,
     q_result := (case qv_result v of None \<Rightarrow> q_result q | Some r \<Rightarrow> r),
     q_exc_name := (case qv_exc_name v of None \<Rightarrow> q_exc_name q | Some e \<Rightarrow> e),
     q_connection_lost := (case qv_connection_lost v of None \<Rightarrow> q_connection_lost q | Some b \<Rightarrow> b)\<rparr>"

lemma write_queue_row_linked:
  assumes "wf_db d" and "linked d u j q"
  shows "linked (write_queue_row u v d) u j (stored v q)"
    "jobs (write_queue_row u v d) = jobs d"
proof -
  have "qjobs (write_queue_row u v d) = map (\<lambda>x. if q_uuid x = u then stored v x else x) (qjobs d)"
    by (simp add: write_queue_row_def write_rows_def stored_def)
  then have "stored v q \<in> set (qjobs (write_queue_row u v d))"
    using linkedD(3,4) [OF assms(2)] by force
  moreover have "q_uuid (stored v q) = u" using linkedD(4) [OF assms(2)] by (simp add: stored_def)
  moreover show rows: "jobs (write_queue_row u v d) = jobs d" by (simp add: write_queue_row_def)
  ultimately show "linked (write_queue_row u v d) u j (stored v q)"
    using assms(2) unfolding linked_def rows by blast
qed

lemma write_queue_row_calm:
  assumes "wf_db d" and "linked d u j q"
    and "qv_state v \<in> set running_states \<Longrightarrow> job_running d j"
  shows "calm w d (write_queue_row u v d)"
proof (rule qmap_calm [OF assms(1)])
  show "write_queue_row u v d = d\<lparr>qjobs := map (\<lambda>q. if q_uuid q = u then stored v q else q) (qjobs d)\<rparr>"
    by (simp add: write_queue_row_def write_rows_def stored_def)
next
  fix x k
  assume "q_state (if q_uuid x = u then stored v x else x) \<in> set running_states"
    "k \<in> set (jobs d)" "queue_job_uuid k = Some (q_uuid x)"
  then show "q_state x \<in> set running_states \<or> job_running d k"
    using assms(3) linked_only [OF assms(1,2)] by (auto simp: stored_def split: if_splits)
qed (simp add: stored_def)

text \<open>The rows after the mirror's own writes.\<close>

definition mirrored_job :: "job_state \<Rightarrow> cloud_job \<Rightarrow> cloud_job" where
  "mirrored_job s j = (new_attempt_clears s j)\<lparr>state := Some s\<rparr>"

lemma mirrored_job_simps [simp]:
  "jid (mirrored_job s j) = jid j" "instance_id (mirrored_job s j) = instance_id j"
  "queue_job_uuid (mirrored_job s j) = queue_job_uuid j" "state (mirrored_job s j) = Some s"
  "queue_chain_key (mirrored_job s j) = queue_chain_key j" "job_type_id (mirrored_job s j) = job_type_id j"
  "host_id (mirrored_job s j) = host_id j"
  by (simp_all add: mirrored_job_def new_attempt_clears_def)

lemma mirrored_fun: "(\<lambda>j. (new_attempt_clears s j)\<lparr>state := Some s\<rparr>) = mirrored_job s"
  by (intro ext) (simp add: mirrored_job_def)

lemma mirror_rows:
  assumes "wf_db d" and "linked d u j q" and "qv_state v \<noteq> Queued"
    and run: "qv_state v \<in> set running_states \<Longrightarrow> job_running d j"
  defines "d2 \<equiv> write_jobs [jid j] (mirrored_job (qv_state v)) (write_queue_row u v d)"
  shows "calm w d d2" and "mirrored_job (qv_state v) j \<in> set (jobs d2)" and "stored v q \<in> set (qjobs d2)"
proof -
  let ?d1 = "write_queue_row u v d" and ?s = "qv_state v"
  have c1: "calm w d ?d1" by (rule write_queue_row_calm [OF assms(1,2) run])
  note l1 = write_queue_row_linked [OF assms(1,2), of v]
  have stop: "\<not> queue_job_running ?d1 j" if "?s \<notin> set running_states"
  proof -
    have "x = stored v q" if "x \<in> set (qjobs ?d1)" "q_uuid x = u" for x
      using that same_uuid [OF wf_dbD(1) [OF calm_wf [OF c1]], of x "stored v q"] linkedD(3,4) [OF l1(1)]
      by simp
    moreover have "q_state (stored v q) \<notin> set running_states" "queue_job_uuid j = Some u"
      using \<open>?s \<notin> set running_states\<close> linkedD(2) [OF assms(2)] by (simp_all add: stored_def)
    ultimately show ?thesis unfolding queue_job_running_def by (metis option.inject)
  qed
  have "calm w ?d1 d2"
    unfolding d2_def
  proof (rule state_write_calm [OF calm_wf [OF c1]])
    fix x assume x: "x \<in> set (jobs ?d1)" "jid x \<in> set [jid j]" "job_running ?d1 (mirrored_job ?s x)"
    then have xj: "x = j"
      using same_jid [OF wf_dbD(1) [OF assms(1)], of x j] linkedD(1) [OF assms(2)] l1(2) by simp
    have qr: "queue_job_running ?d1 (mirrored_job ?s j) = queue_job_running ?d1 j"
      by (simp add: queue_job_running_def)
    show "job_running ?d1 x"
    proof (cases "?s \<in> set running_states")
      case False
      then show ?thesis using x(3) stop qr xj by (simp add: job_running_def)
    next
      case True
      moreover have "queue_job_running ?d1 j"
        using True linkedD(2-4) [OF l1(1)] unfolding queue_job_running_def
        by (intro bexI [of _ "stored v q"]) (simp_all add: stored_def)
      ultimately show ?thesis using run xj by (auto simp: job_running_def split: option.splits)
    qed
  qed (use assms(3) in simp_all)
  then show "calm w d d2" by (rule calm_trans [OF c1])
  show "mirrored_job ?s j \<in> set (jobs d2)"
    using linkedD(1) [OF assms(2)] l1(2) by (force simp: d2_def jobs_write_jobs write_rows_def)
  show "stored v q \<in> set (qjobs d2)" using linkedD(3) [OF l1(1)] by (simp add: d2_def)
qed

lemma mirror_ends:
  assumes "hooks_ok w" and "wf_db d" and "linked d u j q" and "qv_state v \<in> set terminal_states"
  shows "calm w d (mirror w u v stopped d)"
    and "mirrored_job (qv_state v) j \<in> set (jobs (mirror w u v stopped d))"
    and "stored v q \<in> set (qjobs (mirror w u v stopped d))"
proof -
  let ?s = "qv_state v" and ?d1 = "write_queue_row u v d"
  let ?d2 = "write_jobs [jid j] (mirrored_job ?s) ?d1"
  have nr: "?s \<noteq> Queued" "?s \<notin> set running_states" "?s \<in> set mirrored_states" "?s \<noteq> Started"
    using assms(4) by (auto simp: mirrored_states_def)
  note rows = mirror_rows [OF assms(2,3) nr(1)]
  have c1: "calm w d ?d1" by (rule write_queue_row_calm [OF assms(2,3)]) (use nr in simp)
  note l1 = write_queue_row_linked(1) [OF assms(2,3), of v]
  have d': "mirror w u v stopped d = end_of_job w j (stored v q) ?s stopped ?d2"
    using nr assms(4) linked_reads(1,4) [OF calm_wf [OF c1] l1]
    by (simp add: mirror_def Let_def mirrored_fun)
  have e: "extends w {i. jid j < i} ?d2 (mirror w u v stopped d)"
    unfolding d' by (rule end_of_job_extends [OF assms(1) calm_wf [OF rows(1)]]) (use nr in simp)
  then show "calm w d (mirror w u v stopped d)"
    using calm_trans [OF rows(1)] nr(2) by (auto simp: extends_def)
  show "mirrored_job ?s j \<in> set (jobs (mirror w u v stopped d))"
    using e rows(2) nr(2) by (auto simp: extends_def)
  have "q_state (stored v q) \<noteq> Wait_dependencies" using nr(2) by (simp add: stored_def)
  then show "stored v q \<in> set (qjobs (mirror w u v stopped d))"
    using e rows(3) nr(2) by (auto simp: extends_def)
qed

text \<open>The rows of a run that is over.\<close>

definition at_rest :: "db \<Rightarrow> nat \<Rightarrow> nat \<Rightarrow> job_state \<Rightarrow> bool" where
  "at_rest d i u s \<longleftrightarrow>
     (\<exists>j q. job_of d i = Some j \<and> state j = Some s \<and> \<not> job_running d j \<and>
            browse_row q_uuid (qjobs d) u = Some q \<and> q_state q = s)"

lemma at_restI:
  assumes "wf_db d" and "j \<in> set (jobs d)" and "q \<in> set (qjobs d)" and "queue_job_uuid j = Some (q_uuid q)"
    and "state j = Some s" and "q_state q = s" and "s \<in> set terminal_states"
  shows "at_rest d (jid j) (q_uuid q) s"
proof -
  have "q_state x \<notin> set running_states" if "x \<in> set (qjobs d)" "Some (q_uuid x) = queue_job_uuid j" for x
    using same_uuid [OF wf_dbD(1) [OF assms(1)], of x q] that assms(3,4,6,7) by auto
  then have "\<not> queue_job_running d j" unfolding queue_job_running_def by blast
  moreover have "job_of d (jid j) = Some j"
    using assms(1,2) wf_dbD(1) by (simp add: job_of_Some)
  moreover have "browse_row q_uuid (qjobs d) (q_uuid q) = Some q"
    using assms(3) wf_dbD(1) [OF assms(1)] by (simp add: queue_jobs.browse_Some wf_ids_def)
  ultimately show ?thesis using assms(5-7) by (auto simp: at_rest_def job_running_def)
qed

lemma mirror_at_rest:
  assumes "hooks_ok w" and "wf_db d" and "linked d u j q" and "qv_state v \<in> set terminal_states"
    and e: "extends w {} (mirror w u v stopped d) d'"
  shows "at_rest d' (jid j) u (qv_state v)"
proof -
  note m = mirror_ends [OF assms(1-4), where stopped = stopped]
  have "mirrored_job (qv_state v) j \<in> set (jobs d')" "stored v q \<in> set (qjobs d')"
    using e m(2,3) assms(4) by (auto simp: extends_def stored_def)
  then show ?thesis
    using at_restI [OF extends_wf [OF e], of "mirrored_job (qv_state v) j" "stored v q" "qv_state v"]
      linkedD(2,4) [OF assms(3)] assms(4) by (simp add: stored_def)
qed

lemma let_go_between_ticks_extends:
  assumes "hooks_ok w" and "wf_db d"
  shows "extends w S d (let_go_between_ticks w u s d)"
  using fold_extends [of w S "let_go w", OF hook_run_extends(2) [OF assms(1)] assms(2)]
    rows_extends [OF assms(2), of d]
  by (simp add: let_go_between_ticks_def)

text \<open>What queue_job stores when a stop reaches a run, and the stop a task meets at
  one of its gates: a failure, the marked success, or the postponement of a run
  that had started.\<close>

definition stop_stored :: "qvals \<Rightarrow> queue_job \<Rightarrow> bool" where
  "stop_stored v q \<longleftrightarrow>
     qv_state v = Failed \<or> (qv_state v = Done \<and> qv_result v = Some (Some Cancelled_while_running)) \<or>
     (qv_state v = Pending \<and> q_state q = Started)"

lemma set_dependents_going_extends:
  assumes "wf_db d"
  shows "extends w S d (set_dependents_going us d)"
proof -
  have "calm w d (set_dependents_going us d)"
    unfolding set_dependents_going_def by (rule qmap_calm [OF assms refl]) (auto split: if_splits)
  moreover have "q_state q = Wait_dependencies \<or> q \<in> set (qjobs (set_dependents_going us d))"
    if "q \<in> set (qjobs d)" for q
    using that by (force simp: set_dependents_going_def)
  moreover have "jobs (set_dependents_going us d) = jobs d" by (simp add: set_dependents_going_def)
  ultimately show ?thesis unfolding extends_def by simp
qed

text \<open>The end a write stores: done after a success that came before the stop,
  cancelled after a stop, and otherwise what it says.\<close>

definition stored_end :: "qvals \<Rightarrow> queue_job \<Rightarrow> cloud_job \<Rightarrow> job_state" where
  "stored_end v q j =
     (if stop_stored v q \<and> succeeded_before_cancel j then Done
      else if stop_stored v q \<and> state j = Some Cancelled then Cancelled
      else qv_state v)"

lemma queue_write_linked:
  assumes "wf_db d" and "linked d u j q"
  shows "queue_write w u v stopped d =
    (if stop_stored v q \<and> succeeded_before_cancel j then store_success_before_cancel w u d
     else if stop_stored v q \<and> state j = Some Cancelled
     then let_go_between_ticks w u (qv_state v)
            (mirror w u (v\<lparr>qv_state := Cancelled, qv_result := Some (Some Cancelled_while_running),
                qv_exc_name := Some '''', qv_connection_lost := Some False\<rparr>) True d)
     else mirror w u v stopped d)"
  unfolding queue_write_def Let_def linked_reads [OF assms] stop_stored_def option.map option.inject by (rule refl)

lemma queue_write_rests:
  assumes "hooks_ok w" and "wf_db d" and "linked d u j q" and "stored_end v q j \<in> set terminal_states"
  shows "at_rest (queue_write w u v stopped d) (jid j) u (stored_end v q j)"
proof -
  note wr = queue_write_linked [OF assms(2,3), of w v stopped]
  consider (saved) "stop_stored v q" "succeeded_before_cancel j"
    | (stop) "stop_stored v q" "\<not> succeeded_before_cancel j" "state j = Some Cancelled"
    | (plain) "queue_write w u v stopped d = mirror w u v stopped d" "stored_end v q j = qv_state v"
    unfolding wr stored_end_def by (cases "stop_stored v q"; cases "succeeded_before_cancel j"; cases "state j = Some Cancelled"; simp)
  then show ?thesis
  proof cases
    case saved
    let ?v = "\<lparr>qv_state = Done, qv_result = Some None, qv_exc_name = Some '''',
       qv_connection_lost = Some False\<rparr>"
    let ?m = "mirror w u ?v False d"
    have t: "qv_state ?v \<in> set terminal_states" by simp
    have wf: "wf_db ?m" by (rule calm_wf [OF mirror_ends(1) [OF assms(1-3) t]])
    have "queue_write w u v stopped d = store_success_before_cancel w u d"
      using saved wr by simp
    moreover have "extends w {} ?m (store_success_before_cancel w u d)"
      using set_dependents_going_extends [OF wf] rows_extends [OF wf, of ?m]
      by (auto simp: store_success_before_cancel_def Let_def split: option.split)
    ultimately show ?thesis using mirror_at_rest [OF assms(1-3) t] saved by (simp add: stored_end_def)
  next
    case stop
    let ?v = "v\<lparr>qv_state := Cancelled, qv_result := Some (Some Cancelled_while_running), qv_exc_name := Some '''',
      qv_connection_lost := Some False\<rparr>"
    let ?m = "mirror w u ?v True d"
    have w: "queue_write w u v stopped d = let_go_between_ticks w u (qv_state v) ?m"
      using stop wr by simp
    have t: "qv_state ?v \<in> set terminal_states" by simp
    have "wf_db ?m" by (rule calm_wf [OF mirror_ends(1) [OF assms(1-3) t]])
    then have "extends w {} ?m (let_go_between_ticks w u (qv_state v) ?m)"
      by (rule let_go_between_ticks_extends [OF assms(1)])
    then show ?thesis unfolding w using mirror_at_rest [OF assms(1-3) t] stop by (simp add: stored_end_def)
  next
    case plain
    then have t: "qv_state v \<in> set terminal_states" using assms(4) by simp
    let ?m = "mirror w u v stopped d"
    have "extends w {} ?m ?m" using rows_extends calm_wf [OF mirror_ends(1) [OF assms(1-3) t]] by simp
    then show ?thesis unfolding plain by (rule mirror_at_rest [OF assms(1-3) t])
  qed
qed

text \<open>A stopped job ends cancelled. Whatever queue_job stores when a job that a
  person stopped while it ran comes to its end (the failure of the killed task,
  the success a gate marked, or the postponement of a run), the row of the job
  and the row of its queue.job both end cancelled, and the target is free of it.\<close>

theorem stopped_job_ends_cancelled:
  assumes "hooks_ok w" and "wf_db d" and "linked d u j q" and "stop_stored v q"
    and "state j = Some Cancelled" and "\<not> succeeded_before_cancel j"
  shows "at_rest (queue_write w u v stopped d) (jid j) u Cancelled"
proof -
  have "stored_end v q j = Cancelled" using assms(4-6) by (simp add: stored_end_def)
  then show ?thesis using queue_write_rests [OF assms(1-3), of v stopped] by simp
qed

text \<open>A run of instance 7 that was stopped from the panel, the step that waits on it,
  and what queue_job is about to store.\<close>

definition stopped_db :: db where
  "stopped_db = empty_db\<lparr>
     jobs := [blank_job\<lparr>jid := 1, job_type_id := ''backup_create'', state := Some Cancelled,
                instance_id := Some 7, queue_job_uuid := Some 1, queue_chain_key := Some 9\<rparr>,
              blank_job\<lparr>jid := 2, job_type_id := ''restore_instance'', state := Some Wait_dependencies,
                instance_id := Some 8, queue_job_uuid := Some 2, queue_chain_key := Some 9\<rparr>],
     qjobs := [blank_queue_job\<lparr>q_uuid := 1, q_state := Started, q_graph_uuid := Some 5,
                q_reverse_depends_on := [2]\<rparr>,
               blank_queue_job\<lparr>q_uuid := 2, q_state := Wait_dependencies, q_graph_uuid := Some 5\<rparr>],
     instances := (\<lambda>i. if i = 7 \<or> i = 8 then Some live_instance else None),
     types := (\<lambda>c. Some (blank_type c)),
     next_job_id := 3, next_uuid := 10\<rparr>"

definition killed :: qvals where
  "killed = \<lparr>qv_state = Failed, qv_result = None, qv_exc_name = Some ''JobError'', qv_connection_lost = Some False\<rparr>"

lemma stopped_wf: "wf_db stopped_db"
  by code_simp

lemma stopped_linked: "linked stopped_db 1 (jobs stopped_db ! 0) (qjobs stopped_db ! 0)"
  by code_simp

theorem stopped_job_ends_cancelled_witness:
  "at_rest (queue_write (core_world stopped_db) 1 killed False stopped_db) 1 1 Cancelled"
proof -
  have "stop_stored killed (qjobs stopped_db ! 0)" "state (jobs stopped_db ! 0) = Some Cancelled"
    "\<not> succeeded_before_cancel (jobs stopped_db ! 0)" "jid (jobs stopped_db ! 0) = 1"
    by code_simp+
  then show ?thesis
    using stopped_job_ends_cancelled [OF core_hooks_ok stopped_wf stopped_linked, of killed _ False] by simp
qed

text \<open>A success before the stop stands. When the work of a job had succeeded
  before the stop reached it, what queue_job stores as the stop's failure, marked
  success or postponement is stored as done instead, in both rows.\<close>

theorem success_before_stop_is_done:
  assumes "hooks_ok w" and "wf_db d" and "linked d u j q" and "stop_stored v q"
    and "succeeded_before_cancel j"
  shows "at_rest (queue_write w u v stopped d) (jid j) u Done"
proof -
  have "stored_end v q j = Done" using assms(4,5) by (simp add: stored_end_def)
  then show ?thesis using queue_write_rests [OF assms(1-3), of v stopped] by simp
qed

definition saved_db :: db where
  "saved_db = stopped_db\<lparr>jobs := map (\<lambda>j. if jid j = 1 then j\<lparr>succeeded_before_cancel := True\<rparr> else j)
                                   (jobs stopped_db)\<rparr>"

theorem success_before_stop_is_done_witness:
  "at_rest (queue_write (core_world saved_db) 1 killed False saved_db) 1 1 Done"
proof -
  have "wf_db saved_db" "linked saved_db 1 (jobs saved_db ! 0) (qjobs saved_db ! 0)"
    "stop_stored killed (qjobs saved_db ! 0)" "succeeded_before_cancel (jobs saved_db ! 0)"
    "jid (jobs saved_db ! 0) = 1"
    by code_simp+
  then show ?thesis
    using success_before_stop_is_done [OF core_hooks_ok, of saved_db 1 "jobs saved_db ! 0"] by metis
qed

section \<open>The steps after one that ended\<close>

text \<open>A step of the graph that waits for its turn, with its own queue.job.\<close>

definition waits_in :: "db \<Rightarrow> nat \<Rightarrow> cloud_job \<Rightarrow> queue_job \<Rightarrow> bool" where
  "waits_in d g k p \<longleftrightarrow>
     k \<in> set (jobs d) \<and> p \<in> set (qjobs d) \<and> queue_job_uuid k = Some (q_uuid p) \<and>
     state k = Some Wait_dependencies \<and> q_state p = Wait_dependencies \<and> q_graph_uuid p = Some g"

lemma hook_keeps_waiting:
  assumes "hooks_ok w" and "wf_db d" and "waits_in d g k p"
  shows "waits_in (if s = Cancelled \<and> \<not> stopped then let_go w i d else d) g k p"
proof -
  have "set (jobs d) \<subseteq> set (jobs (let_go w i d)) \<and> set (qjobs d) \<subseteq> set (qjobs (let_go w i d))"
    using assms(1,2) unfolding let_go_def hooks_ok_def hook_effect_def
    by (fastforce split: option.split)
  then show ?thesis using assms(3) by (auto simp: waits_in_def)
qed

lemma cancel_steps_waiting:
  assumes "wf_db d" and "waits_in d g k p" and "i < jid k"
  shows "k\<lparr>state := Some Cancelled\<rparr> \<in> set (jobs (cancel_steps g i d))"
    and "p\<lparr>q_state := Cancelled\<rparr> \<in> set (qjobs (cancel_steps g i d))"
proof -
  have "queue_job_of d k = Some p"
    using assms(1,2) wf_dbD(1) by (simp add: waits_in_def queue_job_of_def queue_jobs.browse_Some wf_ids_def)
  then have g: "graph_of d k = Some g" using assms(2) by (simp add: graph_of_def waits_in_def)
  then have "k \<in> set (waiting_steps d g i)" using assms(2,3) by (simp add: waiting_steps_def waits_in_def)
  then show "k\<lparr>state := Some Cancelled\<rparr> \<in> set (jobs (cancel_steps g i d))"
    using assms(2) by (force simp: cancel_steps_def Let_def jobs_write_jobs write_rows_def waits_in_def)
  show "p\<lparr>q_state := Cancelled\<rparr> \<in> set (qjobs (cancel_steps g i d))"
    using assms(2,3) g by (force simp: cancel_steps_def Let_def waits_in_def set_map_filter)
qed

lemma chain_ended_waiting:
  assumes "hooks_ok w" and "wf_db d" and "waits_in d g k p" and "jid c < jid k"
    and "q_graph_uuid q = Some g" and "s \<in> {Failed, Cancelled}"
  shows "k\<lparr>state := Some Cancelled\<rparr> \<in> set (jobs (chain_ended w c q s stopped d))"
    and "p\<lparr>q_state := Cancelled\<rparr> \<in> set (qjobs (chain_ended w c q s stopped d))"
proof -
  let ?d1 = "if s = Cancelled \<and> \<not> stopped then let_go w (jid c) d else d"
  have wf: "wf_db ?d1" by (rule extends_wf [OF let_go_first_extends [OF assms(1,2)]])
  note steps = cancel_steps_waiting [OF wf hook_keeps_waiting [OF assms(1-3)] assms(4)]
  have "extends w {} (cancel_steps g (jid c) ?d1) (chain_ended w c q s stopped d)"
    using end_chain_after_tail [OF assms(1) wf] assms(5,6) by (simp add: chain_ended_def Let_def)
  with steps show "k\<lparr>state := Some Cancelled\<rparr> \<in> set (jobs (chain_ended w c q s stopped d))"
    "p\<lparr>q_state := Cancelled\<rparr> \<in> set (qjobs (chain_ended w c q s stopped d))"
    by (auto simp: extends_def)
qed

lemma mirror_ends_chain:
  assumes "hooks_ok w" and "wf_db d" and "linked d u j q" and "qv_state v \<in> {Failed, Cancelled}"
    and "q_graph_uuid q = Some g" and "waits_in d g k p" and "jid j < jid k"
    and e: "extends w {} (mirror w u v stopped d) d'"
  shows "at_rest d' (jid k) (q_uuid p) Cancelled"
proof -
  let ?s = "qv_state v" and ?d1 = "write_queue_row u v d"
  let ?d2 = "write_jobs [jid j] (mirrored_job ?s) ?d1"
  have nr: "?s \<noteq> Queued" "?s \<notin> set running_states" "?s \<in> set mirrored_states" "?s \<noteq> Started"
    "?s \<in> set terminal_states" using assms(4) by (auto simp: mirrored_states_def)
  have c1: "calm w d ?d1" by (rule write_queue_row_calm [OF assms(2,3)]) (use nr in simp)
  have c2: "calm w d ?d2" by (rule mirror_rows(1) [OF assms(2,3) nr(1)]) (use nr in simp)
  note l1 = write_queue_row_linked [OF assms(2,3), of v]
  have m: "mirror w u v stopped d = end_of_job w j (stored v q) ?s stopped ?d2"
    using nr linked_reads(1,4) [OF calm_wf [OF c1] l1(1)]
    by (simp add: mirror_def Let_def mirrored_fun)
  have "q_uuid p \<noteq> u" using linked_only [OF assms(2,3), of k] assms(6,7) by (auto simp: waits_in_def)
  then have p: "p \<in> set (qjobs ?d2)"
    using assms(6) queue_jobs.write_frame [of p "qjobs d" "\<lambda>x. x = u"]
    by (simp add: write_queue_row_def waits_in_def)
  have k: "k \<in> set (jobs ?d2)"
    using assms(6,7) cloud_jobs.write_frame [of k "jobs d" "\<lambda>i. i \<in> set [jid j]"] l1(2)
    by (simp add: jobs_write_jobs waits_in_def)
  have "waits_in ?d2 g k p" using assms(6) k p by (simp add: waits_in_def)
  note rows = chain_ended_waiting [OF assms(1) calm_wf [OF c2] this assms(7), of "stored v q" ?s stopped]
  have "extends w {} (chain_ended w j (stored v q) ?s stopped ?d2) d'"
    using extends_trans [OF end_of_job_tail [OF assms(1) calm_wf [OF c2]]] e unfolding m by blast
  then have "k\<lparr>state := Some Cancelled\<rparr> \<in> set (jobs d')" "p\<lparr>q_state := Cancelled\<rparr> \<in> set (qjobs d')"
    using rows assms(4,5) by (auto simp: extends_def stored_def)
  then show ?thesis
    using at_restI [OF extends_wf [OF e], of "k\<lparr>state := Some Cancelled\<rparr>" "p\<lparr>q_state := Cancelled\<rparr>" Cancelled]
      assms(6) by (simp add: waits_in_def)
qed



section \<open>A failure and its queue\<close>

lemma holding_jobsI:
  assumes "a \<in> set (alerts d)" and "a_active a" and "a_code a \<in> set (queue_holding_alert_codes w)"
    and "alert_in_scope s a" and "a_job_id a = Some i" and "job_of d i = Some j"
    and "state j = Some Failed" and "failure_holds_queue (type_of d j)"
  shows "i \<in> set (holding_jobs w d s)"
proof -
  have "case type_rec d j of None \<Rightarrow> False | Some t \<Rightarrow> failure_holds_queue t"
    using assms(8) by (auto simp: type_of_def split: option.splits)
  then have "a \<in> set (queue_holding_alerts w d s)"
    using assms by (simp add: queue_holding_alerts_def)
  then show ?thesis using assms(5) by (force simp: holding_jobs_def set_map_filter)
qed

lemma raise_names_job:
  assumes "wf_alerts d" and "raise_alert c critical (Some h) inst (Some i) key d = (k, d')"
  shows "\<exists>a \<in> set (alerts d'). dedup_match c (Some h) inst key a \<and> a_job_id a = Some i"
proof (cases "find (dedup_match c (Some h) inst key) (alerts d)")
  case None
  then show ?thesis using assms(2) by (auto simp: raise_alert_def dedup_match_def)
next
  case (Some a)
  let ?f = "\<lambda>x. x\<lparr>a_critical := critical, a_was_critical := a_was_critical x \<or> (critical \<and> \<not> a_critical x),
                   a_job_id := Some i, a_host_id := Some h\<rparr>"
  have a: "a \<in> set (alerts d)" "dedup_match c (Some h) inst key a" using find_Some_set [OF Some] by auto
  have "alerts d' = write_rows a_id (\<lambda>k. k = a_id a) ?f (alerts d)"
    using assms(2) Some by (auto simp: raise_alert_def)
  then have "?f a \<in> set (alerts d')" using a(1) by (auto simp: write_rows_def)
  then show ?thesis using a(2) by (intro bexI [of _ "?f a"]) (auto simp: dedup_match_def)
qed

lemma create_job_failed_alert_rows:
  "jobs (create_job_failed_alert w j d) = jobs d" "types (create_job_failed_alert w j d) = types d"
  by (simp_all add: create_job_failed_alert_def raise_alert_def Let_def split: option.split)

text \<open>The alerts that name a job are filed on its target.\<close>

definition alerts_on_target :: "db \<Rightarrow> cloud_job \<Rightarrow> bool" where
  "alerts_on_target d j \<longleftrightarrow>
     (\<forall>a \<in> set (alerts d). a_job_id a = Some (jid j) \<longrightarrow> alert_in_scope (scope_of j) a)"

text \<open>A failure that must hold its queue does. Once the failure of a job of a
  type whose failure holds its queue is recorded, the job is among those the
  queue of its target waits for: there is an open alert for it, either the one
  just filed or the critical conflict alert the job had raised itself.\<close>

theorem failure_holds_its_queue:
  assumes "wf_db d" and "wf_alerts d" and "j \<in> set (jobs d)" and "state j = Some Failed"
    and "\<not> hidden w j" and "failure_holds_queue (type_of d j)" and "alerts_on_target d j"
  shows "jid j \<in> set (holding_jobs w (create_job_failed_alert w j d) (scope_of j))"
proof -
  let ?d = "create_job_failed_alert w j d" and ?key = "Some (job_failed_key j)"
  let ?r = "raise_alert ''job_failed'' (job_type_id j \<in> set (severe_job_types w)) (Some (host_id j))
              (instance_id j) (Some (jid j)) ?key d"
  have "\<exists>a \<in> set (alerts ?d). a_active a \<and> a_code a \<in> set (queue_holding_alert_codes w) \<and>
      alert_in_scope (scope_of j) a \<and> a_job_id a = Some (jid j)"
  proof (cases "\<exists>a \<in> set (alerts d). a_job_id a = Some (jid j) \<and> a_active a \<and>
      a_code a \<in> set (actionable_alert_codes w) \<and> (a_critical a \<or> a_was_critical a)")
    case True
    then have "?d = d" using assms(5) by (simp add: create_job_failed_alert_def)
    then show ?thesis using True assms(7) by (fastforce simp: alerts_on_target_def queue_holding_alert_codes_def)
  next
    case False
    then have "?d = snd ?r"
      using assms(5,6) by (auto simp: create_job_failed_alert_def split: option.split)
    then obtain a where "a \<in> set (alerts ?d)" "dedup_match ''job_failed'' (Some (host_id j)) (instance_id j) ?key a"
      "a_job_id a = Some (jid j)"
      using raise_names_job [OF assms(2)] by (metis prod.collapse)
    then show ?thesis
      using wf_dbD(7) [OF assms(1,3)]
      by (intro bexI [of _ a])
        (auto simp: dedup_match_def queue_holding_alert_codes_def alert_in_scope_def scope_of_def
          scope_of_step_def given_def split: option.splits)
  qed
  moreover have "job_of ?d (jid j) = Some j" "type_of ?d j = type_of d j"
    using assms(1,3) wf_dbD(1)
    by (simp_all add: job_of_def create_job_failed_alert_rows cloud_jobs.browse_Some wf_ids_def type_of_def type_rec_def)
  ultimately show ?thesis using holding_jobsI assms(4,6) by metis
qed

definition failing_db :: db where
  "failing_db = held_db\<lparr>alerts := []\<rparr>"

theorem failure_holds_its_queue_witness:
  "1 \<in> set (holding_jobs (core_world failing_db)
        (create_job_failed_alert (core_world failing_db) (jobs failing_db ! 0) failing_db) (Some 7, None))"
proof -
  let ?j = "jobs failing_db ! 0"
  have "wf_db failing_db" "wf_alerts failing_db" "?j \<in> set (jobs failing_db)" "state ?j = Some Failed"
    "\<not> hidden (core_world failing_db) ?j" "failure_holds_queue (type_of failing_db ?j)"
    "alerts_on_target failing_db ?j" "scope_of ?j = (Some 7, None)" "jid ?j = 1"
    by code_simp+
  then show ?thesis using failure_holds_its_queue by metis
qed

lemma dismissed_rows:
  "alerts (dismiss_alerts w ids d) = write_rows a_id (\<lambda>i. i \<in> set ids) (\<lambda>a. a\<lparr>a_active := False\<rparr>) (alerts d)"
  by (simp add: dismiss_alerts_def on_holding_alert_closed_def schedule_dispatch_def Let_def)

text \<open>A success releases the queue. Dismissing the failures of a job's type on
  its target, as a success does once it is committed, leaves no alert of that
  identity open, and registers the queue of every job those alerts named to be
  served.\<close>

theorem success_releases_the_queue:
  assumes "a \<in> set (alerts d)"
    and "dedup_match ''job_failed'' (Some (host_id j)) (instance_id j) (Some (job_failed_key j)) a"
    and "a_job_id a = Some i" and "job_of d i = Some k"
  shows "(\<forall>x \<in> set (alerts (dismiss_job_failed_alerts w j d)).
           \<not> dedup_match ''job_failed'' (Some (host_id j)) (instance_id j) (Some (job_failed_key j)) x) \<and>
         scope_of k \<in> set (postcommit (dismiss_job_failed_alerts w j d))"
proof
  let ?m = "dedup_match ''job_failed'' (Some (host_id j)) (instance_id j) (Some (job_failed_key j))"
  let ?ids = "map a_id (filter ?m (alerts d))"
  let ?d = "dismiss_job_failed_alerts w j d"
  have rows: "alerts ?d = write_rows a_id (\<lambda>i. i \<in> set ?ids) (\<lambda>a. a\<lparr>a_active := False\<rparr>) (alerts d)"
    unfolding dismiss_job_failed_alerts_def by (rule dismissed_rows)
  have "\<not> ?m x" if "x \<in> set (alerts ?d)" for x
    using that unfolding rows by (auto simp: write_rows_def dedup_match_def split: if_splits)
  then show "\<forall>x \<in> set (alerts ?d). \<not> ?m x" by blast
  let ?closing = "filter (\<lambda>a. a_id a \<in> set ?ids \<and> a_active a) (alerts d)"
  have a: "a \<in> set ?closing" using assms(1,2) by (auto simp: dedup_match_def)
  let ?d' = "d\<lparr>alerts := write_rows a_id (\<lambda>i. i \<in> set ?ids) (\<lambda>a. a\<lparr>a_active := False\<rparr>) (alerts d)\<rparr>"
  have "?d = on_holding_alert_closed w ?closing ?d'"
    using a by (auto simp: dismiss_job_failed_alerts_def dismiss_alerts_def Let_def filter_empty_conv)
  moreover have "scope_of k \<in> set (postcommit (on_holding_alert_closed w ?closing ?d'))"
  proof -
    have "map_option scope_of (Option.bind (a_job_id a) (job_of ?d')) = Some (scope_of k)"
      "a_code a \<in> set (queue_holding_alert_codes w)"
      using assms(2-4) by (auto simp: job_of_def dedup_match_def queue_holding_alert_codes_def)
    then show ?thesis using a by (auto simp: on_holding_alert_closed_def schedule_dispatch_def set_map_filter)
  qed
  ultimately show "scope_of k \<in> set (postcommit ?d)" by simp
qed

theorem success_releases_the_queue_witness:
  "(Some 7, None) \<in> set (postcommit (dismiss_job_failed_alerts (core_world failing_db) (jobs failing_db ! 0)
      (create_job_failed_alert (core_world failing_db) (jobs failing_db ! 0) failing_db)))"
proof -
  let ?j = "jobs failing_db ! 0"
  let ?d = "create_job_failed_alert (core_world failing_db) ?j failing_db"
  let ?a = "alerts ?d ! 0"
  have "?a \<in> set (alerts ?d)"
    "dedup_match ''job_failed'' (Some (host_id ?j)) (instance_id ?j) (Some (job_failed_key ?j)) ?a"
    "a_job_id ?a = Some 1" "job_of ?d 1 = Some ?j" "scope_of ?j = (Some 7, None)"
    by code_simp+
  then show ?thesis using success_releases_the_queue by metis
qed

section \<open>What a runner stores\<close>

lemma mirror_calm:
  assumes "hooks_ok w" and "wf_db d" and "linked d u j q" and "qv_state v \<noteq> Queued"
    and run: "qv_state v \<in> set running_states \<Longrightarrow> job_running d j"
  shows "calm w d (mirror w u v stopped d)"
proof (cases "qv_state v \<in> set terminal_states")
  case True
  then show ?thesis by (rule mirror_ends(1) [OF assms(1-3)])
next
  case False
  have c1: "calm w d (write_queue_row u v d)" by (rule write_queue_row_calm [OF assms(2,3) run])
  have c2: "calm w d (write_jobs [jid j] (mirrored_job (qv_state v)) (write_queue_row u v d))"
    by (rule mirror_rows(1) [OF assms(2-4) run])
  note reads = linked_reads [OF calm_wf [OF c1] write_queue_row_linked(1) [OF assms(2,3)]]
  show ?thesis using False c1 c2 reads(1,4) by (simp add: mirror_def Let_def mirrored_fun)
qed

lemma store_success_before_cancel_calm:
  assumes "hooks_ok w" and "wf_db d" and "linked d u j q"
  shows "calm w d (store_success_before_cancel w u d)"
proof -
  let ?v = "\<lparr>qv_state = Done, qv_result = Some None, qv_exc_name = Some '''',
       qv_connection_lost = Some False\<rparr>"
  let ?m = "mirror w u ?v False d"
  have c: "calm w d ?m" by (rule mirror_calm [OF assms]) simp_all
  moreover have "calm w ?m (set_dependents_going us ?m)" for us
    using set_dependents_going_extends [OF calm_wf [OF c]] by (auto simp: extends_def)
  ultimately show ?thesis
    using calm_trans by (auto simp: store_success_before_cancel_def Let_def split: option.split)
qed

lemma queue_write_calm:
  assumes "hooks_ok w" and "wf_db d" and "linked d u j q" and "qv_state v \<noteq> Queued"
    and run: "qv_state v \<in> set running_states \<Longrightarrow> job_running d j"
  shows "calm w d (queue_write w u v stopped d)"
proof -
  let ?v = "v\<lparr>qv_state := Cancelled, qv_result := Some (Some Cancelled_while_running), qv_exc_name := Some '''',
      qv_connection_lost := Some False\<rparr>"
  let ?m = "mirror w u ?v True d"
  have "calm w d ?m" by (rule mirror_calm [OF assms(1-3)]) simp_all
  moreover from this have "calm w ?m (let_go_between_ticks w u (qv_state v) ?m)"
    using let_go_between_ticks_extends [OF assms(1) calm_wf] by (auto simp: extends_def)
  ultimately have "calm w d (let_go_between_ticks w u (qv_state v) ?m)" by (rule calm_trans)
  then show ?thesis
    using mirror_calm [OF assms(1-4) run] store_success_before_cancel_calm [OF assms(1-3)]
    by (simp add: queue_write_def Let_def)
qed

text \<open>What a runner stores starts nothing of its own. Whatever state queue_job
  stores on the queue.job of a cloud job (a running state only for a job that
  is running), with all it sets off, the end of the chain, the hooks and the
  alerts included, keeps the state well formed and leaves no target with two
  entries running that had one.\<close>

theorem runner_keeps_one_at_a_time:
  assumes "hooks_ok w" and "wf_db d" and "serial w d" and "linked d u j q" and "qv_state v \<noteq> Queued"
    and "qv_state v \<in> set running_states \<longrightarrow> job_running d j"
  shows "wf_db (queue_write w u v stopped d) \<and> serial w (queue_write w u v stopped d)"
  using calm_keeps [OF assms(2) queue_write_calm [OF assms(1,2,4,5)]] assms(3,6) by (simp add: keeps_def)

theorem runner_keeps_one_at_a_time_witness:
  "serial (core_world stopped_db) (queue_write (core_world stopped_db) 1 killed False stopped_db)"
proof -
  have "serial (core_world stopped_db) stopped_db" "qv_state killed \<noteq> Queued"
    "qv_state killed \<notin> set running_states"
    by code_simp+
  then show ?thesis using runner_keeps_one_at_a_time [OF core_hooks_ok stopped_wf _ stopped_linked] by blast
qed

end
