(* ===== verification/Cancel_Facts.thy ===== *)
theory Cancel_Facts
  imports Mirror_Facts
begin

text \<open>
  What a person who cancels a job can end: themselves entitled to every row the
  cancellation changes, and, for a job that runs, not the work before it stops.
\<close>

section \<open>Rows a cancellation leaves alone\<close>

definition frame :: "nat set \<Rightarrow> db \<Rightarrow> db \<Rightarrow> bool" where
  "frame S d d' \<longleftrightarrow> (\<forall>x \<in> set (jobs d). jid x \<in> S \<or> x \<in> set (jobs d'))"

lemma extends_frame: "extends w S d d' \<Longrightarrow> frame S d d'"
  by (simp add: extends_def frame_def)

lemma frame_trans: "frame S a b \<Longrightarrow> frame T b c \<Longrightarrow> frame (S \<union> T) a c"
  unfolding frame_def by blast

lemma frame_mono: "frame S d d' \<Longrightarrow> S \<subseteq> T \<Longrightarrow> frame T d d'"
  unfolding frame_def by blast

lemma write_frame_rows: "frame (set ids) d (write_jobs ids f d)"
  by (auto simp: frame_def jobs_write_jobs intro: cloud_jobs.write_frame)

lemma write_state_frame:
  assumes "hooks_ok w" and "wf_db d" and "s \<noteq> Queued" and "\<And>x. jid (f x) = jid x"
    "\<And>x. instance_id (f x) = instance_id x" "\<And>x. queue_job_uuid (f x) = queue_job_uuid x"
    "\<And>x. queue_chain_key (f x) = queue_chain_key x"
  shows "frame {i} d (write_state w i s f d)"
proof -
  let ?d = "write_jobs [i] (\<lambda>j. (f j)\<lparr>state := Some s\<rparr>) d"
  have "wf_db ?d" by (rule wf_write_jobs [OF assms(2)]) (use assms in simp_all)
  then have "extends w {} ?d (write_state w i s f d)"
    unfolding write_state_def by (rule on_state_changed_extends [OF assms(1)])
  then show ?thesis using frame_trans [OF write_frame_rows extends_frame] by fastforce
qed

lemma one_link_linked:
  assumes "wf_db d" and "j \<in> set (jobs d)" and "queue_job_uuid j = Some u" and "queue_job_of d j = Some q"
  shows "linked d u j q"
proof -
  have "q \<in> set (qjobs d)" "q_uuid q = u"
    using assms(1,3,4) wf_dbD(1) by (auto simp: queue_job_of_def queue_jobs.browse_Some wf_ids_def)
  moreover have "jid x = jid j" if "x \<in> set (jobs d)" "queue_job_uuid x = Some u" for x
    using wf_dbD(9) [OF assms(1)] assms(2,3) that unfolding one_link_def by fastforce
  ultimately show ?thesis using assms(2,3) unfolding linked_def by blast
qed

lemma find_append: "find P (xs @ ys) = (case find P xs of None \<Rightarrow> find P ys | Some x \<Rightarrow> Some x)"
  by (induction xs) auto

text \<open>A hook adds queue.jobs under new uuids only, so the graph of a job that was
  there stays what it was.\<close>

lemma graph_after_hook:
  assumes "hooks_ok w" and "wf_db d" and "x \<in> set (jobs d)"
  shows "graph_of (let_go w i d) x = graph_of d x"
proof -
  obtain qs where q: "qjobs (let_go w i d) = qjobs d @ qs" "\<forall>q \<in> set qs. next_uuid d \<le> q_uuid q"
  proof -
    have "\<exists>qs. qjobs (let_go w i d) = qjobs d @ qs \<and> (\<forall>q \<in> set qs. next_uuid d \<le> q_uuid q)"
      using assms(1,2) unfolding let_go_def hooks_ok_def hook_effect_def
      by (fastforce split: option.split)
    then show ?thesis using that by blast
  qed
  show ?thesis
  proof (cases "queue_job_uuid x")
    case (Some u)
    have "u < next_uuid d" by (rule wf_dbD(5) [OF assms(2,3) Some])
    then have "find (\<lambda>r. q_uuid r = u) qs = None" using q(2) by (fastforce simp: find_None_iff)
    then have "browse_row q_uuid (qjobs (let_go w i d)) u = browse_row q_uuid (qjobs d) u"
      unfolding browse_row_def q(1) find_append by (simp split: option.split)
    then show ?thesis using Some by (simp add: graph_of_def queue_job_of_def)
  qed (simp add: graph_of_def queue_job_of_def)
qed

lemma cancel_steps_frame: "frame (jid ` set (waiting_steps d g i)) d (cancel_steps g i d)"
  using write_frame_rows [of "map jid (waiting_steps d g i)" d] by (simp add: frame_def cancel_steps_def Let_def)

lemma chain_ended_frame:
  assumes "hooks_ok w" and "wf_db d" and "c \<in> set (jobs d)"
    and "q_graph_uuid q = graph_of d c"
  shows "frame (jid ` {x \<in> set (jobs d). graph_of d x = graph_of d c \<and> graph_of d c \<noteq> None \<and>
                   state x = Some Wait_dependencies \<and> jid c < jid x}) d (chain_ended w c q s stopped d)"
    (is "frame ?S d _")
proof -
  define d1 where "d1 = (if s = Cancelled \<and> \<not> stopped then let_go w (jid c) d else d)"
  have e1: "extends w {} d d1" unfolding d1_def by (rule let_go_first_extends [OF assms(1,2)])
  note wf1 = extends_wf [OF e1]
  have g1: "graph_of d1 x = graph_of d x" if "x \<in> set (jobs d)" for x
    using graph_after_hook [OF assms(1,2) that] by (simp add: d1_def)
  show ?thesis
    unfolding frame_def
  proof
    fix x assume x: "x \<in> set (jobs d)"
    have x1: "x \<in> set (jobs d1)" using e1 x by (auto simp: extends_def)
    show "jid x \<in> ?S \<or> x \<in> set (jobs (chain_ended w c q s stopped d))"
    proof (cases "q_graph_uuid q")
      case None
      then show ?thesis using x1 by (simp add: chain_ended_def d1_def Let_def)
    next
      case (Some g)
      have "extends w {} (cancel_steps g (jid c) d1) (end_chain_after w c s g d1)"
        by (rule end_chain_after_tail [OF assms(1) wf1])
      then have f: "frame (jid ` set (waiting_steps d1 g (jid c))) d1 (end_chain_after w c s g d1)"
        using frame_trans [OF cancel_steps_frame extends_frame] by fastforce
      have "x \<in> set (waiting_steps d1 g (jid c)) \<or> x \<in> set (jobs (end_chain_after w c s g d1))"
        using f x1 same_jid [OF wf_dbD(1) [OF wf1] x1] by (auto simp: frame_def waiting_steps_def)
      then show ?thesis
        using x x1 Some assms(4) g1 by (auto simp: chain_ended_def d1_def [symmetric] waiting_steps_def Let_def)
    qed
  qed
qed

lemma mirrored_graphs:
  assumes "wf_db d" and "x \<in> set (jobs d)"
  shows "graph_of (write_jobs ids f (write_queue_row u v d)) x = graph_of d x"
proof -
  have "browse_row q_uuid (qjobs (write_queue_row u v d)) k =
      map_option (\<lambda>q. if k = u then stored v q else q) (browse_row q_uuid (qjobs d) k)" for k
    unfolding write_queue_row_def stored_def
    using wf_dbD(1) [OF assms(1)] by (simp add: queue_jobs.browse_write wf_ids_def)
  then show ?thesis
    by (auto simp: graph_of_def queue_job_of_def stored_def Option.bind_map_option comp_def
        split: Option.bind_splits)
qed

lemma mirror_cancel_frame:
  assumes "hooks_ok w" and "wf_db d" and "linked d u j q" and "qv_state v = Cancelled"
  shows "frame (insert (jid j) (jid ` {x \<in> set (jobs d). graph_of d x = graph_of d j \<and> graph_of d j \<noteq> None \<and>
                   state x = Some Wait_dependencies \<and> jid j < jid x})) d (mirror w u v stopped d)"
    (is "frame (insert _ ?S) d _")
proof -
  let ?d1 = "write_queue_row u v d"
  let ?d2 = "write_jobs [jid j] (mirrored_job Cancelled) ?d1"
  have c1: "calm w d ?d1" by (rule write_queue_row_calm [OF assms(2,3)]) (use assms(4) in simp)
  have c2: "calm w d ?d2" using mirror_rows(1) [OF assms(2,3), of v] assms(4) by simp
  note l1 = write_queue_row_linked [OF assms(2,3), of v]
  have m: "mirror w u v stopped d = end_of_job w j (stored v q) Cancelled stopped ?d2"
    using assms(4) linked_reads(1,4) [OF calm_wf [OF c1] l1(1)]
    by (simp add: mirror_def Let_def mirrored_fun mirrored_states_def)
  let ?c = "mirrored_job Cancelled j"
  have c: "?c \<in> set (jobs ?d2)" using mirror_rows(2) [OF assms(2,3), of v] assms(4) by simp
  have gj: "graph_of d j = q_graph_uuid q"
    using linkedD(2) [OF assms(3)] linked_reads(4) [OF assms(2,3)] by (simp add: graph_of_def queue_job_of_def)
  have f1: "frame {jid j} d ?d2" using write_frame_rows [of "[jid j]" ?d1] l1(2) by (simp add: frame_def)
  have graphs: "graph_of ?d2 x = graph_of d x" if "x \<in> set (jobs d)" for x
    by (rule mirrored_graphs [OF assms(2) that])
  have gc: "graph_of ?d2 ?c = graph_of d j"
    using graphs [OF linkedD(1) [OF assms(3)]] by (simp add: graph_of_def queue_job_of_def)
  have "chain_ended w j (stored v q) Cancelled stopped ?d2 = chain_ended w ?c (stored v q) Cancelled stopped ?d2"
    by (simp add: chain_ended_def end_chain_after_def Let_def split: option.split)
  moreover have "frame (jid ` {x \<in> set (jobs ?d2). graph_of ?d2 x = graph_of ?d2 ?c \<and> graph_of ?d2 ?c \<noteq> None \<and>
        state x = Some Wait_dependencies \<and> jid ?c < jid x}) ?d2 (chain_ended w ?c (stored v q) Cancelled stopped ?d2)"
    by (rule chain_ended_frame [OF assms(1) calm_wf [OF c2] c]) (simp add: gc gj stored_def)
  ultimately have f2: "frame (jid ` {x \<in> set (jobs ?d2). graph_of ?d2 x = graph_of d j \<and> graph_of d j \<noteq> None \<and>
        state x = Some Wait_dependencies \<and> jid j < jid x}) ?d2 (mirror w u v stopped d)"
    using frame_trans [OF _ extends_frame [OF end_of_job_tail [OF assms(1) calm_wf [OF c2]]], where T = "{}"]
    unfolding m gc by simp
  show ?thesis
    unfolding frame_def
  proof
    fix x assume x: "x \<in> set (jobs d)"
    show "jid x \<in> insert (jid j) ?S \<or> x \<in> set (jobs (mirror w u v stopped d))"
    proof (cases "jid x = jid j")
      case False
      then have x2: "x \<in> set (jobs ?d2)" using f1 x by (auto simp: frame_def)
      then consider "x \<in> set (jobs (mirror w u v stopped d))" |
        y where "y \<in> set (jobs ?d2)" "jid x = jid y" "graph_of ?d2 y = graph_of d j" "graph_of d j \<noteq> None"
          "state y = Some Wait_dependencies" "jid j < jid y"
        using f2 unfolding frame_def by blast
      then show ?thesis
      proof cases
        case 2
        then have "y = x" using same_jid [OF wf_dbD(1) [OF calm_wf [OF c2]]] x2 by metis
        then show ?thesis using 2 x graphs by auto
      qed simp
    qed simp
  qed
qed

section \<open>Cancelling a job\<close>

lemma cancel_queued_frame:
  assumes "hooks_ok w" and "wf_db d" and "j \<in> set (jobs d)" and "state j = Some Queued"
    and "blocked_alert_id j = None"
  shows "frame (jid ` set (j # ended_with d j)) d (snd (cancel_queued w [jid j] n skip lock d))"
proof -
  obtain cs d' where c: "cancel_queued w [jid j] n skip lock d = (cs, d')"
    by (cases "cancel_queued w [jid j] n skip lock d")
  have "job_of d (jid j) = Some j" using assms(2,3) wf_dbD(1) by (simp add: job_of_Some)
  then have "records d [jid j] = [j]" by (simp add: records_def List.map_filter_def)
  then have "set cs \<subseteq> jid ` {x \<in> set (with_chains d [j]). state x = Some Queued}"
    using c by (auto simp: cancel_queued_def Let_def split: if_splits)
  also have "\<dots> \<subseteq> jid ` set (j # ended_with d j)"
    using assms(4,5) by (auto simp: with_chains_def ended_with_def split: option.splits)
  finally have "settles w (jid ` set (j # ended_with d j)) d d'"
    using cancel_queued_settles [OF assms(1,2) c] settles_mono by blast
  then show ?thesis using c by (simp add: settles_def frame_def)
qed

lemma cancel_job_frame:
  assumes "hooks_ok w" and "wf_db d" and "j \<in> set (jobs d)"
    and "cancel_job w a j d = Inr d'"
  shows "frame (jid ` set (j # ended_with d j)) d d'"
proof -
  let ?S = "jid ` set (j # ended_with d j)"
  have own: "frame ?S d (write_state w (jid j) Cancelled f d)"
    if "\<And>x. jid (f x) = jid x" "\<And>x. instance_id (f x) = instance_id x"
      "\<And>x. queue_job_uuid (f x) = queue_job_uuid x" "\<And>x. queue_chain_key (f x) = queue_chain_key x" for f
    using write_state_frame [OF assms(1,2) _ that, of Cancelled "jid j"] by (auto simp: frame_def)
  let ?v = "\<lparr>qv_state = Cancelled, qv_result = Some (Some Other_result), qv_exc_name = None, qv_connection_lost = None\<rparr>"
  consider (blocked) "d' = write_state w (jid j) Cancelled (\<lambda>x. x\<lparr>blocked_alert_id := None\<rparr>) d"
    | (queued) "blocked_alert_id j = None" "state j = Some Queued"
        "d' = snd (cancel_queued w [jid j] (Cancelled_by (uid (who a))) None True d)"
    | (started) "d' = write_state w (jid j) Cancelled id d"
    | (unlinked) "d' = d"
    | (dispatched) u q where "blocked_alert_id j = None" "state j \<noteq> Some Queued" "queue_job_uuid j = Some u"
        "queue_job_of d j = Some q" "d' = queue_write w u ?v False d"
    using assms(4) by (fastforce simp: cancel_job_def Let_def split: option.splits if_splits)
  then show ?thesis
  proof cases
    case blocked
    show ?thesis unfolding blocked by (rule own) simp_all
  next
    case queued
    show ?thesis unfolding queued(3) by (rule cancel_queued_frame [OF assms(1-3) queued(2,1)])
  next
    case started
    show ?thesis unfolding started by (rule own) simp_all
  next
    case unlinked
    then show ?thesis by (simp add: frame_def)
  next
    case dispatched
    have l: "linked d u j q" by (rule one_link_linked [OF assms(2,3) dispatched(3,4)])
    have "d' = mirror w u ?v False d" using dispatched(5) by (simp add: queue_write_def Let_def)
    moreover have "insert (jid j) (jid ` {x \<in> set (jobs d). graph_of d x = graph_of d j \<and> graph_of d j \<noteq> None \<and>
        state x = Some Wait_dependencies \<and> jid j < jid x}) \<subseteq> ?S"
      using dispatched(1,2) by (auto simp: ended_with_def)
    ultimately show ?thesis using frame_mono [OF mirror_cancel_frame [OF assms(1,2) l, of ?v False]] by simp
  qed
qed

text \<open>C21. Nobody cancels what they may not ask for. When a person's cancellation of
  a job goes through, they may write that job, and every job whose row it
  changes (the rest of a chain in the queue, the steps that wait on it) is one
  they can read and are entitled to ask for themselves on its target.\<close>

theorem cancel_ends_only_what_one_may_ask_for:
  assumes "hooks_ok w" and "wf_db d" and "j \<in> set (jobs d)"
    and "cancel_job w a j d = Inr d'" and "\<not> is_su a"
  shows "writes_job a (jid j) \<and>
         (\<forall>x \<in> set (jobs d). x \<notin> set (jobs d') \<longrightarrow>
            reads_job a (jid x) \<and> may_ask w a d (job_type_id x) (instance_id x) = Inr ())"
proof -
  let ?js = "j # ended_with d j"
  have none: "first_unstoppable w a d ?js = None" and wr: "writes_job a (jid j)"
    using assms(4,5) by (auto simp: cancel_job_def Let_def split: option.splits if_splits)
  have "find (\<lambda>j. \<not> stoppable w a d j) ?js = None"
    using none assms(5) unfolding first_unstoppable_def by (simp only: if_False)
  then have ok: "stoppable w a d y" if "y \<in> set ?js" for y
    using that unfolding find_None_all by blast
  have sub: "set ?js \<subseteq> set (jobs d)" using assms(3) by (auto simp: ended_with_def split: option.splits if_splits)
  have "stoppable w a d x" if "x \<in> set (jobs d)" "x \<notin> set (jobs d')" for x
  proof -
    have "jid x \<in> jid ` set ?js"
      using cancel_job_frame [OF assms(1-4)] that unfolding frame_def by metis
    then obtain y where y: "y \<in> set ?js" "jid x = jid y" by (elim imageE) simp
    then have "x = y" using same_jid [OF wf_dbD(1) [OF assms(2)] that(1)] sub by (metis subsetD)
    then show ?thesis using ok y(1) by simp
  qed
  then show ?thesis using wr unfolding stoppable_def by blast
qed

theorem cancel_ends_only_what_one_may_ask_for_witness:
  "\<exists>d'. cancel_job (core_world shop_db) manager (jobs shop_db ! 1) shop_db = Inr d' \<and>
        jobs shop_db ! 2 \<notin> set (jobs d') \<and>
        may_ask (core_world shop_db) manager shop_db ''restore_instance'' (Some 8) = Inr ()"
proof -
  let ?w = "core_world shop_db" and ?j = "jobs shop_db ! 1" and ?k = "jobs shop_db ! 2"
  let ?r = "cancel_job ?w manager ?j shop_db"
  have "(case ?r of Inl _ \<Rightarrow> False | Inr d' \<Rightarrow> ?k \<notin> set (jobs d'))" by code_simp
  then obtain d' where d': "?r = Inr d'" "?k \<notin> set (jobs d')" by (auto split: sum.splits)
  have f: "?j \<in> set (jobs shop_db)" "\<not> is_su manager" "?k \<in> set (jobs shop_db)"
    "job_type_id ?k = ''restore_instance''" "instance_id ?k = Some 8"
    by code_simp+
  then show ?thesis
    using cancel_ends_only_what_one_may_ask_for [OF core_hooks_ok shop_wf f(1) d'(1) f(2)] d' by metis
qed

section \<open>Stopping a job that runs\<close>

text \<open>A stop is not an end. Cancelling a job that runs marks it as cancelled for
  its executor to see, and no more: its target stays busy with it until the run
  ends, and no queue is registered to be served.\<close>

theorem stopping_keeps_the_target_busy:
  assumes "hooks_ok w" and "wf_db d" and "j \<in> set (jobs d)" and "visible w j"
    and "state j = Some Started" and "blocked_alert_id j = None"
    and "queue_job_of d j = Some q" and "q_state q \<in> set running_states"
    and "cancel_job w a j d = Inr d'"
  shows "job_of d' (jid j) = Some (j\<lparr>state := Some Cancelled\<rparr>) \<and>
         scope_busy w d' (scope_of j) \<and> set (postcommit d') = set (postcommit d)"
proof -
  let ?f = "state_update (\<lambda>_. Some Cancelled) :: cloud_job \<Rightarrow> cloud_job"
  let ?d = "write_jobs [jid j] ?f d"
  have d': "d' = on_state_changed w Cancelled [jid j] ?d"
    using assms(5,6,9) by (auto simp: cancel_job_def write_state_def Let_def split: option.splits if_splits)
  have j: "job_of ?d (jid j) = Some (j\<lparr>state := Some Cancelled\<rparr>)"
  proof -
    have "job_of d (jid j) = Some j" using assms(2,3) wf_dbD(1) by (simp add: job_of_Some)
    then show ?thesis using wf_dbD(1) [OF assms(2)] by (simp add: job_of_write_field)
  qed
  have q: "queue_job_of ?d (j\<lparr>state := Some Cancelled\<rparr>) = Some q"
    using assms(7) by (simp add: queue_job_of_def)
  have eq: "d' = schedule_dispatch [] ?d"
    unfolding d' using assms(8) by (simp add: on_state_changed_def act_on_end_def j q)
  have "q \<in> set (qjobs d)" "queue_job_uuid j = Some (q_uuid q)"
    using assms(7) wf_dbD(1) [OF assms(2)]
    by (auto simp: queue_job_of_def queue_jobs.browse_Some wf_ids_def split: Option.bind_splits)
  then have run: "job_running d' (j\<lparr>state := Some Cancelled\<rparr>)"
    using assms(8) unfolding eq
    by (auto simp: job_running_def queue_job_running_def schedule_dispatch_def)
  have mem: "j\<lparr>state := Some Cancelled\<rparr> \<in> set (jobs d')"
    using j find_Some_set unfolding eq by (fastforce simp: schedule_dispatch_def dest: job_of_in)
  have "in_scope (scope_of j) (j\<lparr>state := Some Cancelled\<rparr>)"
    using in_own_scope [OF wf_dbD(7) [OF assms(2,3)]] by (simp add: in_scope_def)
  then have "scope_busy w d' (scope_of j)"
    using mem run assms(4) unfolding scope_busy_def by (auto simp: visible_def)
  then show ?thesis using j unfolding eq by (simp add: schedule_dispatch_def job_of_def)
qed

definition running_db :: db where
  "running_db = stopped_db\<lparr>jobs := map (\<lambda>j. if jid j = 1 then j\<lparr>state := Some Started\<rparr> else j) (jobs stopped_db)\<rparr>"

theorem stopping_keeps_the_target_busy_witness:
  "\<exists>d'. cancel_job (core_world running_db) manager (jobs running_db ! 0) running_db = Inr d' \<and>
        scope_busy (core_world running_db) d' (Some 7, None)"
proof -
  let ?w = "core_world running_db" and ?j = "jobs running_db ! 0" and ?q = "qjobs running_db ! 0"
  have "(case cancel_job ?w manager ?j running_db of Inl _ \<Rightarrow> False | Inr _ \<Rightarrow> True)" by code_simp
  then obtain d' where d': "cancel_job ?w manager ?j running_db = Inr d'" by (auto split: sum.splits)
  have "wf_db running_db" "?j \<in> set (jobs running_db)" "visible ?w ?j" "state ?j = Some Started"
    "blocked_alert_id ?j = None" "queue_job_of running_db ?j = Some ?q" "q_state ?q \<in> set running_states"
    "scope_of ?j = (Some 7, None)"
    by code_simp+
  then show ?thesis
    using stopping_keeps_the_target_busy [OF core_hooks_ok _ _ _ _ _ _ _ d'] d' by metis
qed

end
