(* ===== verification/Job_Reconcile.thy ===== *)
theory Job_Reconcile
  imports Cancel_Facts
begin

text \<open>
  The reconciliation of lost jobs (\<^verbatim>\<open>cloud.job._cron_reconcile_lost_jobs\<close> and its
  steps, \<^verbatim>\<open>models/cloud_job.py\<close>): a job whose worker died, or whose queue.job was
  ended or deleted outside the ORM, is found, claimed, cleaned up and closed.
  Row locks that other transactions hold, the two time stamps the margin is
  read from, and the seconds gone by are arguments: they are the world's.
\<close>

section \<open>The cases\<close>

definition RECONCILE_GRACE_MINUTES :: int where
  "RECONCILE_GRACE_MINUTES = 2"

definition RECONCILE_BATCH :: nat where
  "RECONCILE_BATCH = 20"

definition RECONCILE_HOOK_BUDGET_S :: int where
  "RECONCILE_HOOK_BUDGET_S = 60"

text \<open>The state of the \<^verbatim>\<open>queue_job\<close> row is \<open>None\<close> when the row is gone.\<close>

definition lost_job_case :: "job_state option \<Rightarrow> job_state option \<Rightarrow> string \<Rightarrow> lost_case option" where
  "lost_job_case js qs exc =
     (if js \<in> Some ` set running_states then
        (if qs \<in> {None, Some Failed} then Some Lost_failed
         else if qs = Some Cancelled then
           (if js = Some Started then Some Lost_cancelled_running else Some Lost_cancelled_waiting)
         else if qs = Some Done then Some Lost_done
         else None)
      else if js = Some Cancelled \<and> qs = Some Failed \<and> exc = ''JobFoundDead'' then Some Lost_stopped
      else None)"

text \<open>When each row last moved, in seconds: \<^verbatim>\<open>write_date\<close> of a job, and the first
  that is set of a queue.job's \<^verbatim>\<open>date_done\<close>, \<^verbatim>\<open>date_cancelled\<close>, \<^verbatim>\<open>date_enqueued\<close> and
  \<^verbatim>\<open>date_created\<close>.\<close>

record stamps =
  job_moved :: "nat \<Rightarrow> int option"
  queue_moved :: "nat \<Rightarrow> int option"

definition cutoff :: "int \<Rightarrow> int" where
  "cutoff now = now - RECONCILE_GRACE_MINUTES * 60"

text \<open>SQL's \<^verbatim>\<open><\<close>, which a missing value fails.\<close>

definition before :: "int option \<Rightarrow> int \<Rightarrow> bool" where
  "before t c \<longleftrightarrow> (case t of None \<Rightarrow> False | Some s \<Rightarrow> s < c)"

text \<open>The two halves of the \<^verbatim>\<open>UNION\<close>.\<close>

definition ended_or_gone :: "stamps \<Rightarrow> int \<Rightarrow> db \<Rightarrow> cloud_job \<Rightarrow> bool" where
  "ended_or_gone st now d j \<longleftrightarrow>
     state j \<in> Some ` set running_states \<and> before (job_moved st (jid j)) (cutoff now) \<and>
     (case queue_job_uuid j of
        None \<Rightarrow> False
      | Some u \<Rightarrow>
          (case browse_row q_uuid (qjobs d) u of
             None \<Rightarrow> True
           | Some q \<Rightarrow> q_state q \<in> set terminal_states \<and> before (queue_moved st u) (cutoff now)))"

definition stopped_and_dead :: "stamps \<Rightarrow> int \<Rightarrow> db \<Rightarrow> cloud_job \<Rightarrow> bool" where
  "stopped_and_dead st now d j \<longleftrightarrow>
     state j = Some Cancelled \<and> before (job_moved st (jid j)) (cutoff now) \<and>
     (case queue_job_of d j of
        None \<Rightarrow> False
      | Some q \<Rightarrow> q_state q = Failed \<and> q_exc_name q = ''JobFoundDead'' \<and>
                  before (queue_moved st (q_uuid q)) (cutoff now))"

definition lost_job_ids :: "stamps \<Rightarrow> int \<Rightarrow> db \<Rightarrow> nat list" where
  "lost_job_ids st now d =
     take RECONCILE_BATCH
       (sort (map jid (filter (\<lambda>j. ended_or_gone st now d j \<or> stopped_and_dead st now d j) (jobs d))))"

section \<open>The three steps\<close>

text \<open>The rows other transactions hold, by table.\<close>

record row_locks =
  jobs_held :: "nat list"
  queue_jobs_held :: "nat list"

definition lock_lost_job :: "row_locks \<Rightarrow> db \<Rightarrow> nat \<Rightarrow> (cloud_job \<times> queue_job option) option" where
  "lock_lost_job l d i =
     (if i \<in> set (jobs_held l) then None
      else case job_of d i of
        None \<Rightarrow> None
      | Some j \<Rightarrow>
          (case queue_job_of d j of
             None \<Rightarrow> Some (j, None)
           | Some q \<Rightarrow> if q_uuid q \<in> set (queue_jobs_held l) then None else Some (j, Some q)))"

definition case_of_rows :: "cloud_job \<times> queue_job option \<Rightarrow> lost_case option" where
  "case_of_rows r =
     (case r of (j, q) \<Rightarrow>
        lost_job_case (state j) (map_option q_state q) (case q of None \<Rightarrow> '''' | Some x \<Rightarrow> q_exc_name x))"

text \<open>Python's \<^verbatim>\<open>(t or cutoff) >= cutoff\<close>: what did not stand still long enough.\<close>

definition moved_since :: "int option \<Rightarrow> int \<Rightarrow> bool" where
  "moved_since t c \<longleftrightarrow> (case t of None \<Rightarrow> True | Some s \<Rightarrow> c \<le> s)"

definition claim_lost_job ::
  "row_locks \<Rightarrow> stamps \<Rightarrow> int \<Rightarrow> nat \<Rightarrow> db \<Rightarrow> (lost_case \<times> bool) option \<times> db" where
  "claim_lost_job l st now i d =
     (case lock_lost_job l d i of
        None \<Rightarrow> (None, d)
      | Some (j, q) \<Rightarrow>
     (case case_of_rows (j, q) of
        None \<Rightarrow> (None, d)
      | Some c \<Rightarrow>
          if worker_lost_at j \<noteq> None then (Some (c, True), d)
          else if moved_since (job_moved st i) (cutoff now) \<or>
                  (case q of None \<Rightarrow> False | Some x \<Rightarrow> moved_since (queue_moved st (q_uuid x)) (cutoff now))
          then (None, d)
          else (Some (c, False), write_jobs [i] (\<lambda>x. x\<lparr>worker_lost_at := Some (nat now)\<rparr>) d)))"

text \<open>A hook runs on a cursor of its own and never raises out of its dispatch: one
  that raised changes nothing.\<close>

definition run_lost_hook :: "world \<Rightarrow> hook_call \<Rightarrow> db \<Rightarrow> db" where
  "run_lost_hook w c d = (case hooks w c d of None \<Rightarrow> d | Some d' \<Rightarrow> d')"

definition clean_up_lost_job :: "world \<Rightarrow> nat \<Rightarrow> lost_case \<Rightarrow> bool \<Rightarrow> db \<Rightarrow> bool \<times> db" where
  "clean_up_lost_job w i c resumed d =
     (case job_of d i of
        None \<Rightarrow> (False, d)
      | Some j \<Rightarrow>
          let d1 = add_log i (Worker_lost c (queue_job_of d j = None)) d in
          if executors w (job_type_id j) = None then (False, d1)
          else if resumed then (False, add_log i Clean_up_unfinished d1)
          else if c = Lost_failed then (True, run_lost_hook w (On_abort i) d1)
          else if c \<in> {Lost_stopped, Lost_cancelled_running} \<and> \<not> succeeded_before_cancel j
          then (True, run_lost_hook w (On_cancelled_running i) d1)
          else (False, d1))"

definition close_lost_job_without_queue :: "world \<Rightarrow> cloud_job \<Rightarrow> db \<Rightarrow> db" where
  "close_lost_job_without_queue w j d =
     (let d1 = write_jobs [jid j] (\<lambda>x. x\<lparr>state := Some Failed\<rparr>) d in
      on_state_changed w Failed [jid j] (broadcast (jid j) (Job_ended Failed) (create_job_failed_alert w j d1)))"

text \<open>What the close writes on the queue.job, and the context it writes it in.\<close>

definition closing_vals :: "lost_case \<Rightarrow> qvals" where
  "closing_vals c =
     (let v = \<lparr>qv_state = Failed, qv_result = None, qv_exc_name = None, qv_connection_lost = None\<rparr> in
      case c of
        Lost_failed \<Rightarrow> v\<lparr>qv_connection_lost := Some False\<rparr>
      | Lost_stopped \<Rightarrow> v
      | Lost_cancelled_running \<Rightarrow> v\<lparr>qv_state := Cancelled\<rparr>
      | Lost_cancelled_waiting \<Rightarrow> v\<lparr>qv_state := Cancelled\<rparr>
      | Lost_done \<Rightarrow> v\<lparr>qv_state := Done\<rparr>)"

definition close_lost_job :: "world \<Rightarrow> row_locks \<Rightarrow> nat \<Rightarrow> db \<Rightarrow> bool \<times> db" where
  "close_lost_job w l i d =
     (case lock_lost_job l d i of
        None \<Rightarrow> (False, d)
      | Some (j, q) \<Rightarrow>
     (case case_of_rows (j, q) of
        None \<Rightarrow> (False, d)
      | Some c \<Rightarrow>
          if worker_lost_at j = None then (False, d)
          else (case q of
                  None \<Rightarrow> (True, close_lost_job_without_queue w j d)
                | Some x \<Rightarrow> (True, queue_write w (q_uuid x) (closing_vals c) (c = Lost_cancelled_running) d))))"

text \<open>One pass. \<open>elapsed\<close> is the clock at each job's turn; an exception of a step
  leaves the job to the next pass, and the model's steps raise none.\<close>

fun reconcile_each ::
  "world \<Rightarrow> row_locks \<Rightarrow> stamps \<Rightarrow> int \<Rightarrow> (nat \<Rightarrow> int) \<Rightarrow> nat list \<Rightarrow> bool \<Rightarrow> nat \<Rightarrow> db \<Rightarrow> nat \<times> db" where
  "reconcile_each w l st now elapsed [] cleaned n d = (n, d)"
| "reconcile_each w l st now elapsed (i # is) cleaned n d =
     (if cleaned \<and> RECONCILE_HOOK_BUDGET_S \<le> elapsed i then (n, d)
      else case claim_lost_job l st now i d of
        (None, d1) \<Rightarrow> reconcile_each w l st now elapsed is cleaned n d1
      | (Some (c, resumed), d1) \<Rightarrow>
          (case clean_up_lost_job w i c resumed d1 of
             (hooked, d2) \<Rightarrow>
          (case close_lost_job w l i d2 of
             (done, d3) \<Rightarrow>
               reconcile_each w l st now elapsed is (cleaned \<or> hooked)
                 (if done then Suc n else n) d3)))"

definition cron_reconcile_lost_jobs ::
  "world \<Rightarrow> row_locks \<Rightarrow> stamps \<Rightarrow> int \<Rightarrow> (nat \<Rightarrow> int) \<Rightarrow> db \<Rightarrow> nat \<times> db" where
  "cron_reconcile_lost_jobs w l st now elapsed d =
     reconcile_each w l st now elapsed (lost_job_ids st now d) False 0 d"

section \<open>What the reconciliation guarantees\<close>

lemma lock_lost_job_rows:
  assumes "wf_db d" and "lock_lost_job l d i = Some (j, Some q)"
  shows "j \<in> set (jobs d)" "jid j = i" "linked d (q_uuid q) j q"
proof -
  have j: "job_of d i = Some j" "queue_job_of d j = Some q"
    using assms(2) by (auto simp: lock_lost_job_def split: if_splits option.splits)
  show m: "j \<in> set (jobs d)" "jid j = i" using job_of_in [OF j(1)] by auto
  have "queue_job_uuid j = Some (q_uuid q)"
    using j(2) wf_dbD(1) [OF assms(1)]
    by (auto simp: queue_job_of_def queue_jobs.browse_Some wf_ids_def split: Option.bind_splits)
  then show "linked d (q_uuid q) j q" by (rule one_link_linked [OF assms(1) m(1) _ j(2)])
qed

lemma close_lost_job_writes:
  assumes "lock_lost_job l d i = Some (j, Some q)" and "case_of_rows (j, Some q) = Some c"
    and "worker_lost_at j \<noteq> None"
  shows "close_lost_job w l i d =
           (True, queue_write w (q_uuid q) (closing_vals c) (c = Lost_cancelled_running) d)"
  using assms by (simp add: close_lost_job_def)

text \<open>The end a lost job is given.\<close>

definition closed_as :: "cloud_job \<Rightarrow> lost_case \<Rightarrow> job_state" where
  "closed_as j c =
     (if c \<in> {Lost_failed, Lost_stopped} \<and> succeeded_before_cancel j then Done
      else case c of Lost_failed \<Rightarrow> Failed | Lost_done \<Rightarrow> Done | _ \<Rightarrow> Cancelled)"

lemma closing_end:
  assumes "case_of_rows (j, Some q) = Some c"
  shows "stored_end (closing_vals c) q j = closed_as j c"
  using assms
  by (cases c)
    (auto simp: case_of_rows_def lost_job_case_def stored_end_def closing_vals_def closed_as_def stop_stored_def
      split: if_splits)

text \<open>C23. A lost job is closed for good. When a job was claimed and its rows are free,
  closing it leaves both its rows ended, as the case says: failed when queue_job
  gave up on its worker, cancelled when it had been stopped or its queue.job
  cancelled, done when its work had succeeded or its queue.job was done; and its
  target is no longer busy with it.\<close>

theorem lost_job_is_closed:
  assumes "hooks_ok w" and "wf_db d"
    and "lock_lost_job l d i = Some (j, Some q)" and "case_of_rows (j, Some q) = Some c"
    and "worker_lost_at j \<noteq> None"
  shows "fst (close_lost_job w l i d) \<and>
         at_rest (snd (close_lost_job w l i d)) i (q_uuid q) (closed_as j c)"
proof -
  note rows = lock_lost_job_rows [OF assms(2,3)]
  have "closed_as j c \<in> set terminal_states" by (cases c) (simp_all add: closed_as_def)
  then have "at_rest (queue_write w (q_uuid q) (closing_vals c) (c = Lost_cancelled_running) d) (jid j)
      (q_uuid q) (closed_as j c)"
    using queue_write_rests [OF assms(1,2) rows(3)] closing_end [OF assms(4)] by metis
  then show ?thesis using close_lost_job_writes [OF assms(3-5)] rows(2) by simp
qed

text \<open>A started job of a chain whose queue.job was found dead, claimed.\<close>

definition lost_db :: db where
  "lost_db = stopped_db\<lparr>
     jobs := map (\<lambda>j. if jid j = 1 then j\<lparr>state := Some Started, worker_lost_at := Some 3\<rparr> else j) (jobs stopped_db),
     qjobs := map (\<lambda>q. if q_uuid q = 1 then q\<lparr>q_state := Failed, q_exc_name := ''JobFoundDead''\<rparr> else q)
                (qjobs stopped_db)\<rparr>"

theorem lost_job_is_closed_witness:
  "at_rest (snd (close_lost_job (core_world lost_db) \<lparr>jobs_held = [], queue_jobs_held = []\<rparr> 1 lost_db)) 1 1 Failed"
proof -
  let ?j = "jobs lost_db ! 0" and ?q = "qjobs lost_db ! 0" and ?l = "\<lparr>jobs_held = [], queue_jobs_held = []\<rparr>"
  have "wf_db lost_db" "lock_lost_job ?l lost_db 1 = Some (?j, Some ?q)"
    "case_of_rows (?j, Some ?q) = Some Lost_failed" "worker_lost_at ?j \<noteq> None"
    "closed_as ?j Lost_failed = Failed" "q_uuid ?q = 1"
    by code_simp+
  then show ?thesis using lost_job_is_closed [OF core_hooks_ok] by metis
qed



lemma claim_calm:
  assumes "wf_db d"
  shows "calm w d (snd (claim_lost_job l st now i d))"
proof -
  have "calm w d (write_jobs [i] (\<lambda>x. x\<lparr>worker_lost_at := Some t\<rparr>) d)" for t
    by (rule write_calm [OF assms]) (simp_all add: job_running_def queue_job_running_def)
  moreover have "calm w d d" by (rule rows_calm [OF assms]) simp_all
  ultimately show ?thesis by (simp add: claim_lost_job_def split: option.split prod.split)
qed

lemma clean_up_extends:
  assumes "hooks_ok w" and "wf_db d"
  shows "extends w {} d (snd (clean_up_lost_job w i c resumed d))"
proof -
  have log: "extends w {} d' (add_log k n d')" if "wf_db d'" for d' k n
    by (rule rows_extends [OF that]) (simp_all add: add_log_def)
  have hook: "extends w {} d' (run_lost_hook w h d')" if "wf_db d'" for d' h
    using assms(1) hook_extends [OF that] rows_extends [OF that, of d'] that
    by (auto simp: run_lost_hook_def hooks_ok_def split: option.split)
  let ?d1 = "\<lambda>b. add_log i (Worker_lost c b) d"
  have "extends w {} d (add_log i n (?d1 b))" "extends w {} d (run_lost_hook w h (?d1 b))" for n b h
    using extends_trans [OF log [OF assms(2)]] log [OF extends_wf [OF log [OF assms(2)]]]
      hook [OF extends_wf [OF log [OF assms(2)]]] by blast+
  then show ?thesis
    using rows_extends [OF assms(2), of d] log [OF assms(2)]
    by (cases c) (simp_all add: clean_up_lost_job_def Let_def split: option.split)
qed

lemma without_queue_extends:
  assumes "hooks_ok w" and "wf_db d"
  shows "extends w {jid j} d (close_lost_job_without_queue w j d)"
proof -
  let ?d1 = "write_jobs [jid j] (\<lambda>x. x\<lparr>state := Some Failed\<rparr>) d"
  have "calm w d ?d1" by (rule state_write_calm [OF assms(2)]) (simp_all add: job_running_def)
  then have e1: "extends w {jid j} d ?d1"
    using write_frame_rows [of "[jid j]" d] by (simp add: extends_def frame_def)
  let ?d2 = "create_job_failed_alert w j ?d1"
  have e2: "extends w {jid j} ?d1 ?d2" by (rule alert_extends(1) [OF extends_wf [OF e1]])
  let ?d3 = "broadcast (jid j) (Job_ended Failed) ?d2"
  have e3: "extends w {jid j} ?d2 ?d3"
    by (rule rows_extends [OF extends_wf [OF e2]]) (simp_all add: broadcast_def)
  have "extends w {jid j} ?d3 (on_state_changed w Failed [jid j] ?d3)"
    by (rule on_state_changed_extends [OF assms(1) extends_wf [OF e3]])
  then show ?thesis
    unfolding close_lost_job_without_queue_def Let_def
    using extends_trans [OF e1 extends_trans [OF e2 extends_trans [OF e3]]] by simp
qed

lemma close_calm:
  assumes "hooks_ok w" and "wf_db d"
  shows "calm w d (snd (close_lost_job w l i d))"
proof -
  have self: "calm w d d" by (rule rows_calm [OF assms(2)]) simp_all
  have gone: "calm w d (close_lost_job_without_queue w j d)" for j
    using without_queue_extends [OF assms(1,2)] by (simp add: extends_def)
  have "qv_state (closing_vals c) \<noteq> Queued" "qv_state (closing_vals c) \<notin> set running_states" for c
    by (cases c; simp add: closing_vals_def)+
  then have "calm w d (queue_write w (q_uuid q) (closing_vals c) s d)"
    if "lock_lost_job l d i = Some (j, Some q)" for j q c s
    using queue_write_calm [OF assms(1,2) lock_lost_job_rows(3) [OF assms(2) that], of "closing_vals c" s]
    by blast
  then show ?thesis
    using self gone by (auto simp: close_lost_job_def split: option.split prod.split)
qed

text \<open>The reconciliation starts nothing. Each of its three steps, whatever the
  rows hold and whoever holds them, keeps the state well formed and leaves no
  target with two entries running that had one.\<close>

theorem reconciliation_keeps_one_at_a_time:
  assumes "hooks_ok w" and "wf_db d" and "serial w d"
    and "d' \<in> {snd (claim_lost_job l st now i d), snd (clean_up_lost_job w i c r d), snd (close_lost_job w l i d)}"
  shows "wf_db d' \<and> serial w d'"
proof -
  have "calm w d d'"
    using assms(4) claim_calm [OF assms(2)] clean_up_extends [OF assms(1,2)] close_calm [OF assms(1,2)]
    by (auto simp: extends_def)
  then show ?thesis using calm_keeps [OF assms(2)] assms(3) by (simp add: keeps_def)
qed

theorem reconciliation_keeps_one_at_a_time_witness:
  "serial (core_world lost_db)
     (snd (close_lost_job (core_world lost_db) \<lparr>jobs_held = [], queue_jobs_held = []\<rparr> 1 lost_db))"
proof -
  have "wf_db lost_db" "serial (core_world lost_db) lost_db" by code_simp+
  then show ?thesis using reconciliation_keeps_one_at_a_time [OF core_hooks_ok] by blast
qed

section \<open>A chain whose step lost its queue.job\<close>


definition stranded_db :: db where
  "stranded_db = lost_db\<lparr>qjobs := filter (\<lambda>q. q_uuid q \<noteq> 1) (qjobs lost_db)\<rparr>"


end
