(* ===== verification/Panel_System.thy ===== *)
theory Panel_System
  imports Job_Reconcile
begin

text \<open>
  The queue as a whole: every transaction that touches jobs, one committed after
  another, as a step relation over the committed state, and what holds in every
  state such a history reaches. Each step has a world of its own (the executors
  registered, what others hold and have committed, the hooks); only the types
  of jobs that stay outside the queue are the same for all of them. What
  transactions see of one another while they overlap is not in this relation:
  inside a transaction it is the arguments \<open>foreign_locks\<close> and \<open>fresh\<close> of its
  world.
\<close>

section \<open>A cancellation starts nothing\<close>

lemma cancelled_write_calm:
  assumes "hooks_ok w" and "wf_db d" and "j \<in> set (jobs d)"
    and "queue_job_running d j \<Longrightarrow> job_running d j"
    and f: "\<And>x. jid (f x) = jid x" "\<And>x. instance_id (f x) = instance_id x"
      "\<And>x. queue_job_uuid (f x) = queue_job_uuid x" "\<And>x. queue_chain_key (f x) = queue_chain_key x"
      "\<And>x. job_type_id (f x) = job_type_id x" "\<And>x. host_id (f x) = host_id x"
  shows "calm w d (write_state w (jid j) Cancelled f d)"
proof -
  let ?d = "write_jobs [jid j] (\<lambda>x. (f x)\<lparr>state := Some Cancelled\<rparr>) d"
  have c: "calm w d ?d"
  proof (rule state_write_calm [OF assms(2)])
    fix x assume "x \<in> set (jobs d)" "jid x \<in> set [jid j]" "job_running d ((f x)\<lparr>state := Some Cancelled\<rparr>)"
    moreover from this have "x = j" using same_jid [OF wf_dbD(1) [OF assms(2)]] assms(3) by simp
    ultimately show "job_running d x" using assms(4) f(3) by (simp add: job_running_def queue_job_running_def)
  qed (simp_all add: f)
  have "extends w {} ?d (write_state w (jid j) Cancelled f d)"
    unfolding write_state_def by (rule on_state_changed_extends [OF assms(1) calm_wf [OF c]])
  then show ?thesis using calm_trans [OF c] by (simp add: extends_def)
qed

lemma cancel_job_calm:
  assumes "hooks_ok w" and "wf_db d" and "j \<in> set (jobs d)" and "cancel_job w a j d = Inr d'"
    and blocked: "blocked_alert_id j \<noteq> None \<Longrightarrow> queue_job_running d j \<Longrightarrow> job_running d j"
  shows "calm w d d'"
proof -
  let ?v = "\<lparr>qv_state = Cancelled, qv_result = Some (Some Other_result), qv_exc_name = None, qv_connection_lost = None\<rparr>"
  consider (waits) "blocked_alert_id j \<noteq> None"
        "d' = write_state w (jid j) Cancelled (\<lambda>x. x\<lparr>blocked_alert_id := None\<rparr>) d"
    | (queued) "d' = snd (cancel_queued w [jid j] (Cancelled_by (uid (who a))) None True d)"
    | (runs) "job_running d j" "d' = write_state w (jid j) Cancelled id d"
    | (unlinked) "d' = d"
    | (dispatched) u q where "queue_job_uuid j = Some u" "queue_job_of d j = Some q" "d' = queue_write w u ?v False d"
    using assms(4)
    by (fastforce simp: cancel_job_def Let_def job_running_def split: option.splits if_splits)
  then show ?thesis
  proof cases
    case waits
    show ?thesis
      unfolding waits(2)
      by (rule cancelled_write_calm [OF assms(1-3) blocked [OF waits(1)]]) simp_all
  next
    case queued
    obtain cs where "cancel_queued w [jid j] (Cancelled_by (uid (who a))) None True d = (cs, d')"
      using queued by (cases "cancel_queued w [jid j] (Cancelled_by (uid (who a))) None True d") simp
    then show ?thesis using cancel_queued_settles [OF assms(1,2)] settles_calm by blast
  next
    case runs
    show ?thesis
      unfolding runs(2) by (rule cancelled_write_calm [OF assms(1-3) runs(1)]) simp_all
  next
    case unlinked
    then show ?thesis using rows_calm [OF assms(2), of d] by simp
  next
    case dispatched
    have "linked d u j q" by (rule one_link_linked [OF assms(2,3) dispatched(1,2)])
    then show ?thesis unfolding dispatched(3) by (rule queue_write_calm [OF assms(1,2)]) simp_all
  qed
qed

section \<open>Histories\<close>

text \<open>\<open>H\<close> are the types of jobs outside the queue. A job a person asks for, a chain,
  a retry, a cancellation (of a job that waits for an alert only when nothing
  runs for it that its own row does not say), a state a runner stores, a pass of
  the dispatcher, the three steps of the reconciliation, the dismissal of
  alerts, and whatever else the panel does that leaves the rows of jobs alone.\<close>

inductive panel_step :: "string list \<Rightarrow> db \<Rightarrow> db \<Rightarrow> bool" for H where
  asks: "hooks_ok w \<Longrightarrow> hidden_job_types w = H \<Longrightarrow> enqueue w a host inst c p bypass d = Inr (i, d') \<Longrightarrow>
    panel_step H d d'"
| asks_chain: "hooks_ok w \<Longrightarrow> hidden_job_types w = H \<Longrightarrow> enqueue_chain w a steps bypass d = Inr (ids, d') \<Longrightarrow>
    panel_step H d d'"
| retries: "hooks_ok w \<Longrightarrow> hidden_job_types w = H \<Longrightarrow> retry_job w a j d = Inr (i, d') \<Longrightarrow> panel_step H d d'"
| cancels: "hooks_ok w \<Longrightarrow> hidden_job_types w = H \<Longrightarrow> j \<in> set (jobs d) \<Longrightarrow>
    (blocked_alert_id j \<noteq> None \<Longrightarrow> queue_job_running d j \<Longrightarrow> job_running d j) \<Longrightarrow>
    cancel_job w a j d = Inr d' \<Longrightarrow> panel_step H d d'"
| stores: "hooks_ok w \<Longrightarrow> hidden_job_types w = H \<Longrightarrow> linked d u j q \<Longrightarrow> qv_state v \<noteq> Queued \<Longrightarrow>
    (qv_state v \<in> set running_states \<Longrightarrow> job_running d j) \<Longrightarrow>
    panel_step H d (queue_write w u v stopped d)"
| serves: "hooks_ok w \<Longrightarrow> hidden_job_types w = H \<Longrightarrow> dispatch_next w s d = Inr (e, d') \<Longrightarrow> panel_step H d d'"
| takes_up: "panel_step H d (snd (claim_lost_job l st now i d))"
| cleans_up: "hooks_ok w \<Longrightarrow> hidden_job_types w = H \<Longrightarrow> panel_step H d (snd (clean_up_lost_job w i lc r d))"
| closes: "hooks_ok w \<Longrightarrow> hidden_job_types w = H \<Longrightarrow> panel_step H d (snd (close_lost_job w l i d))"
| dismisses: "panel_step H d (dismiss_alerts w ids d)"
| others: "jobs d' = jobs d \<Longrightarrow> qjobs d' = qjobs d \<Longrightarrow> next_job_id d' = next_job_id d \<Longrightarrow>
    next_uuid d \<le> next_uuid d' \<Longrightarrow> panel_step H d d'"

text \<open>A machine whose steps keep what holds at its start.\<close>

locale kept_by_steps =
  fixes step :: "'s \<Rightarrow> 's \<Rightarrow> bool" and inv :: "'s \<Rightarrow> bool"
  assumes step_keeps: "inv d \<Longrightarrow> step d d' \<Longrightarrow> inv d'"
begin

lemma run_keeps: "step\<^sup>*\<^sup>* d d' \<Longrightarrow> inv d \<Longrightarrow> inv d'"
  by (induction rule: rtranclp_induct) (auto intro: step_keeps)

end

lemma serial_cong: "hidden_job_types w = hidden_job_types w' \<Longrightarrow> serial w d = serial w' d"
  by (simp add: serial_def occupies_def visible_def)

definition plain_world :: "string list \<Rightarrow> world" where
  "plain_world H = (core_world empty_db)\<lparr>hidden_job_types := H\<rparr>"

definition orderly :: "string list \<Rightarrow> db \<Rightarrow> bool" where
  "orderly H d \<longleftrightarrow> wf_db d \<and> serial (plain_world H) d"

lemma orderly_serial: "orderly H d \<Longrightarrow> hidden_job_types w = H \<Longrightarrow> wf_db d \<and> serial w d"
  using serial_cong [of w "plain_world H"] by (simp add: orderly_def plain_world_def)

lemma keeps_orderly:
  assumes "orderly H d" and "hidden_job_types w = H" and "keeps w d d'"
  shows "orderly H d'"
  using assms serial_cong [of w "plain_world H"]
  by (simp add: orderly_def keeps_def plain_world_def)

lemma calm_orderly:
  assumes "orderly H d" and "hidden_job_types w = H" and "calm w d d'"
  shows "orderly H d'"
  by (rule keeps_orderly [OF assms(1,2) calm_keeps [OF _ assms(3)]]) (use assms(1) in \<open>simp add: orderly_def\<close>)

lemma plain_calm_orderly:
  assumes "orderly H d" and "\<And>w. wf_db d \<Longrightarrow> calm w d d'"
  shows "orderly H d'"
  by (rule calm_orderly [OF assms(1), of "plain_world H"])
    (use assms in \<open>simp_all add: orderly_def plain_world_def\<close>)

lemma panel_step_orderly:
  assumes "panel_step H d d'" and o: "orderly H d"
  shows "orderly H d'"
  using assms(1)
proof cases
  case (asks w a host inst c p bypass i)
  then show ?thesis using orderly_serial [OF o asks(2)] enqueue_keeps keeps_orderly [OF o] by blast
next
  case (asks_chain w a steps bypass ids)
  then show ?thesis using orderly_serial [OF o asks_chain(2)] enqueue_chain_keeps keeps_orderly [OF o] by blast
next
  case (retries w a j i)
  then show ?thesis using orderly_serial [OF o retries(2)] retry_keeps keeps_orderly [OF o] by blast
next
  case (cancels w j a)
  then show ?thesis using orderly_serial [OF o cancels(2)] cancel_job_calm calm_orderly [OF o] by blast
next
  case (stores w u j q v stopped)
  then show ?thesis using orderly_serial [OF o stores(3)] queue_write_calm calm_orderly [OF o] by blast
next
  case (serves w s e)
  then show ?thesis using orderly_serial [OF o serves(2)] dispatch_next_does_keep keeps_orderly [OF o] by blast
next
  case (takes_up l st now i)
  show ?thesis unfolding takes_up by (rule plain_calm_orderly [OF o claim_calm])
next
  case (cleans_up w i lc r)
  have "extends w {} d d'"
    unfolding cleans_up(1) using clean_up_extends [OF cleans_up(2)] orderly_serial [OF o cleans_up(3)] by blast
  then show ?thesis using calm_orderly [OF o cleans_up(3)] by (simp add: extends_def)
next
  case (closes w l i)
  then show ?thesis using orderly_serial [OF o closes(3)] close_calm calm_orderly [OF o] by blast
next
  case (dismisses w ids)
  show ?thesis unfolding dismisses by (rule plain_calm_orderly [OF o dismiss_calm])
next
  case others
  show ?thesis by (rule plain_calm_orderly [OF o rows_calm]) (use others in simp_all)
qed

interpretation panel: kept_by_steps "panel_step H" "orderly H"
  by unfold_locales (rule panel_step_orderly)

text \<open>C1. One entry at a time, always. In every state the panel reaches from an empty
  database, by any history of requests, chains, retries, cancellations, runners'
  stores, dispatches, reconciliations and dismissals, two jobs of the queue that
  run on one target are the same job or steps of the same chain.\<close>

theorem one_entry_runs_per_target:
  assumes "(panel_step H)\<^sup>*\<^sup>* empty_db d"
    and "x \<in> set (jobs d)" and "y \<in> set (jobs d)" and "scope_of x = scope_of y"
    and "job_type_id x \<notin> set H" and "job_type_id y \<notin> set H" and "H \<noteq> []"
    and "job_running d x" and "job_running d y"
  shows "jid x = jid y \<or> (queue_chain_key x \<noteq> None \<and> queue_chain_key x = queue_chain_key y)"
proof -
  let ?w = "plain_world H"
  have "orderly H empty_db" by (simp add: orderly_def wf_db_def wf_ids_def ids_positive_def one_link_def serial_def empty_db_def)
  then have o: "wf_db d" "serial ?w d" using panel.run_keeps [OF assms(1)] by (auto simp: orderly_def)
  have "in_scope (scope_of x) x" "in_scope (scope_of x) y"
    using in_own_scope [OF wf_dbD(7) [OF o(1) assms(2)]] in_own_scope [OF wf_dbD(7) [OF o(1) assms(3)]] assms(4)
    by simp_all
  then have "occupies ?w d x (scope_of x)" "occupies ?w d y (scope_of x)"
    using assms(2,3,5-9) by (auto simp: occupies_def visible_def plain_world_def)
  then have "key_of x = key_of y" by (rule serialD [OF o(2) wf_dbD(2) [OF o(1)]])
  then show ?thesis by (auto simp: key_of_def split: option.splits)
qed

text \<open>A shop with nothing queued, and a backup and a restore of it asked for as one
  chain.\<close>

definition quiet_db :: db where
  "quiet_db = empty_db\<lparr>
     instances := (\<lambda>i. if i = 7 then Some live_instance else None), types := (\<lambda>c. Some (blank_type c))\<rparr>"

definition backup_and_restore :: "chain_step list" where
  "backup_and_restore =
     [\<lparr>st_host = 1, st_instance = Some 7, st_code = ''backup_create'', st_payload = None\<rparr>,
      \<lparr>st_host = 1, st_instance = Some 7, st_code = ''restore_instance'', st_payload = None\<rparr>]"

theorem one_entry_runs_per_target_witness:
  "\<exists>ids d. enqueue_chain (core_world quiet_db) manager backup_and_restore False quiet_db = Inr (ids, d) \<and>
     jid (jobs d ! 0) \<noteq> jid (jobs d ! 1) \<and> job_running d (jobs d ! 0) \<and> job_running d (jobs d ! 1) \<and>
     queue_chain_key (jobs d ! 0) = queue_chain_key (jobs d ! 1)"
proof -
  let ?w = "core_world quiet_db" and ?H = core_hidden_job_types
  let ?r = "enqueue_chain ?w manager backup_and_restore False quiet_db"
  have "(case ?r of Inl _ \<Rightarrow> False | Inr (ids, d) \<Rightarrow>
      jobs d ! 0 \<in> set (jobs d) \<and> jobs d ! 1 \<in> set (jobs d) \<and> scope_of (jobs d ! 0) = scope_of (jobs d ! 1) \<and>
      job_type_id (jobs d ! 0) \<notin> set ?H \<and> job_type_id (jobs d ! 1) \<notin> set ?H \<and> ?H \<noteq> [] \<and>
      job_running d (jobs d ! 0) \<and> job_running d (jobs d ! 1) \<and> jid (jobs d ! 0) \<noteq> jid (jobs d ! 1))"
    by code_simp
  then obtain ids d where d: "?r = Inr (ids, d)"
    "jobs d ! 0 \<in> set (jobs d)" "jobs d ! 1 \<in> set (jobs d)" "scope_of (jobs d ! 0) = scope_of (jobs d ! 1)"
    "job_type_id (jobs d ! 0) \<notin> set ?H" "job_type_id (jobs d ! 1) \<notin> set ?H" "?H \<noteq> []"
    "job_running d (jobs d ! 0)" "job_running d (jobs d ! 1)" "jid (jobs d ! 0) \<noteq> jid (jobs d ! 1)"
    by (auto split: sum.splits)
  have "panel_step ?H empty_db quiet_db" by (rule others) (simp_all add: quiet_db_def)
  moreover have "panel_step ?H quiet_db d"
    by (rule asks_chain [OF core_hooks_ok _ d(1)]) (simp add: core_world_def)
  ultimately have "(panel_step ?H)\<^sup>*\<^sup>* empty_db d" by (rule converse_rtranclp_into_rtranclp [OF _ r_into_rtranclp])
  then show ?thesis using one_entry_runs_per_target [OF _ d(2-9)] d by blast
qed

end
