(* ===== verification/Instance_View.thy ===== *)
theory Instance_View
  imports Panel_System
begin

text \<open>
  What the queue leaves alone. The operations of the queue and of the alerts write
  an instance only to forget the frozen copy of a move; everything else of it changes
  through hooks. The locale states this once for any reading of the instances that
  does not see frozen copies, and gives each operation's law.
\<close>

definition seen :: "((nat \<rightharpoonup> instance_rec) \<Rightarrow> 'v) \<Rightarrow> db \<Rightarrow> 'v" where
  "seen v d = v (instances d)"

definition hooks_blind :: "((nat \<rightharpoonup> instance_rec) \<Rightarrow> 'v) \<Rightarrow> world \<Rightarrow> bool" where
  "hooks_blind v w \<longleftrightarrow> (\<forall>h d d'. hooks w h d = Some d' \<longrightarrow> seen v d' = seen v d)"

locale instance_view =
  fixes v :: "(nat \<rightharpoonup> instance_rec) \<Rightarrow> 'v"
  assumes blind_to_frozen: "m i = Some r \<Longrightarrow> v (m(i \<mapsto> r\<lparr>i_move_frozen_source_host_id := None\<rparr>)) = v m"
begin

lemma blindD: "hooks_blind v w \<Longrightarrow> hooks w h d = Some d' \<Longrightarrow> seen v d' = seen v d"
  by (auto simp: hooks_blind_def)

lemma seen_rows: "same_rows d d' \<Longrightarrow> seen v d' = seen v d"
  by (simp add: same_rows_def seen_def)

lemma seen_plain [simp]:
  "seen v (lock_scopes ss d) = seen v d" "seen v (add_log i n d) = seen v d" "seen v (broadcast i b d) = seen v d"
  "seen v (schedule_dispatch ss d) = seen v d" "seen v (write_jobs ids f d) = seen v d"
  "seen v (add_audit c x h1 k1 d) = seen v d" "seen v (snd (raise_alert c cr h x kj y d)) = seen v d"
  "seen v (dismiss_alerts w ids d) = seen v d" "seen v (resolve_alert w c h x y d) = seen v d"
  "seen v (hand_over i q s d) = seen v d" "seen v (block_on i al d) = seen v d"
  "seen v (d\<lparr>jobs := js, next_job_id := m\<rparr>) = seen v d" "seen v (d\<lparr>next_uuid := m\<rparr>) = seen v d"
  "seen v (dispatch_single w i d) = seen v d" "seen v (follow_instance w i d) = seen v d"
  by (auto simp: seen_def lock_scopes_def add_log_def broadcast_def schedule_dispatch_def write_jobs_def
      add_audit_def raise_alert_def dismiss_alerts_def on_holding_alert_closed_def resolve_alert_def
      hand_over_def block_on_def dispatch_single_def follow_instance_def Let_def split: option.splits)

lemma seen_raise: "raise_alert c cr h x k y d = (i, d') \<Longrightarrow> seen v d' = seen v d"
  using seen_plain(7) [of c cr h x k y d] by simp

lemma seen_forget: "instances d i = Some r \<Longrightarrow> seen v (forget_frozen_copy i h r d) = seen v d"
  using blind_to_frozen by (simp add: seen_def forget_frozen_copy_def add_audit_def)

lemma seen_hand_over_steps [simp]: "seen v (hand_over_steps g s is d) = seen v d"
  by (induction g s "is" d rule: hand_over_steps.induct) (auto split: option.splits)

lemma seen_resolve_chain_refs: "resolve_chain_refs ids is d = Inr d' \<Longrightarrow> seen v d' = seen v d"
  by (induction ids "is" d rule: resolve_chain_refs.induct) (auto split: option.splits sum.splits)

lemma seen_dispatch_entry: "dispatch_entry w e d = Inr d' \<Longrightarrow> seen v d' = seen v d"
  by (auto simp: dispatch_entry_def dispatch_chain_def map_sum_def split: if_splits sum.splits
      dest!: seen_resolve_chain_refs)

lemma seen_cancelled_hook:
  assumes "hooks_blind v w"
  shows "seen v (run_cancelled_queued_hook w i d) = seen v d" "seen v (run_after_terminal w s i d) = seen v d"
    "seen v (let_go w i d) = seen v d"
  using blindD [OF assms]
  by (auto simp: run_cancelled_queued_hook_def run_after_terminal_def let_go_def split: option.splits)

lemma seen_fold: "(\<And>i d. seen v (f i d) = seen v d) \<Longrightarrow> seen v (fold f is d) = seen v d"
  by (induction "is" arbitrary: d) auto

lemma seen_cancel_queued:
  assumes "hooks_blind v w"
  shows "seen v (snd (cancel_queued w ids n skip lock d)) = seen v d"
proof -
  have "seen v (cancel_one w n i d) = seen v d" for i d
    by (simp add: cancel_one_def seen_cancelled_hook [OF assms])
  then show ?thesis by (auto simp: cancel_queued_def Let_def seen_fold)
qed

lemma seen_on_state_changed:
  assumes "hooks_blind v w"
  shows "seen v (on_state_changed w s ids d) = seen v d"
proof -
  have "seen v (fst (fold (act_on_end w s) ids x)) = seen v (fst x)" for x
  proof (induction ids arbitrary: x)
    case (Cons i "is")
    have "seen v (fst (act_on_end w s i x)) = seen v (fst x)"
      by (auto simp: act_on_end_def Let_def seen_cancelled_hook [OF assms] split: prod.splits option.splits)
    then show ?case using Cons by simp
  qed simp
  from this [of "(d, [])"] show ?thesis by (auto simp: on_state_changed_def split: prod.splits)
qed

lemma seen_entry_verdict:
  assumes "hooks_blind v w"
  shows "entry_verdict w e s d = (x, d') \<Longrightarrow> seen v d' = seen v d"
  by (auto simp: entry_verdict_def Let_def seen_cancel_queued [OF assms] dest!: try_locks_rows seen_rows
      split: prod.splits bool.splits if_splits)

lemma seen_dispatch_loop:
  assumes "hooks_blind v w"
  shows "dispatch_loop w s holding es d = Inr (e, d') \<Longrightarrow> seen v d' = seen v d"
proof (induction es arbitrary: d)
  case (Cons x xs)
  show ?case
  proof (cases "holding \<noteq> [] \<and> \<not> (case records d x of [] \<Rightarrow> False | j # _ \<Rightarrow> passes_hold w d j holding)")
    case True
    then show ?thesis using Cons by simp
  next
    case False
    obtain y d1 where y: "entry_verdict w x s d = (y, d1)" by fastforce
    have "seen v d1 = seen v d" by (rule seen_entry_verdict [OF assms y])
    then show ?thesis
      using Cons False y
      by (auto simp: map_sum_def split: verdict.splits sum.splits dest!: seen_dispatch_entry)
  qed
qed simp

lemma seen_dispatch_next:
  "hooks_blind v w \<Longrightarrow> dispatch_next w s d = Inr (e, d') \<Longrightarrow> seen v d' = seen v d"
  using seen_dispatch_loop [of w s _ _ "lock_scopes [s] d"]
  by (fastforce simp: dispatch_next_def Let_def split: if_splits)

lemma seen_serve:
  "hooks_blind v w \<Longrightarrow> serve_now_or_later w ss ids d = Inr d' \<Longrightarrow> seen v d' = seen v d"
  by (auto simp: serve_now_or_later_def map_sum_def split: sum.splits if_splits dest: seen_dispatch_next)

lemma seen_conflict_gate: "conflict_gate w a x i d = Inr (b, d') \<Longrightarrow> seen v d' = seen v d"
  by (auto simp: conflict_gate_def Let_def split: if_splits prod.splits list.splits dest!: seen_raise)

lemma seen_create_queued: "create_queued a vals d = Inr (i, d') \<Longrightarrow> seen v d' = seen v d"
  by (auto simp: create_queued_def Let_def split: if_splits)

lemma seen_queue_new:
  assumes "hooks_blind v w" and "queue_new w a host inst c p head d = Inr (i, d')"
  shows "seen v d' = seen v d"
  using assms(2)
  by (fastforce simp: queue_new_def Let_def map_sum_def split: sum.splits prod.splits if_splits bool.splits
      dest!: seen_create_queued seen_conflict_gate seen_serve [OF assms(1)])

lemma seen_admit:
  assumes "hooks_blind v w" and "admit_and_queue w a host inst c t p head d = Inr (i, d')"
  shows "seen v d' = seen v d"
proof -
  have "check_queue_admission w d t s p head = Inr (x, d1) \<Longrightarrow> seen v d1 = seen v d" for s x d1
    by (auto simp: check_queue_admission_def split: option.splits sum.splits prod.splits)
  then show ?thesis
    using assms(2)
    by (fastforce simp: admit_and_queue_def split: sum.splits prod.splits option.splits
        dest!: seen_queue_new [OF assms(1)])
qed

lemma seen_enqueue_plain:
  assumes "hooks_blind v w" and "enqueue_plain w a host inst c p bypass d = Inr (i, d')"
  shows "seen v d' = seen v d"
  using assms(2)
  by (auto simp: enqueue_plain_def split: sum.splits if_splits
      dest: seen_queue_new [OF assms(1)] seen_admit [OF assms(1)])

lemma seen_frozen_cleanup:
  assumes "hooks_blind v w" and "enqueue_frozen_cleanup w a i d = Inr d'"
  shows "seen v d' = seen v d"
  using assms(2)
  by (auto simp: enqueue_frozen_cleanup_def map_sum_def seen_forget split: option.splits if_splits sum.splits
      dest: seen_enqueue_plain [OF assms(1)])

lemma seen_enqueue:
  assumes "hooks_blind v w" and "enqueue w a host inst c p bypass d = Inr (i, d')"
  shows "seen v d' = seen v d"
  using assms(2)
  by (auto simp: enqueue_def Let_def seen_cancel_queued [OF assms(1)] split: if_splits sum.splits
      dest!: seen_enqueue_plain [OF assms(1)] seen_admit [OF assms(1)] seen_frozen_cleanup [OF assms(1)])

lemma seen_retry: "retry_job w a j d = Inr (i, d') \<Longrightarrow> seen v d' = seen v d"
  by (auto simp: retry_job_def Let_def split: if_splits sum.splits dest!: seen_create_queued)

lemma seen_unblock:
  assumes "hooks_blind v w" and "unblock_and_enqueue w a j d = Inr d'"
  shows "seen v d' = seen v d"
  using assms(2) seen_fold [of "run_after_terminal w Cancelled", OF seen_cancelled_hook(2) [OF assms(1)]]
  by (auto simp: unblock_and_enqueue_def Let_def split: if_splits sum.splits option.splits
      dest!: blindD [OF assms(1)])

end

end
