(* ===== verification/Instance_Life.thy ===== *)
theory Instance_Life
  imports Instance_View
begin

text \<open>
  The life of an instance (\<^verbatim>\<open>models/cloud_instance.py\<close>): the transition map and the
  guards of \<^verbatim>\<open>write\<close>, \<^verbatim>\<open>deploy\<close>, the removal and \<^verbatim>\<open>unlink\<close>, and what the executors of
  a deploy and of a teardown do to it when their job waits, is cancelled, runs and
  ends (\<^verbatim>\<open>models/deploy_instance_executor.py\<close>, \<^verbatim>\<open>models/delete_instance_executor.py\<close>).
  What the steps of a run do on the host is not in it, nor what a look at GitHub for
  addon conflicts finds: the first is a ghost of the histories below, the second an
  argument. The names, domains and secrets of an instance are left out.
\<close>

section \<open>The transition map\<close>

fun STATE_TRANSITIONS :: "life_state \<Rightarrow> life_state list" where
  "STATE_TRANSITIONS Draft = [Deploying, Deployed]"
| "STATE_TRANSITIONS Deploying = [Deployed, Draft]"
| "STATE_TRANSITIONS Deployed = [Deleting]"
| "STATE_TRANSITIONS Deleting = [Draft, Deployed]"

definition ON_HOST_STATES :: "life_state list" where
  "ON_HOST_STATES = [Deployed, Deleting]"

datatype life_error =
    Not_there
  | Illegal_move life_state life_state
  | State_not_by_transition
  | Deployed_is_derived
  | Platform_fields
  | Environment_fixed
  | Born_past_draft
  | Name_held
  | Backend_by_developer
  | Manager_fields
  | Host_past_draft nat
  | Instance_role access_error
  | No_host
  | Already_deployed
  | No_backup_backend
  | Deploy_waits_for_alert nat
  | Still_deployed
  | Job_in_flight life_state
  | Queue_refused queue_error

definition compute_deployed :: "life_state \<Rightarrow> bool" where
  "compute_deployed s \<longleftrightarrow> s \<in> set ON_HOST_STATES"

definition write_inst :: "nat \<Rightarrow> (instance_rec \<Rightarrow> instance_rec) \<Rightarrow> db \<Rightarrow> db" where
  "write_inst i f d = d\<lparr>instances := (instances d)(i := map_option f (instances d i))\<rparr>"

definition life_of :: "nat \<Rightarrow> db \<Rightarrow> life_state option" where
  "life_of i d = map_option i_state (instances d i)"

definition transition :: "nat \<Rightarrow> life_state \<Rightarrow> db \<Rightarrow> (life_error, db) result" where
  "transition i s d =
     (case instances d i of
        None \<Rightarrow> Inl Not_there
      | Some r \<Rightarrow>
          if s \<notin> set (STATE_TRANSITIONS (i_state r)) then Inl (Illegal_move (i_state r) s)
          else Inr (write_inst i (\<lambda>r. r\<lparr>i_state := s, i_deployed := compute_deployed s\<rparr>) d))"

section \<open>What a write may set\<close>

text \<open>The values are the keyword arguments of \<^verbatim>\<open>create\<close> and \<^verbatim>\<open>write\<close>; \<open>self\<close> are the
  instances written, none of them for a creation.\<close>

definition PLATFORM_FIELDS :: "string list" where
  "PLATFORM_FIELDS =
     [''move_origin_host_id'', ''move_target_host_id'', ''move_chain_job_ids'',
      ''move_rollback_in_progress'', ''move_frozen_source_host_id'',
      ''move_frozen_until'', ''move_cut_started_at'', ''move_last_cut_seconds'',
      ''pr_number'', ''pr_repo'', ''pr_head_branch'', ''pr_comment_id'',
      ''removal_finalized'']"

definition PLATFORM_STAMPS :: "string list" where
  "PLATFORM_STAMPS = [''archived_at'', ''purge_cutoff_at'']"

definition MANAGER_FIELDS :: "string list" where
  "MANAGER_FIELDS = [''custom_remote_dir'', ''custom_backup_dst'']"

definition has_key :: "dict \<Rightarrow> string \<Rightarrow> bool" where
  "has_key vals k \<longleftrightarrow> lit k \<in> fst ` set vals"

fun environment_name :: "environment \<Rightarrow> string" where
  "environment_name Production = ''production''"
| "environment_name Staging = ''staging''"
| "environment_name Runbot = ''runbot''"

text \<open>An id, or \<^verbatim>\<open>False\<close> for none.\<close>

definition id_or_false :: "nat option \<Rightarrow> json" where
  "id_or_false x = (case x of None \<Rightarrow> JBool False | Some n \<Rightarrow> JInt (int n))"

definition or_false :: "json \<Rightarrow> json" where
  "or_false v = (if truthy v then v else JBool False)"

definition written :: "nat list \<Rightarrow> db \<Rightarrow> instance_rec list" where
  "written self d = List.map_filter (instances d) self"

definition check_guarded_vals ::
  "actor \<Rightarrow> (instance_rec \<Rightarrow> nat option) \<Rightarrow> nat list \<Rightarrow> dict \<Rightarrow> db \<Rightarrow> (life_error, unit) result" where
  "check_guarded_vals a backend self vals d =
     (if is_su a then Inr ()
      else if list_ex (has_key vals) PLATFORM_FIELDS \<or> list_ex (\<lambda>k. truthy (dget vals k)) PLATFORM_STAMPS
      then Inl Platform_fields
      else if has_key vals ''environment'' \<and>
              (\<exists>r \<in> set (written self d). JStr (lit (environment_name (i_environment r))) \<noteq> dget vals ''environment'')
      then Inl Environment_fixed
      else if has_cloud_group (who a) Group_cloud_manager then Inr ()
      else if self = [] \<and> has_key vals ''state'' \<and> dget vals ''state'' \<noteq> JStr (lit ''draft'')
      then Inl Born_past_draft
      else if has_key vals ''backup_backend_id'' \<and> \<not> has_cloud_group (who a) Group_cloud_developer \<and>
              ((\<exists>r \<in> set (written self d). id_or_false (backend r) \<noteq> or_false (dget vals ''backup_backend_id'')) \<or>
               (self = [] \<and> truthy (dget vals ''backup_backend_id'')))
      then Inl Backend_by_developer
      else if list_ex (has_key vals) MANAGER_FIELDS then Inl Manager_fields
      else if has_key vals ''host_id'' then
        (case find (\<lambda>i. case instances d i of
                          None \<Rightarrow> False
                        | Some r \<Rightarrow> i_state r \<noteq> Draft \<and> id_or_false (i_host_id r) \<noteq> or_false (dget vals ''host_id''))
              self of
           None \<Rightarrow> Inr ()
         | Some i \<Rightarrow> Inl (Host_past_draft i))
      else Inr ())"

text \<open>\<^verbatim>\<open>write\<close>: what it refuses, in its order. \<open>by_transition\<close> is the context
  \<^verbatim>\<open>_transition\<close> sets, \<open>store\<close> what the values do to a row.\<close>

fun check_archiving :: "world \<Rightarrow> actor \<Rightarrow> db \<Rightarrow> nat list \<Rightarrow> (life_error, unit) result" where
  "check_archiving w a d [] = Inr ()"
| "check_archiving w a d (i # is) =
     (if \<not> (case instances d i of None \<Rightarrow> False | Some r \<Rightarrow> i_active r) then check_archiving w a d is
      else case check_may_end_waiting w a d
                  (filter (\<lambda>j. \<not> runs_on_archived w j) (queued_on d (Some i, None))) of
             Inl e \<Rightarrow> Inl (Queue_refused e)
           | Inr _ \<Rightarrow> check_archiving w a d is)"

definition write_instances ::
  "world \<Rightarrow> actor \<Rightarrow> (instance_rec \<Rightarrow> nat option) \<Rightarrow> bool \<Rightarrow> nat list \<Rightarrow> dict \<Rightarrow>
     (instance_rec \<Rightarrow> instance_rec) \<Rightarrow> db \<Rightarrow> (life_error, db) result" where
  "write_instances w a backend by_transition self vals store d =
     (case check_guarded_vals a backend self vals d of Inl e \<Rightarrow> Inl e | Inr _ \<Rightarrow>
      if has_key vals ''state'' \<and> \<not> by_transition then Inl State_not_by_transition
      else if has_key vals ''deployed'' then Inl Deployed_is_derived
      else case (if has_key vals ''active'' \<and> \<not> truthy (dget vals ''active'') \<and> \<not> is_su a
                 then check_archiving w a d self else Inr ()) of
             Inl e \<Rightarrow> Inl e
           | Inr _ \<Rightarrow> Inr (fold (\<lambda>i. write_inst i store) self d))"


text \<open>\<^verbatim>\<open>create\<close>, of one instance: \<open>row\<close> is the row its values make, \<open>clash\<close> whether an
  archived instance of the project holds its name. Being born counts as activity.\<close>

definition create_instance ::
  "actor \<Rightarrow> (instance_rec \<Rightarrow> nat option) \<Rightarrow> dict \<Rightarrow> instance_rec \<Rightarrow> bool \<Rightarrow> nat \<Rightarrow> int \<Rightarrow> db \<Rightarrow> (life_error, db) result" where
  "create_instance a backend vals row clash i now d =
     (case check_can_create_instance (who a) of Inl e \<Rightarrow> Inl (Instance_role e) | Inr _ \<Rightarrow>
     (case check_guarded_vals a backend [] vals d of Inl e \<Rightarrow> Inl e | Inr _ \<Rightarrow>
      if has_key vals ''deployed'' then Inl Deployed_is_derived
      else if clash then Inl Name_held
      else
        let r = row\<lparr>i_deployed := compute_deployed (i_state row),
                    i_last_touched_at := (if has_key vals ''last_touched_at'' then i_last_touched_at row else Some now),
                    i_autopurge_warned_at := None, i_autopurge_final_warned_at := None\<rparr>
        in Inr (add_audit ''Instance created'' (Some i) (case i_host_id r of None \<Rightarrow> 0 | Some h \<Rightarrow> h) 0
                 (d\<lparr>instances := (instances d)(i \<mapsto> r)\<rparr>))))"

section \<open>\<^verbatim>\<open>deploy\<close>\<close>

text \<open>The newest job that meets a condition.\<close>

definition newest_job :: "(cloud_job \<Rightarrow> bool) \<Rightarrow> db \<Rightarrow> cloud_job option" where
  "newest_job P d = find P (rev (sort_key jid (jobs d)))"

definition is_deploy_of :: "nat \<Rightarrow> cloud_job \<Rightarrow> bool" where
  "is_deploy_of i j \<longleftrightarrow> instance_id j = Some i \<and> job_type_id j = ''deploy_instance''"

definition alert_open :: "nat option \<Rightarrow> db \<Rightarrow> alert option" where
  "alert_open x d = (case Option.bind x (browse_row a_id (alerts d)) of
     None \<Rightarrow> None | Some al \<Rightarrow> if a_active al then Some al else None)"

definition failed_deploy_to_retry :: "world \<Rightarrow> nat \<Rightarrow> instance_rec \<Rightarrow> db \<Rightarrow> cloud_job option" where
  "failed_deploy_to_retry w i r d =
     (case newest_job (is_deploy_of i) d of
        None \<Rightarrow> None
      | Some latest \<Rightarrow>
          if state latest \<noteq> Some Failed then None
          else if i_pip_conflicts r \<or>
                  (\<exists>x \<in> set (alerts d). a_instance_id x = Some i \<and> a_active x \<and>
                                         a_code x \<in> {''addon_conflict'', ''pip_conflict''})
          then None
          else let on_last = filter (\<lambda>x. a_job_id x = Some (jid latest))
                               (queue_holding_alerts w d (scope_of_step (Some i) (i_host_id r)))
               in if a_code ` set on_last = {''job_failed''} then Some latest else None)"

text \<open>What is done with a deploy that waits for an alert. \<open>recheck\<close> is
  \<^verbatim>\<open>_check_addon_conflicts\<close>, which looks at GitHub.\<close>

definition release_waiting_deploy ::
  "world \<Rightarrow> actor \<Rightarrow> (db \<Rightarrow> db) \<Rightarrow> cloud_job \<Rightarrow> db \<Rightarrow> (life_error, nat \<times> db) result" where
  "release_waiting_deploy w a recheck j d =
     (let looks = (case alert_open (blocked_alert_id j) d of
                     None \<Rightarrow> False | Some al \<Rightarrow> a_code al = ''addon_conflict'');
          d1 = (if looks then recheck d else d);
          now = (case job_of d1 (jid j) of None \<Rightarrow> j | Some x \<Rightarrow> x)
      in if looks \<and> blocked_alert_id now = None then Inr (jid j, d1)
         else case alert_open (blocked_alert_id now) d1 of
                Some al \<Rightarrow> Inl (Deploy_waits_for_alert (a_id al))
              | None \<Rightarrow>
                  (case unblock_and_enqueue w a now d1 of
                     Inl e \<Rightarrow> Inl (Queue_refused e)
                   | Inr d2 \<Rightarrow> Inr (jid j, d2)))"

definition retry_failed_deploy ::
  "world \<Rightarrow> actor \<Rightarrow> nat \<Rightarrow> cloud_job \<Rightarrow> db \<Rightarrow> (life_error, nat \<times> db) result" where
  "retry_failed_deploy w a i failed d =
     (case transition i Deploying d of Inl e \<Rightarrow> Inl e | Inr d1 \<Rightarrow>
     (case retry_job w a failed d1 of Inl e \<Rightarrow> Inl (Queue_refused e) | Inr (j, d2) \<Rightarrow>
        Inr (j, add_audit (job_type_id failed) (Some i) (host_id failed) j d2)))"

definition queue_new_deploy ::
  "world \<Rightarrow> actor \<Rightarrow> nat \<Rightarrow> nat \<Rightarrow> db \<Rightarrow> (life_error, nat \<times> db) result" where
  "queue_new_deploy w a host i d =
     (case transition i Deploying d of Inl e \<Rightarrow> Inl e | Inr d1 \<Rightarrow>
     (case enqueue w a host (Some i) ''deploy_instance'' None False d1 of
        Inl e \<Rightarrow> Inl (Queue_refused e)
      | Inr (j, d2) \<Rightarrow>
          if (case job_of d2 j of None \<Rightarrow> False | Some x \<Rightarrow> blocked_alert_id x \<noteq> None)
          then map_sum id (Pair j) (transition i Draft d2)
          else Inr (j, d2)))"

text \<open>\<open>backend\<close>: the instance has a backup backend in effect.\<close>

definition deploy ::
  "world \<Rightarrow> actor \<Rightarrow> (db \<Rightarrow> db) \<Rightarrow> bool \<Rightarrow> nat \<Rightarrow> db \<Rightarrow> (life_error, nat \<times> db) result" where
  "deploy w a recheck backend i d =
     (case instances d i of None \<Rightarrow> Inl Not_there | Some r \<Rightarrow>
     (case i_host_id r of None \<Rightarrow> Inl No_host | Some host \<Rightarrow>
      if i_deployed r then Inl Already_deployed
      else if i_environment r = Production \<and> \<not> backend then Inl No_backup_backend
      else case newest_job (\<lambda>j. is_deploy_of i j \<and> blocked_alert_id j \<noteq> None \<and>
                                 (is_su a \<or> reads_job a (jid j))) d of
             Some waiting \<Rightarrow> release_waiting_deploy w a recheck waiting d
           | None \<Rightarrow>
               (case failed_deploy_to_retry w i r d of
                  Some failed \<Rightarrow> retry_failed_deploy w a i failed d
                | None \<Rightarrow> queue_new_deploy w a host i d)))"

section \<open>The executor of a deploy\<close>

text \<open>A move that is made only from the state it starts from.\<close>

definition move_from :: "life_state \<Rightarrow> life_state \<Rightarrow> nat \<Rightarrow> db \<Rightarrow> (life_error, db) result" where
  "move_from s t i d =
     (case instances d i of None \<Rightarrow> Inr d | Some r \<Rightarrow> if i_state r = s then transition i t d else Inr d)"

definition deploy_on_blocked :: "nat \<Rightarrow> db \<Rightarrow> (life_error, db) result" where
  "deploy_on_blocked = move_from Deploying Draft"

definition deploy_on_unblocked :: "nat \<Rightarrow> db \<Rightarrow> (life_error, db) result" where
  "deploy_on_unblocked = move_from Draft Deploying"

definition deploy_on_cancelled_queued :: "nat \<Rightarrow> db \<Rightarrow> (life_error, db) result" where
  "deploy_on_cancelled_queued = move_from Deploying Draft"

definition deploy_on_never_run :: "nat \<Rightarrow> db \<Rightarrow> (life_error, db) result" where
  "deploy_on_never_run = deploy_on_cancelled_queued"

definition dismiss_pip_conflict_alerts :: "world \<Rightarrow> nat \<Rightarrow> db \<Rightarrow> db" where
  "dismiss_pip_conflict_alerts w i d =
     dismiss_alerts w (map a_id (filter (\<lambda>x. a_instance_id x = Some i \<and> a_code x = ''pip_conflict'' \<and> a_active x)
                                   (alerts d))) d"

definition cancel_stale_waits :: "world \<Rightarrow> nat \<Rightarrow> nat \<Rightarrow> db \<Rightarrow> db" where
  "cancel_stale_waits w i me d =
     (let stale = map jid (filter (\<lambda>j. instance_id j = Some i \<and> blocked_alert_id j \<noteq> None \<and>
                                        alert_open (blocked_alert_id j) d = None \<and> jid j \<noteq> me) (jobs d))
      in on_state_changed w Cancelled stale
           (write_jobs stale (\<lambda>j. j\<lparr>state := Some Cancelled, blocked_alert_id := None\<rparr>) d))"

definition deploy_on_success :: "world \<Rightarrow> nat \<Rightarrow> nat \<Rightarrow> db \<Rightarrow> (life_error, db) result" where
  "deploy_on_success w me i d =
     (let d1 = write_inst i (\<lambda>r. r\<lparr>i_status_ok := True, i_running := True\<rparr>)
                 (cancel_stale_waits w i me
                   (resolve_alert w ''addon_conflict'' None (Some i) None (dismiss_pip_conflict_alerts w i d)))
      in case instances d1 i of
           None \<Rightarrow> Inl Not_there
         | Some r \<Rightarrow> if i_move_origin_host_id r = None then transition i Deployed d1 else Inr d1)"

text \<open>\<open>addon_error\<close>: the log of the failed run names an addon two repositories define;
  \<open>stopped\<close>: a person stopped it, and no alert is raised.\<close>

definition deploy_on_failure :: "bool \<Rightarrow> bool \<Rightarrow> nat \<Rightarrow> nat \<Rightarrow> db \<Rightarrow> (life_error, db) result" where
  "deploy_on_failure stopped addon_error me i d =
     (let d1 = (case instances d i of
                  None \<Rightarrow> d
                | Some r \<Rightarrow> if i_pip_conflicts r \<and> \<not> stopped then snd (raise_alert ''pip_conflict'' False None (Some i) None None d) else d);
          d2 = (if addon_error \<and> \<not> stopped then snd (raise_alert ''addon_conflict'' True None (Some i) (Some me) None d1) else d1)
      in move_from Deploying Draft i (write_inst i (\<lambda>r. r\<lparr>i_status_ok := False\<rparr>) d2))"

section \<open>Removal\<close>

definition resolve_instance_alerts :: "world \<Rightarrow> nat \<Rightarrow> db \<Rightarrow> db" where
  "resolve_instance_alerts w i d =
     (let open_ids = map a_id (filter (\<lambda>x. a_active x \<and> a_instance_id x = Some i) (alerts d))
      in if open_ids = [] then d else dismiss_alerts w open_ids d)"

text \<open>The row goes, its alerts with it, and jobs and audit rows forget it.\<close>

definition drop_rows :: "nat list \<Rightarrow> db \<Rightarrow> db" where
  "drop_rows ids d =
     (let gone = map a_id (filter (\<lambda>x. \<exists>i \<in> set ids. a_instance_id x = Some i) (alerts d))
      in d\<lparr>instances := (\<lambda>i. if i \<in> set ids then None else instances d i),
           alerts := filter (\<lambda>x. a_id x \<notin> set gone) (alerts d),
           jobs := map (\<lambda>j. j\<lparr>instance_id := (if \<exists>i \<in> set ids. instance_id j = Some i then None else instance_id j),
                              blocked_alert_id := (if \<exists>x \<in> set gone. blocked_alert_id j = Some x then None
                                                   else blocked_alert_id j)\<rparr>) (jobs d),
           audit_log := map (\<lambda>x. x\<lparr>au_instance_id := (if \<exists>i \<in> set ids. au_instance_id x = Some i then None
                                                        else au_instance_id x)\<rparr>) (audit_log d)\<rparr>)"

definition waits_on :: "nat list \<Rightarrow> db \<Rightarrow> cloud_job list" where
  "waits_on ids d = filter (\<lambda>j. (\<exists>i \<in> set ids. instance_id j = Some i) \<and> state j = Some Queued) (jobs d)"

fun unlink_checks :: "world \<Rightarrow> actor \<Rightarrow> nat list \<Rightarrow> db \<Rightarrow> (life_error, db) result" where
  "unlink_checks w a [] d = Inr d"
| "unlink_checks w a (i # is) d =
     (case instances d i of None \<Rightarrow> Inl Not_there | Some r \<Rightarrow>
     (case check_can_delete_instance (who a) (i_environment r) of Inl e \<Rightarrow> Inl (Instance_role e) | Inr _ \<Rightarrow>
      if i_state r = Deployed then Inl Still_deployed
      else if i_state r \<noteq> Draft then Inl (Job_in_flight (i_state r))
      else case check_may_end_waiting w a d (waits_on [i] d) of
             Inl e \<Rightarrow> Inl (Queue_refused e)
           | Inr _ \<Rightarrow>
               unlink_checks w a is
                 (add_audit ''Instance deleted'' None (case i_host_id r of None \<Rightarrow> 0 | Some h \<Rightarrow> h) 0
                    (case i_move_frozen_source_host_id r of
                       None \<Rightarrow> d | Some h \<Rightarrow> forget_frozen_copy i h r d))))"

definition unlink :: "world \<Rightarrow> actor \<Rightarrow> nat list \<Rightarrow> db \<Rightarrow> (life_error, db) result" where
  "unlink w a ids d =
     (case unlink_checks w a ids d of Inl e \<Rightarrow> Inl e | Inr d1 \<Rightarrow>
      let waiting = map jid (waits_on ids d1);
          d2 = (if waiting = [] then d1 else snd (cancel_queued w waiting Instance_gone None True d1))
      in Inr (drop_rows ids d2))"

definition finalize_removal ::
  "world \<Rightarrow> actor \<Rightarrow> bool \<Rightarrow> bool \<Rightarrow> int \<Rightarrow> nat \<Rightarrow> db \<Rightarrow> (life_error, db) result" where
  "finalize_removal w a keep_in_panel now_unlink now i d =
     (case move_from Deployed Deleting i (write_inst i (\<lambda>r. r\<lparr>i_running := False\<rparr>) d) of Inl e \<Rightarrow> Inl e | Inr d1 \<Rightarrow>
     (case (if life_of i d1 = Some Draft then Inr d1 else transition i Draft d1) of
        Inl e \<Rightarrow> Inl e
      | Inr d2 \<Rightarrow>
          if \<not> keep_in_panel then
            (if now_unlink then unlink w a [i] d2
             else Inr (write_inst i (\<lambda>r. r\<lparr>i_removal_finalized := True\<rparr>) d2))
          else Inr (resolve_instance_alerts w i
                 (write_inst i (\<lambda>r. r\<lparr>i_active := False, i_archived_at := Some now, i_status_ok := True\<rparr>) d2))))"

section \<open>The executor of a teardown\<close>

text \<open>\<open>owns\<close> is \<^verbatim>\<open>_owns_instance_lifecycle\<close>, false for the cleanups of a move; the
  backup steps answer with an exit status, or were not run.\<close>

definition delete_before_execute :: "bool \<Rightarrow> nat \<Rightarrow> db \<Rightarrow> (life_error, db) result" where
  "delete_before_execute owns i d = (if owns then move_from Deployed Deleting i d else Inr d)"

definition PURGE_ALERT_BY_EXIT :: "int \<Rightarrow> string option" where
  "PURGE_ALERT_BY_EXIT = map_of
     [(20, ''backup_purge_service_missing''), (21, ''backup_purge_unauthorized''),
      (22, ''backup_purge_failed''), (23, ''backup_purge_compose_unreadable'')]"

definition ARCHIVE_ALERT_BY_EXIT :: "int \<Rightarrow> string option" where
  "ARCHIVE_ALERT_BY_EXIT = map_of
     [(20, ''backup_archive_service_missing''), (22, ''backup_archive_failed''),
      (23, ''backup_archive_compose_unreadable'')]"

definition purge_alert_targets :: "string list" where
  "purge_alert_targets =
     [''backup_purge_service_missing'', ''backup_purge_unauthorized'', ''backup_purge_failed'',
      ''backup_purge_compose_unreadable'', ''backup_archive_service_missing'',
      ''backup_archive_failed'', ''backup_archive_compose_unreadable'']"

definition alert_on_purge_failure ::
  "int option \<Rightarrow> int option \<Rightarrow> nat \<Rightarrow> nat \<Rightarrow> nat \<Rightarrow> db \<Rightarrow> db" where
  "alert_on_purge_failure purge archive host me i d =
     (case (case Option.bind purge PURGE_ALERT_BY_EXIT of
              None \<Rightarrow> Option.bind archive ARCHIVE_ALERT_BY_EXIT | Some c \<Rightarrow> Some c) of
        None \<Rightarrow> d
      | Some c \<Rightarrow> snd (raise_alert c False (Some host) (Some i) (Some me) None d))"

text \<open>\<^verbatim>\<open>get_commands\<close> has something to tear down.\<close>

definition teardown_due :: "nat \<Rightarrow> db \<Rightarrow> bool" where
  "teardown_due i d \<longleftrightarrow> (case instances d i of None \<Rightarrow> False | Some r \<Rightarrow> \<not> i_removal_finalized r)"

text \<open>The unlink of a finished teardown waits for the commit of its job: the first
  component says whether it was armed.\<close>

definition delete_on_success ::
  "world \<Rightarrow> actor \<Rightarrow> bool \<Rightarrow> nat \<Rightarrow> int \<Rightarrow> nat \<Rightarrow> db \<Rightarrow> (life_error, bool \<times> db) result" where
  "delete_on_success w a keep host now i d =
     (case instances d i of
        None \<Rightarrow> Inr (False, d)
      | Some r \<Rightarrow>
          if i_removal_finalized r then Inr (True, d)
          else map_sum id (Pair (\<not> keep))
                 (finalize_removal w a keep False now i
                    (fold (\<lambda>c. resolve_alert w c (Some host) (Some i) None) purge_alert_targets d)))"

definition delete_on_failure ::
  "bool \<Rightarrow> int option \<Rightarrow> int option \<Rightarrow> nat \<Rightarrow> nat \<Rightarrow> nat \<Rightarrow> db \<Rightarrow> (life_error, db) result" where
  "delete_on_failure owns purge archive host me i d =
     (if instances d i = None \<or> \<not> owns then Inr d
      else move_from Deleting Deployed i
             (write_inst i (\<lambda>r. r\<lparr>i_status_ok := False\<rparr>) (alert_on_purge_failure purge archive host me i d)))"

definition delete_on_abort :: "bool \<Rightarrow> nat \<Rightarrow> nat \<Rightarrow> nat \<Rightarrow> db \<Rightarrow> (life_error, db) result" where
  "delete_on_abort owns host me i d =
     (if life_of i d = Some Deleting
      then delete_on_failure owns None None host me i d else Inr d)"

definition deferred_instance_unlink ::
  "world \<Rightarrow> actor \<Rightarrow> nat \<Rightarrow> nat \<Rightarrow> nat \<Rightarrow> db \<Rightarrow> db" where
  "deferred_instance_unlink w a host me i d =
     (if instances d i = None then d
      else case unlink w a [i] d of
             Inr d' \<Rightarrow> d'
           | Inl _ \<Rightarrow> snd (raise_alert ''instance_unlink_failed'' False (Some host) (Some i) (Some me) None d))"

text \<open>The lifecycle hooks of the two executors, as the queue calls them on a job: what
  raises is rolled back. \<open>addon_error\<close> reads the log of a job.\<close>

definition on_instance_of ::
  "string \<Rightarrow> nat \<Rightarrow> (cloud_job \<Rightarrow> nat \<Rightarrow> db \<Rightarrow> (life_error, db) result) \<Rightarrow> db \<Rightarrow> db option" where
  "on_instance_of c k f d =
     (case job_of d k of
        None \<Rightarrow> Some d
      | Some j \<Rightarrow>
          if job_type_id j \<noteq> c then Some d
          else case instance_id j of
                 None \<Rightarrow> Some d
               | Some i \<Rightarrow> (case f j i d of Inl _ \<Rightarrow> None | Inr d' \<Rightarrow> Some d'))"

definition run_closed_hook :: "bool \<Rightarrow> (nat \<Rightarrow> bool) \<Rightarrow> nat \<Rightarrow> db \<Rightarrow> db option" where
  "run_closed_hook stopped addon_error k d =
     Option.bind (on_instance_of ''deploy_instance'' k (\<lambda>j. deploy_on_failure stopped (addon_error k) k) d)
       (on_instance_of ''delete_instance'' k (\<lambda>j. delete_on_abort True (host_id j) k))"

fun lifecycle_hook :: "(nat \<Rightarrow> bool) \<Rightarrow> hook_call \<Rightarrow> db \<Rightarrow> db option" where
  "lifecycle_hook addon_error (On_cancelled_queued k) d =
     on_instance_of ''deploy_instance'' k (\<lambda>_. deploy_on_cancelled_queued) d"
| "lifecycle_hook addon_error (On_never_run k) d =
     on_instance_of ''deploy_instance'' k (\<lambda>_. deploy_on_never_run) d"
| "lifecycle_hook addon_error (On_unblocked k) d =
     on_instance_of ''deploy_instance'' k (\<lambda>_. deploy_on_unblocked) d"
| "lifecycle_hook addon_error (On_abort k) d = run_closed_hook False addon_error k d"
| "lifecycle_hook addon_error (On_cancelled_running k) d = run_closed_hook True addon_error k d"
| "lifecycle_hook addon_error (After_job_terminal k s) d = Some d"

end
