(* ===== verification/Life_Facts.thy ===== *)
theory Life_Facts
  imports Instance_Life
begin

text \<open>
  What the lifecycle guarantees: in every history of deploys, teardowns and removals
  an instance's record says whether its stack is on a host, and stays while it is or
  while its deploy is in flight; and the executors' hooks do to the queue no more than
  the queue relies on.
\<close>

section \<open>The lifecycle as the queue sees it\<close>

text \<open>The state, what is derived from it, and the move it is in.\<close>

definition lives :: "(nat \<rightharpoonup> instance_rec) \<Rightarrow> nat \<rightharpoonup> life_state \<times> bool \<times> nat option" where
  "lives m = (\<lambda>i. map_option (\<lambda>r. (i_state r, i_deployed r, i_move_origin_host_id r)) (m i))"

definition become ::
  "nat \<Rightarrow> life_state \<Rightarrow> (nat \<rightharpoonup> life_state \<times> bool \<times> nat option) \<Rightarrow> nat \<rightharpoonup> life_state \<times> bool \<times> nat option" where
  "become i s L = L(i := map_option (\<lambda>(_, _, m). (s, compute_deployed s, m)) (L i))"

interpretation life: instance_view lives
  by unfold_locales (auto simp: lives_def fun_eq_iff)

lemma lives_same_write:
  "(\<And>r. i_state (f r) = i_state r) \<Longrightarrow> (\<And>r. i_deployed (f r) = i_deployed r) \<Longrightarrow>
     (\<And>r. i_move_origin_host_id (f r) = i_move_origin_host_id r) \<Longrightarrow> seen lives (write_inst i f d) = seen lives d"
  by (auto simp: seen_def lives_def write_inst_def fun_eq_iff option.map_comp comp_def)

lemma life_of_seen: "life_of i d = map_option fst (seen lives d i)"
  by (simp add: life_of_def seen_def lives_def option.map_comp comp_def)

text \<open>What a legal move does to the lifecycles.\<close>

lemma transition_result:
  assumes "transition i s d = Inr d'"
  shows "\<exists>t. life_of i d = Some t \<and> s \<in> set (STATE_TRANSITIONS t)"
    "seen lives d' = become i s (seen lives d)"
  using assms
  by (auto simp: transition_def life_of_def seen_def lives_def write_inst_def become_def fun_eq_iff
      split: option.splits if_splits)

lemma become_simps [simp]:
  "k \<noteq> i \<Longrightarrow> become i s L k = L k" "become i s L i = map_option (\<lambda>(_, _, m). (s, compute_deployed s, m)) (L i)"
  "become i t (become i s L) = become i t L"
  by (auto simp: become_def fun_eq_iff option.map_comp comp_def intro: option.map_cong)

lemma move_from_result:
  assumes "move_from s t i d = Inr d'"
  shows "seen lives d' =
    (if life_of i d = Some s then become i t (seen lives d) else seen lives d)"
  using assms transition_result(2) by (auto simp: move_from_def life_of_def split: option.splits if_splits)

text \<open>A deletion drops the row of a draft and leaves the others as any blind reading of
  them finds them.\<close>

lemma unlink_drops:
  assumes v: "instance_view v" and h: "hooks_blind v w" and u: "unlink w a [i] d = Inr d'"
  shows "\<exists>d2. d' = drop_rows [i] d2 \<and> seen v d2 = seen v d \<and> life_of i d = Some Draft"
proof -
  obtain d1 where d1: "unlink_checks w a [i] d = Inr d1" using u by (auto simp: unlink_def split: sum.splits)
  then obtain r where r: "instances d i = Some r" "i_state r = Draft"
    and "d1 = add_audit ''Instance deleted'' None (case i_host_id r of None \<Rightarrow> 0 | Some h \<Rightarrow> h) 0
           (case i_move_frozen_source_host_id r of None \<Rightarrow> d | Some h \<Rightarrow> forget_frozen_copy i h r d)"
    by (auto split: option.splits sum.splits if_splits)
  then have s1: "seen v d1 = seen v d"
    by (auto simp: instance_view.seen_forget [OF v] instance_view.seen_plain [OF v] split: option.split)
  let ?d2 = "if waits_on [i] d1 = [] then d1 else snd (cancel_queued w (map jid (waits_on [i] d1)) Instance_gone None True d1)"
  have "d' = drop_rows [i] ?d2" using u d1 by (simp add: unlink_def Let_def del: unlink_checks.simps)
  moreover have "seen v ?d2 = seen v d" using s1 instance_view.seen_cancel_queued [OF v h] by simp
  ultimately show ?thesis using r by (auto simp: life_of_def)
qed

lemma unlink_result:
  assumes "hooks_blind lives w" and "unlink w a [i] d = Inr d'"
  shows "life_of i d = Some Draft" "seen lives d' = (seen lives d)(i := None)"
proof -
  have dropped: "seen lives (drop_rows [i] x) = (seen lives x)(i := None)" for x
    by (auto simp: drop_rows_def Let_def seen_def lives_def fun_eq_iff)
  show "life_of i d = Some Draft" "seen lives d' = (seen lives d)(i := None)"
    using unlink_drops [OF life.instance_view_axioms assms] dropped by auto
qed

lemma finalize_result:
  assumes "hooks_blind lives w" and "finalize_removal w a keep False now i d = Inr d'" and "life_of i d \<noteq> None"
  shows "seen lives d' = become i Draft (seen lives d) \<or>
         (seen lives d' = seen lives d \<and> life_of i d = Some Draft)"
proof -
  let ?d0 = "write_inst i (\<lambda>r. r\<lparr>i_running := False\<rparr>) d"
  have s0: "seen lives ?d0 = seen lives d" by (rule lives_same_write) simp_all
  obtain d1 where d1: "move_from Deployed Deleting i ?d0 = Inr d1"
    using assms(2) by (auto simp: finalize_removal_def split: sum.splits)
  obtain d2 where d2: "(if life_of i d1 = Some Draft then Inr d1 else transition i Draft d1) = Inr d2"
    using assms(2) d1 by (simp add: finalize_removal_def split: sum.splits if_splits)
  have d': "seen lives d' = seen lives d2"
    using assms(2) d1 d2
    by (simp add: finalize_removal_def lives_same_write resolve_instance_alerts_def Let_def
        split: if_splits sum.splits) (auto simp: lives_same_write)
  show ?thesis
    using move_from_result [OF d1] d2 d' transition_result(2) [of i Draft d1 d2] assms(3)
    by (auto simp: life_of_seen s0 split: if_splits)
qed

lemma delete_on_success_result:
  assumes "hooks_blind lives w" and "delete_on_success w a keep host now i d = Inr (armed, d')" and "teardown_due i d"
  shows "seen lives d' = become i Draft (seen lives d) \<or>
         (seen lives d' = seen lives d \<and> life_of i d = Some Draft)"
proof -
  let ?d = "fold (\<lambda>c. resolve_alert w c (Some host) (Some i) None) purge_alert_targets d"
  have s: "seen lives ?d = seen lives d" by (rule life.seen_fold) simp
  have "life_of i d \<noteq> None" using assms(3) by (auto simp: teardown_due_def life_of_def split: option.splits)
  then have "life_of i ?d \<noteq> None" by (simp add: life_of_seen s)
  moreover have "finalize_removal w a keep False now i ?d = Inr d'"
    using assms(2,3) by (auto simp: delete_on_success_def teardown_due_def map_sum_def split: option.splits sum.splits)
  ultimately show ?thesis using finalize_result [OF assms(1)] s life_of_seen by metis
qed

lemma nothing_due_changes_nothing:
  "delete_on_success w a keep host now i d = Inr (armed, d') \<Longrightarrow> \<not> teardown_due i d \<Longrightarrow> d' = d"
  by (auto simp: delete_on_success_def teardown_due_def split: option.splits)

lemma delete_on_failure_result:
  assumes "delete_on_failure owns purge archive host me i d = Inr d'"
  shows "seen lives d' = seen lives d \<or>
         (life_of i d = Some Deleting \<and> seen lives d' = become i Deployed (seen lives d))"
proof -
  let ?d = "write_inst i (\<lambda>r. r\<lparr>i_status_ok := False\<rparr>) (alert_on_purge_failure purge archive host me i d)"
  have s: "seen lives ?d = seen lives d"
    by (subst lives_same_write) (auto simp: alert_on_purge_failure_def split: option.split)
  show ?thesis
    using assms move_from_result [of Deleting Deployed i ?d d'] s
    by (auto simp: delete_on_failure_def life_of_seen split: if_splits)
qed

lemma delete_on_abort_result:
  "delete_on_abort owns host me i d = Inr d' \<Longrightarrow> seen lives d' = seen lives d \<or>
     (life_of i d = Some Deleting \<and> seen lives d' = become i Deployed (seen lives d))"
  using delete_on_failure_result [of owns None None host me i d d'] by (auto simp: delete_on_abort_def split: if_splits)

lemma deploy_on_failure_result:
  assumes "deploy_on_failure stopped addon me i d = Inr d'"
  shows "seen lives d' =
    (if life_of i d = Some Deploying then become i Draft (seen lives d) else seen lives d)"
proof -
  let ?d1 = "case instances d i of None \<Rightarrow> d
    | Some r \<Rightarrow> if i_pip_conflicts r \<and> \<not> stopped then snd (raise_alert ''pip_conflict'' False None (Some i) None None d) else d"
  let ?d2 = "if addon \<and> \<not> stopped then snd (raise_alert ''addon_conflict'' True None (Some i) (Some me) None ?d1) else ?d1"
  let ?d3 = "write_inst i (\<lambda>r. r\<lparr>i_status_ok := False\<rparr>) ?d2"
  have "seen lives ?d1 = seen lives d" by (auto split: option.split)
  then have "seen lives ?d3 = seen lives d" by (simp add: lives_same_write)
  moreover have "move_from Deploying Draft i ?d3 = Inr d'" using assms by (simp add: deploy_on_failure_def Let_def)
  ultimately show ?thesis using move_from_result [of Deploying Draft i ?d3 d'] life_of_seen [of i] by simp
qed

lemma deploy_on_success_result:
  assumes "hooks_blind lives w" and "deploy_on_success w me i d = Inr d'"
    and "\<And>r. instances d i = Some r \<Longrightarrow> i_move_origin_host_id r = None"
  shows "seen lives d' = become i Deployed (seen lives d)"
proof -
  let ?d0 = "cancel_stale_waits w i me
                   (resolve_alert w ''addon_conflict'' None (Some i) None (dismiss_pip_conflict_alerts w i d))"
  let ?d1 = "write_inst i (\<lambda>r. r\<lparr>i_status_ok := True, i_running := True\<rparr>) ?d0"
  have s: "seen lives ?d1 = seen lives d"
    by (subst lives_same_write)
      (simp_all add: cancel_stale_waits_def Let_def life.seen_on_state_changed [OF assms(1)] dismiss_pip_conflict_alerts_def)
  obtain r where r: "instances ?d1 i = Some r"
      "(if i_move_origin_host_id r = None then transition i Deployed ?d1 else Inr ?d1) = Inr d'"
    using assms(2) unfolding deploy_on_success_def Let_def by (cases "instances ?d1 i") auto
  have "seen lives d i = Some (i_state r, i_deployed r, i_move_origin_host_id r)"
    unfolding s [symmetric] using r(1) by (simp add: seen_def lives_def)
  then have "i_move_origin_host_id r = None" using assms(3) by (auto simp: seen_def lives_def)
  then show ?thesis using r(2) transition_result(2) [of i Deployed ?d1 d'] s by simp
qed

section \<open>Histories\<close>

text \<open>The database, the deploys that were asked for through \<^verbatim>\<open>deploy\<close> and have not
  ended, and the stacks on the hosts. A deploy waits in its queue, then runs.\<close>

datatype phase = In_queue | In_run

record site =
  site_db :: db
  flight :: "nat \<rightharpoonup> phase"
  stacks :: "nat set"

text \<open>The steps. A creation is a draft, or an import of what runs on a host. A deploy
  is asked for, leaves its queue, is cancelled there or never starts, is held by a
  conflict and released, and its run ends well or not. A teardown starts, ends, fails or
  is aborted; it finds no deploy of the instance in flight, for it cleared the queue when
  it was asked for, and the queue runs one entry of an instance at a time. A record is
  deleted, by a person or after its teardown's commit. What the hooks of the two
  executors do to an instance is a step of its own, so the hooks of the queue's
  operations leave its lifecycle alone; whatever else the panel does leaves it alone
  too.\<close>

inductive life_step :: "site \<Rightarrow> site \<Rightarrow> bool" where
  created: "instances (site_db s) i = None \<Longrightarrow> i_state row \<in> {Draft, Deployed} \<Longrightarrow>
    create_instance a backend vals row clash i now (site_db s) = Inr d' \<Longrightarrow>
    life_step s (s\<lparr>site_db := d', stacks := (if i_state row = Deployed then insert i (stacks s) else stacks s)\<rparr>)"
| asked: "hooks_blind lives w \<Longrightarrow> (\<And>d. seen lives (recheck d) = seen lives d) \<Longrightarrow>
    deploy w a recheck backend i (site_db s) = Inr (j, d') \<Longrightarrow>
    life_step s (s\<lparr>site_db := d', flight := (if life_of i (site_db s) \<noteq> Some Deploying \<and> life_of i d' = Some Deploying
                                            then (flight s)(i \<mapsto> In_queue) else flight s)\<rparr>)"
| started: "flight s i = Some In_queue \<Longrightarrow> life_step s (s\<lparr>flight := (flight s)(i \<mapsto> In_run)\<rparr>)"
| cancelled: "flight s i = Some In_queue \<Longrightarrow> deploy_on_cancelled_queued i (site_db s) = Inr d' \<Longrightarrow>
    life_step s (s\<lparr>site_db := d', flight := (flight s)(i := None)\<rparr>)"
| never_ran: "flight s i = Some In_queue \<Longrightarrow> deploy_on_never_run i (site_db s) = Inr d' \<Longrightarrow>
    life_step s (s\<lparr>site_db := d', flight := (flight s)(i := None)\<rparr>)"
| held: "flight s i = Some In_run \<Longrightarrow> deploy_on_blocked i (site_db s) = Inr d' \<Longrightarrow>
    life_step s (s\<lparr>site_db := d', flight := (flight s)(i := None)\<rparr>)"
| released: "life_of i (site_db s) = Some Draft \<Longrightarrow> deploy_on_unblocked i (site_db s) = Inr d' \<Longrightarrow>
    life_step s (s\<lparr>site_db := d', flight := (flight s)(i \<mapsto> In_queue)\<rparr>)"
| built: "flight s i = Some In_run \<Longrightarrow> hooks_blind lives w \<Longrightarrow>
    (\<And>r. instances (site_db s) i = Some r \<Longrightarrow> i_move_origin_host_id r = None) \<Longrightarrow>
    deploy_on_success w me i (site_db s) = Inr d' \<Longrightarrow>
    life_step s (s\<lparr>site_db := d', flight := (flight s)(i := None), stacks := insert i (stacks s)\<rparr>)"
| not_built: "flight s i = Some In_run \<Longrightarrow> deploy_on_failure stopped addon me i (site_db s) = Inr d' \<Longrightarrow>
    life_step s (s\<lparr>site_db := d', flight := (flight s)(i := None)\<rparr>)"
| tearing: "delete_before_execute owns i (site_db s) = Inr d' \<Longrightarrow> life_step s (s\<lparr>site_db := d'\<rparr>)"
| torn_down: "flight s i = None \<Longrightarrow> hooks_blind lives w \<Longrightarrow>
    delete_on_success w a keep host now i (site_db s) = Inr (armed, d') \<Longrightarrow>
    life_step s (s\<lparr>site_db := d', stacks := (if teardown_due i (site_db s) then stacks s - {i} else stacks s)\<rparr>)"
| not_torn: "delete_on_failure owns purge archive host me i (site_db s) = Inr d' \<Longrightarrow> life_step s (s\<lparr>site_db := d'\<rparr>)"
| aborted: "delete_on_abort owns host me i (site_db s) = Inr d' \<Longrightarrow> life_step s (s\<lparr>site_db := d'\<rparr>)"
| deleted: "hooks_blind lives w \<Longrightarrow> unlink w a [i] (site_db s) = Inr d' \<Longrightarrow> life_step s (s\<lparr>site_db := d'\<rparr>)"
| deleted_later: "hooks_blind lives w \<Longrightarrow>
    life_step s (s\<lparr>site_db := deferred_instance_unlink w a host me i (site_db s)\<rparr>)"
| other: "seen lives d' = seen lives (site_db s) \<Longrightarrow> life_step s (s\<lparr>site_db := d'\<rparr>)"

text \<open>A deploy in flight has its instance in \<^verbatim>\<open>deploying\<close>, and \<^verbatim>\<open>deployed\<close> says whether the
  stack is on a host.\<close>

definition told :: "(nat \<rightharpoonup> life_state \<times> bool \<times> nat option) \<Rightarrow> (nat \<rightharpoonup> phase) \<Rightarrow> nat set \<Rightarrow> bool" where
  "told L fl st \<longleftrightarrow>
     (\<forall>i s b m. L i = Some (s, b, m) \<longrightarrow> b = compute_deployed s) \<and>
     (\<forall>i. fl i \<noteq> None \<longrightarrow> map_option fst (L i) = Some Deploying) \<and>
     (\<forall>i. i \<in> st \<longleftrightarrow> (\<exists>s m. L i = Some (s, True, m)))"

definition truthful :: "site \<Rightarrow> bool" where
  "truthful s \<longleftrightarrow> told (seen lives (site_db s)) (flight s) (stacks s)"

lemma told_move:
  assumes "told L fl st" and "L i \<noteq> None" and "p \<noteq> None \<Longrightarrow> t = Deploying"
  shows "told (become i t L) (fl(i := p)) (if compute_deployed t then insert i st else st - {i})"
  using assms unfolding told_def by (auto simp: become_def split: if_splits)

lemma told_move_off:
  assumes "told L fl st" and "L i = Some (s, b, m)" and "\<not> compute_deployed s" and "\<not> compute_deployed t"
    and "p \<noteq> None \<Longrightarrow> t = Deploying"
  shows "told (become i t L) (fl(i := p)) st"
proof -
  have "i \<notin> st" using assms(1-3) unfolding told_def by auto
  then have "st - {i} = st" by auto
  then show ?thesis using told_move [OF assms(1), of i p t] assms(2,4,5) by simp
qed

lemma told_move_on:
  assumes "told L fl st" and "L i = Some (s, b, m)" and "compute_deployed s" and "compute_deployed t"
  shows "told (become i t L) fl st"
proof -
  have "i \<in> st" "fl i = None"
    using assms(1-3) unfolding told_def by (force simp: compute_deployed_def ON_HOST_STATES_def)+
  then have "(if compute_deployed t then insert i st else st - {i}) = st" "fl(i := None) = fl" using assms(4) by auto
  then show ?thesis using told_move [OF assms(1), of i None t] assms(2) by simp
qed

lemma deployed_states [simp]:
  "compute_deployed Deployed" "compute_deployed Deleting" "\<not> compute_deployed Draft" "\<not> compute_deployed Deploying"
  by (simp_all add: compute_deployed_def ON_HOST_STATES_def)

lemma into_deploying: "Deploying \<in> set (STATE_TRANSITIONS t) \<longleftrightarrow> t = Draft"
  by (cases t) auto

text \<open>What pressing Deploy does to the lifecycles: it releases the deploy that waits, or
  asks for one from \<^verbatim>\<open>draft\<close>, which enters \<^verbatim>\<open>deploying\<close> unless it is held at once.\<close>

lemma deploy_result:
  assumes "hooks_blind lives w" and re: "\<And>d. seen lives (recheck d) = seen lives d"
    and "deploy w a recheck backend i d = Inr (j, d')"
  shows "seen lives d' = seen lives d \<or>
         (life_of i d = Some Draft \<and> (\<exists>t \<in> {Deploying, Draft}. seen lives d' = become i t (seen lives d)))"
proof -
  have asked: "life_of i d = Some Draft \<and> seen lives d1 = become i Deploying (seen lives d)"
    if "transition i Deploying d = Inr d1" for d1
    using transition_result [OF that] by (auto simp: into_deploying)
  have retry: ?thesis if "retry_failed_deploy w a i f d = Inr (j, d')" for f
    using that asked life.seen_retry
    by (fastforce simp: retry_failed_deploy_def split: sum.splits prod.splits)
  have new: ?thesis if q: "queue_new_deploy w a h i d = Inr (j, d')" for h
  proof -
    obtain d1 k d2 where d: "transition i Deploying d = Inr d1"
        "enqueue w a h (Some i) ''deploy_instance'' None False d1 = Inr (k, d2)"
        "(if (case job_of d2 k of None \<Rightarrow> False | Some x \<Rightarrow> blocked_alert_id x \<noteq> None)
          then map_sum id (Pair k) (transition i Draft d2) else Inr (k, d2)) = Inr (j, d')"
      using q by (auto simp: queue_new_deploy_def split: sum.splits)
    have "seen lives d2 = become i Deploying (seen lives d)" using asked [OF d(1)] life.seen_enqueue [OF assms(1) d(2)] by simp
    then show ?thesis
      using d(3) asked [OF d(1)] transition_result(2) [of i Draft d2]
      by (auto simp: map_sum_def split: if_splits sum.splits)
  qed
  have free: ?thesis if "release_waiting_deploy w a recheck x d = Inr (j, d')" for x
    using that re life.seen_unblock [OF assms(1)]
    by (fastforce simp: release_waiting_deploy_def Let_def split: if_splits option.splits sum.splits)
  show ?thesis
    using assms(3) retry new free by (auto simp: deploy_def split: option.splits if_splits)
qed

lemma seen_life: "life_of i d = Some s \<Longrightarrow> \<exists>b m. seen lives d i = Some (s, b, m)"
  by (auto simp: life_of_def seen_def lives_def)

lemma told_flight:
  assumes "told (seen lives d) fl st" and "fl i = Some p"
  shows "life_of i d = Some Deploying"
  using assms unfolding told_def life_of_seen by blast

text \<open>A deploy in flight that leaves \<^verbatim>\<open>deploying\<close> for \<^verbatim>\<open>draft\<close>.\<close>

lemma told_back_to_draft:
  assumes "told (seen lives d) fl st" and "fl i = Some p" and "seen lives d' = become i Draft (seen lives d)"
  shows "told (seen lives d') (fl(i := None)) st"
proof -
  obtain b m where "seen lives d i = Some (Deploying, b, m)" using seen_life [OF told_flight [OF assms(1,2)]] by blast
  from told_move_off [OF assms(1) this, of Draft None] show ?thesis using assms(3) by simp
qed

lemma told_on_host:
  assumes "told (seen lives d) fl st" and "life_of i d = Some s" and "compute_deployed s" and "compute_deployed t"
    and "seen lives d' = become i t (seen lives d)"
  shows "told (seen lives d') fl st"
proof -
  obtain b m where "seen lives d i = Some (s, b, m)" using seen_life [OF assms(2)] by blast
  then show ?thesis using told_move_on [OF assms(1) _ assms(3,4)] assms(5) by simp
qed

lemma told_removed:
  assumes "told (seen lives d) fl st" and "life_of i d = Some Draft" and "seen lives d' = (seen lives d)(i := None)"
  shows "told (seen lives d') fl st"
proof -
  obtain b m where L: "seen lives d i = Some (Draft, b, m)" using seen_life [OF assms(2)] by blast
  then have b: "\<not> b" using assms(1) deployed_states(3) unfolding told_def by metis
  have fl: "fl i = None"
  proof (rule ccontr)
    assume "fl i \<noteq> None"
    then have "map_option fst (seen lives d i) = Some Deploying" using assms(1) unfolding told_def by blast
    then show False using L by simp
  qed
  show ?thesis unfolding told_def assms(3)
  proof (intro conjI allI impI)
    fix k s x m assume "((seen lives d)(i := None)) k = Some (s, x, m)"
    then show "x = compute_deployed s" using assms(1) unfolding told_def by (auto split: if_splits)
  next
    fix k assume "fl k \<noteq> None"
    then show "map_option fst (((seen lives d)(i := None)) k) = Some Deploying"
      using assms(1) fl unfolding told_def by (cases "k = i") auto
  next
    fix k
    show "(k \<in> st) = (\<exists>s m. ((seen lives d)(i := None)) k = Some (s, True, m))"
      using assms(1) L b unfolding told_def by (cases "k = i") auto
  qed
qed

lemma created_told:
  assumes "told (seen lives d) fl st" and "instances d i = None" and "i_state row \<in> {Draft, Deployed}"
    and "create_instance a backend vals row clash i now d = Inr d'"
  shows "told (seen lives d') fl (if i_state row = Deployed then insert i st else st)"
proof -
  have L: "seen lives d i = None" using assms(2) by (simp add: seen_def lives_def)
  then have "fl i = None" "i \<notin> st" using assms(1) unfolding told_def by auto
  moreover have "seen lives d' = (seen lives d)(i \<mapsto> (i_state row, compute_deployed (i_state row), i_move_origin_host_id row))"
    using assms(4)
    by (auto simp: create_instance_def Let_def seen_def lives_def add_audit_def fun_eq_iff split: sum.splits if_splits)
  ultimately show ?thesis
    using assms(1,3) L unfolding told_def by (auto split: if_splits)
qed

lemma told_asked:
  assumes "told (seen lives d) fl st" and "life_of i d = Some Draft" and "t \<in> {Deploying, Draft}"
    and "seen lives d' = become i t (seen lives d)"
  shows "told (seen lives d') (if life_of i d' = Some Deploying then fl(i \<mapsto> In_queue) else fl) st"
proof -
  obtain b m where L: "seen lives d i = Some (Draft, b, m)" using seen_life [OF assms(2)] by blast
  have "fl i = None" using told_flight [OF assms(1)] assms(2) by (cases "fl i") auto
  then have "fl(i := None) = fl" by auto
  then show ?thesis
    using told_move_off [OF assms(1) L, of Deploying "Some In_queue"] told_move_off [OF assms(1) L, of Draft None]
      assms(3,4) L by (auto simp: life_of_seen)
qed

lemma told_torn:
  assumes "told (seen lives d) fl st" and "fl i = None" and "life_of i d \<noteq> None"
    and "seen lives d' = become i Draft (seen lives d) \<or> (seen lives d' = seen lives d \<and> life_of i d = Some Draft)"
  shows "told (seen lives d') fl (st - {i})"
proof -
  have fl: "fl(i := None) = fl" using assms(2) by auto
  obtain x b m where L: "seen lives d i = Some (x, b, m)" using assms(3) by (auto simp: life_of_def seen_def lives_def)
  have "i \<notin> st" if "x = Draft"
  proof -
    have "\<not> b" using assms(1) L that deployed_states(3) unfolding told_def by metis
    then show ?thesis using assms(1) L unfolding told_def by auto
  qed
  then show ?thesis
    using told_move [OF assms(1), of i None Draft] assms L fl by (auto simp: life_of_seen)
qed

lemma unlink_told:
  assumes "told (seen lives d) fl st" and "hooks_blind lives w" and "unlink w a [i] d = Inr d'"
  shows "told (seen lives d') fl st"
  using told_removed [OF assms(1)] unlink_result [OF assms(2,3)] by blast

lemma teardown_failed_told:
  assumes "told (seen lives d) fl st"
    and "seen lives d' = seen lives d \<or> (life_of i d = Some Deleting \<and> seen lives d' = become i Deployed (seen lives d))"
  shows "told (seen lives d') fl st"
  using assms told_on_host [OF assms(1), of i Deleting Deployed d'] by auto

lemma life_step_truthful:
  assumes "life_step s s'" and t: "truthful s"
  shows "truthful s'"
  using assms(1)
proof cases
  case (created i row a backend vals clash now d')
  then show ?thesis using created_told t by (simp add: truthful_def)
next
  case (asked w recheck a backend i j d')
  consider "seen lives d' = seen lives (site_db s)"
    | "life_of i (site_db s) = Some Draft" "\<exists>t \<in> {Deploying, Draft}. seen lives d' = become i t (seen lives (site_db s))"
    using deploy_result [OF asked(2-4)] by blast
  then show ?thesis
  proof cases
    case 1
    then show ?thesis using t asked(1) by (auto simp: truthful_def life_of_seen)
  next
    case 2
    then obtain x where "x \<in> {Deploying, Draft}" "seen lives d' = become i x (seen lives (site_db s))" by blast
    from told_asked [OF t [unfolded truthful_def] 2(1) this] show ?thesis
      using asked(1) 2(1) by (simp add: truthful_def split: if_splits)
  qed
next
  case (started i)
  then show ?thesis using t by (auto simp: truthful_def told_def)
next
  case (cancelled i d')
  then show ?thesis
    using t told_back_to_draft told_flight move_from_result [of Deploying Draft i "site_db s" d']
    by (fastforce simp: truthful_def deploy_on_cancelled_queued_def)
next
  case (never_ran i d')
  then show ?thesis
    using t told_back_to_draft told_flight move_from_result [of Deploying Draft i "site_db s" d']
    by (fastforce simp: truthful_def deploy_on_never_run_def deploy_on_cancelled_queued_def)
next
  case (held i d')
  then show ?thesis
    using t told_back_to_draft told_flight move_from_result [of Deploying Draft i "site_db s" d']
    by (fastforce simp: truthful_def deploy_on_blocked_def)
next
  case (released i d')
  have L: "seen lives d' = become i Deploying (seen lives (site_db s))"
    using move_from_result [of Draft Deploying i "site_db s" d'] released by (simp add: deploy_on_unblocked_def)
  then have "life_of i d' = Some Deploying" using seen_life [OF released(2)] by (auto simp: life_of_seen)
  then show ?thesis using told_asked [OF _ released(2) _ L] t released(1) by (simp add: truthful_def)
next
  case (built i w me d')
  have "seen lives d' = become i Deployed (seen lives (site_db s))" by (rule deploy_on_success_result [OF built(3,5,4)])
  moreover obtain b m where "seen lives (site_db s) i = Some (Deploying, b, m)"
    using seen_life told_flight t built(2) unfolding truthful_def by blast
  ultimately show ?thesis
    using told_move [of "seen lives (site_db s)" "flight s" "stacks s" i None Deployed] t built(1) by (simp add: truthful_def)
next
  case (not_built i stopped addon me d')
  then show ?thesis
    using t told_back_to_draft told_flight deploy_on_failure_result [OF not_built(3)] by (fastforce simp: truthful_def)
next
  case (tearing owns i d')
  then show ?thesis
    using t told_on_host [of "site_db s" "flight s" "stacks s" i Deployed Deleting d'] move_from_result [of Deployed Deleting i "site_db s" d']
    by (auto simp: truthful_def delete_before_execute_def split: if_splits)
next
  case (torn_down i w a keep host now armed d')
  show ?thesis
  proof (cases "teardown_due i (site_db s)")
    case True
    then have "life_of i (site_db s) \<noteq> None" by (auto simp: teardown_due_def life_of_def split: option.splits)
    then show ?thesis
      using told_torn [OF t [unfolded truthful_def] torn_down(2) _ delete_on_success_result [OF torn_down(3,4) True]] torn_down(1) True
      by (simp add: truthful_def)
  next
    case False
    then show ?thesis using nothing_due_changes_nothing [OF torn_down(4)] torn_down(1) t by (simp add: truthful_def)
  qed
next
  case (not_torn owns purge archive host me i d')
  then show ?thesis using t teardown_failed_told [OF _ delete_on_failure_result [OF not_torn(2)]] by (simp add: truthful_def)
next
  case (aborted owns host me i d')
  then show ?thesis using t teardown_failed_told [OF _ delete_on_abort_result [OF aborted(2)]] by (simp add: truthful_def)
next
  case (deleted w a i d')
  then show ?thesis using t unlink_told by (auto simp: truthful_def)
next
  case (deleted_later w a host me i)
  then show ?thesis
    using t unlink_told [OF _ deleted_later(2)]
    by (auto simp: truthful_def deferred_instance_unlink_def split: sum.split)
next
  case (other d')
  then show ?thesis using t by (simp add: truthful_def)
qed

interpretation lifecycle: kept_by_steps life_step truthful
  by unfold_locales (rule life_step_truthful)

definition empty_site :: site where
  "empty_site = \<lparr>site_db = empty_db\<lparr>types := (\<lambda>c. Some (blank_type c))\<rparr>, flight = (\<lambda>_. None), stacks = {}\<rparr>"

lemma empty_site_truthful: "truthful empty_site"
  by (simp add: truthful_def told_def empty_site_def seen_def lives_def empty_db_def)


text \<open>A staging created by the platform and deployed.\<close>

definition platform :: actor where
  "platform = \<lparr>who = \<lparr>su = True, uid = 1, has_group = (\<lambda>_. False)\<rparr>, reads_instance = (\<lambda>_. True),
     reads_host = (\<lambda>_. True), reads_job = (\<lambda>_. True), writes_job = (\<lambda>_. True), reads_alert = (\<lambda>_. True),
     writes_alert = (\<lambda>_. True), creates_job = (\<lambda>_. True)\<rparr>"

definition draft_instance :: instance_rec where
  "draft_instance = live_instance\<lparr>i_environment := Staging, i_state := Draft, i_deployed := False, i_running := False\<rparr>"

lemma core_blind: "hooks_blind v (core_world d)"
  by (simp add: hooks_blind_def core_world_def)

definition born_db :: db where
  "born_db = (case create_instance platform (\<lambda>_. None) [] draft_instance False 7 100 (site_db empty_site) of
     Inr d \<Rightarrow> d | Inl _ \<Rightarrow> empty_db)"

definition asked_db :: db where
  "asked_db = (case deploy (core_world born_db) platform id True 7 born_db of Inr (_, d) \<Rightarrow> d | Inl _ \<Rightarrow> empty_db)"

lemma deploying_site_reached:
  "life_step\<^sup>*\<^sup>* empty_site (empty_site\<lparr>site_db := asked_db, flight := [7 \<mapsto> In_queue]\<rparr>)"
proof -
  let ?r = "create_instance platform (\<lambda>_. None) [] draft_instance False 7 100 (site_db empty_site)"
  let ?q = "deploy (core_world born_db) platform id True 7 born_db"
  let ?s = "empty_site\<lparr>site_db := born_db\<rparr>"
  have "(case ?r of Inr _ \<Rightarrow> True | Inl _ \<Rightarrow> False)" by code_simp
  then have r: "?r = Inr born_db" by (simp add: born_db_def split: sum.splits)
  have "(case ?q of Inr _ \<Rightarrow> True | Inl _ \<Rightarrow> False)" by code_simp
  then have q: "?q = Inr (fst (projr ?q), asked_db)" by (simp add: asked_db_def split: sum.splits prod.splits)
  have "life_step empty_site (empty_site\<lparr>site_db := born_db,
      stacks := (if i_state draft_instance = Deployed then insert 7 (stacks empty_site) else stacks empty_site)\<rparr>)"
    by (rule created [OF _ _ r]) (simp_all add: empty_site_def empty_db_def draft_instance_def)
  then have 1: "life_step empty_site ?s" by (simp add: empty_site_def draft_instance_def)
  have q': "deploy (core_world born_db) platform id True 7 (site_db ?s) = Inr (fst (projr ?q), asked_db)"
    using q by simp
  have "life_of 7 (site_db ?s) = Some Draft" "life_of 7 asked_db = Some Deploying" by code_simp+
  moreover have "life_step ?s (?s\<lparr>site_db := asked_db, flight := (if life_of 7 (site_db ?s) \<noteq> Some Deploying \<and>
      life_of 7 asked_db = Some Deploying then (flight ?s)(7 \<mapsto> In_queue) else flight ?s)\<rparr>)"
    by (rule asked [OF core_blind _ q']) simp
  ultimately have "life_step ?s (empty_site\<lparr>site_db := asked_db, flight := [7 \<mapsto> In_queue]\<rparr>)"
    by (simp add: empty_site_def)
  then show ?thesis using 1 by (meson converse_rtranclp_into_rtranclp r_into_rtranclp)
qed


section \<open>What the record does not guard\<close>

text \<open>C25. A deploy retried from its job leaves its instance in \<^verbatim>\<open>draft\<close>, where \<^verbatim>\<open>deploy\<close>
  would have entered \<^verbatim>\<open>deploying\<close>: while the retry runs, with nothing waiting, a delete
  of the record is accepted, and the running deploy is left with no instance.\<close>

theorem retried_deploy_can_lose_its_record:
  assumes "retry_job w a j d = Inr (k, d1)" and "life_of i d = Some Draft"
    and "seen lives d2 = seen lives d1" and "waits_on [i] d2 = []" and "is_su su_actor"
    and "x \<in> set (jobs d2)" and "is_deploy_of i x"
  shows "\<exists>d3. unlink w' su_actor [i] d2 = Inr d3 \<and> instances d3 i = None \<and>
           (\<exists>y \<in> set (jobs d3). jid y = jid x \<and> state y = state x \<and> instance_id y = None)"
proof -
  have "life_of i d2 = Some Draft" using assms(2,3) life.seen_retry [OF assms(1)] by (simp add: life_of_seen)
  then obtain r where r: "instances d2 i = Some r" "i_state r = Draft" by (auto simp: life_of_def)
  let ?d = "add_audit ''Instance deleted'' None (case i_host_id r of None \<Rightarrow> 0 | Some h \<Rightarrow> h) 0
           (case i_move_frozen_source_host_id r of None \<Rightarrow> d2 | Some h \<Rightarrow> forget_frozen_copy i h r d2)"
  have "check_can_delete_instance (who su_actor) e = Inr ()" for e
    using assms(5) by (simp add: check_can_delete_instance_def check_cloud_group_def is_su_def)
  then have "unlink_checks w' su_actor [i] d2 = Inr ?d"
    using r assms(5) by (simp add: check_may_end_waiting_def)
  moreover have jobs: "jobs ?d = jobs d2" by (simp add: add_audit_def forget_frozen_copy_def split: option.split)
  moreover have "waits_on [i] ?d = []" using assms(4) jobs by (simp add: waits_on_def)
  ultimately have "unlink w' su_actor [i] d2 = Inr (drop_rows [i] ?d)" by (simp add: unlink_def del: unlink_checks.simps)
  moreover have "instances (drop_rows [i] ?d) i = None" by (simp add: drop_rows_def Let_def)
  moreover have "\<exists>y \<in> set (jobs (drop_rows [i] ?d)). jid y = jid x \<and> state y = state x \<and> instance_id y = None"
    using assms(6,7) jobs by (auto simp: drop_rows_def Let_def is_deploy_of_def intro!: bexI [of _ x])
  ultimately show ?thesis by blast
qed

text \<open>A failed deploy, retried from its job and dispatched.\<close>

definition failed_db :: db where
  "failed_db = born_db\<lparr>jobs := [blank_job\<lparr>jid := 1, job_type_id := ''deploy_instance'', state := Some Failed,
                                  instance_id := Some 7\<rparr>], next_job_id := 2\<rparr>"

definition retried_db :: db where
  "retried_db = (case retry_job (core_world failed_db) platform (hd (jobs failed_db)) failed_db of
     Inr (_, d) \<Rightarrow> d | Inl _ \<Rightarrow> empty_db)"

definition retry_runs_db :: db where
  "retry_runs_db = (case dispatch_next (core_world retried_db) (Some 7, None) retried_db of
     Inr (_, d) \<Rightarrow> d | Inl _ \<Rightarrow> empty_db)"

theorem retried_deploy_can_lose_its_record_witness:
  "job_running retry_runs_db (jobs retry_runs_db ! 1) \<and>
   (\<exists>d3. unlink (core_world retry_runs_db) platform [7] retry_runs_db = Inr d3 \<and> instances d3 7 = None \<and>
     (\<exists>y \<in> set (jobs d3). jid y = 2 \<and> state y = Some Pending \<and> instance_id y = None))"
proof -
  let ?r = "retry_job (core_world failed_db) platform (hd (jobs failed_db)) failed_db"
  let ?n = "dispatch_next (core_world retried_db) (Some 7, None) retried_db"
  let ?x = "jobs retry_runs_db ! 1"
  have "(case ?r of Inr _ \<Rightarrow> True | Inl _ \<Rightarrow> False)" by code_simp
  then have r: "?r = Inr (fst (projr ?r), retried_db)" by (simp add: retried_db_def split: sum.splits prod.splits)
  have "(case ?n of Inr _ \<Rightarrow> True | Inl _ \<Rightarrow> False)" by code_simp
  then have "?n = Inr (fst (projr ?n), retry_runs_db)" by (simp add: retry_runs_db_def split: sum.splits prod.splits)
  then have n: "seen lives retry_runs_db = seen lives retried_db" by (rule life.seen_dispatch_next [OF core_blind])
  have x: "life_of 7 failed_db = Some Draft" "waits_on [7] retry_runs_db = []" "is_su platform"
    "job_running retry_runs_db ?x" "is_deploy_of 7 ?x" "jid ?x = 2" "state ?x = Some Pending" "length (jobs retry_runs_db) = 2"
    by code_simp+
  then have "?x \<in> set (jobs retry_runs_db)" by simp
  from retried_deploy_can_lose_its_record [OF r x(1) n x(2,3) this x(5)] show ?thesis using x(4,6,7) by simp
qed



section \<open>The hooks and the queue\<close>

lemma write_inst_rows:
  "jobs (write_inst i f d) = jobs d" "qjobs (write_inst i f d) = qjobs d" "next_job_id (write_inst i f d) = next_job_id d"
  "next_uuid (write_inst i f d) = next_uuid d" "held_locks (write_inst i f d) = held_locks d"
  "postcommit (write_inst i f d) = postcommit d"
  by (simp_all add: write_inst_def)

text \<open>Nothing the queue runs on is touched.\<close>

definition no_queue_change :: "db \<Rightarrow> db \<Rightarrow> bool" where
  "no_queue_change d d' \<longleftrightarrow> jobs d' = jobs d \<and> qjobs d' = qjobs d \<and> next_job_id d' = next_job_id d \<and>
     next_uuid d' = next_uuid d \<and> held_locks d' = held_locks d \<and> postcommit d' = postcommit d"

lemma no_queue_change_effect: "wf_db d \<Longrightarrow> no_queue_change d d' \<Longrightarrow> hook_effect w d d'"
proof -
  assume "wf_db d" and n: "no_queue_change d d'"
  have "wf_db d' = wf_db d"
    using n unfolding wf_db_def wf_ids_def ids_positive_def one_link_def queue_job_running_def no_queue_change_def
    by (elim conjE) (simp only:)
  then show "hook_effect w d d'" using \<open>wf_db d\<close> n by (simp add: hook_effect_def no_queue_change_def)
qed

lemma move_from_no_queue: "move_from s t i d = Inr d' \<Longrightarrow> no_queue_change d d'"
  by (auto simp: move_from_def transition_def no_queue_change_def write_inst_rows split: option.splits if_splits)

lemma raise_no_queue: "no_queue_change d (snd (raise_alert c cr h x k y d))"
  by (simp add: no_queue_change_def raise_alert_def split: option.split)

lemma no_queue_trans: "no_queue_change a b \<Longrightarrow> no_queue_change b c \<Longrightarrow> no_queue_change a c"
  by (simp add: no_queue_change_def)

lemma status_no_queue: "no_queue_change d d' \<Longrightarrow> no_queue_change d (write_inst i f d')"
  by (simp add: no_queue_change_def write_inst_rows)

lemma no_queue_refl [simp]: "no_queue_change d d"
  by (simp add: no_queue_change_def)

lemma deploy_on_failure_no_queue:
  assumes "deploy_on_failure stopped addon me i d = Inr d'"
  shows "no_queue_change d d'"
proof -
  obtain d1 d2 where d1: "no_queue_change d d1" and d2: "no_queue_change d1 d2"
    and d': "move_from Deploying Draft i (write_inst i (\<lambda>r. r\<lparr>i_status_ok := False\<rparr>) d2) = Inr d'"
  proof
    let ?d1 = "case instances d i of None \<Rightarrow> d
      | Some r \<Rightarrow> if i_pip_conflicts r \<and> \<not> stopped then snd (raise_alert ''pip_conflict'' False None (Some i) None None d) else d"
    let ?d2 = "if addon \<and> \<not> stopped then snd (raise_alert ''addon_conflict'' True None (Some i) (Some me) None ?d1) else ?d1"
    show "no_queue_change d ?d1" by (simp add: raise_no_queue split: option.split)
    show "no_queue_change ?d1 ?d2" by (simp add: raise_no_queue)
    show "move_from Deploying Draft i (write_inst i (\<lambda>r. r\<lparr>i_status_ok := False\<rparr>) ?d2) = Inr d'"
      using assms unfolding deploy_on_failure_def Let_def .
  qed
  have "no_queue_change d (write_inst i (\<lambda>r. r\<lparr>i_status_ok := False\<rparr>) d2)"
    by (rule status_no_queue [OF no_queue_trans [OF d1 d2]])
  then show ?thesis by (rule no_queue_trans [OF _ move_from_no_queue [OF d']])
qed

lemma delete_on_abort_no_queue:
  assumes "delete_on_abort owns host me i d = Inr d'"
  shows "no_queue_change d d'"
proof -
  have "alert_on_purge_failure None None host me i d = d" by (simp add: alert_on_purge_failure_def)
  then show ?thesis
    using assms move_from_no_queue status_no_queue [OF no_queue_refl] no_queue_trans
    by (fastforce simp: delete_on_abort_def delete_on_failure_def split: if_splits)
qed

lemma on_instance_no_queue:
  assumes "\<And>j i d d'. f j i d = Inr d' \<Longrightarrow> no_queue_change d d'" and "on_instance_of c k f d = Some d'"
  shows "no_queue_change d d'"
  using assms by (auto simp: on_instance_of_def no_queue_change_def split: option.splits if_splits sum.splits)

lemma run_closed_no_queue:
  assumes "run_closed_hook stopped addon_error k d = Some d'"
  shows "no_queue_change d d'"
proof -
  obtain d1 where d: "on_instance_of ''deploy_instance'' k (\<lambda>j. deploy_on_failure stopped (addon_error k) k) d = Some d1"
      "on_instance_of ''delete_instance'' k (\<lambda>j. delete_on_abort True (host_id j) k) d1 = Some d'"
    using assms by (auto simp: run_closed_hook_def bind_eq_Some_conv)
  show ?thesis
    by (rule no_queue_trans [OF on_instance_no_queue [OF _ d(1)] on_instance_no_queue [OF _ d(2)]])
      (auto intro: deploy_on_failure_no_queue delete_on_abort_no_queue)
qed

text \<open>The hooks of a deploy and of a teardown, whatever calls them, keep to what the
  queue relies on: they write no job, dispatch nothing and take no lock. So the
  guarantees of the queue hold with these executors registered.\<close>

theorem lifecycle_hooks_keep_the_queue: "hooks_ok (w\<lparr>hooks := lifecycle_hook addon_error\<rparr>)"
proof -
  have "no_queue_change d d'" if "lifecycle_hook addon_error h d = Some d'" for h d d'
    using that
    by (cases h)
      (auto simp: deploy_on_cancelled_queued_def deploy_on_never_run_def deploy_on_unblocked_def
        intro: on_instance_no_queue move_from_no_queue run_closed_no_queue)
  then show ?thesis using no_queue_change_effect by (auto simp: hooks_ok_def)
qed

end
