(* ===== verification/Autopurge.thy ===== *)
theory Autopurge
  imports Life_Facts
begin

text \<open>
  The autopurge of stagings (\<^verbatim>\<open>models/cloud_instance.py\<close>,
  \<^verbatim>\<open>models/read_last_login_executor.py\<close>, \<^verbatim>\<open>_seal_autopurge_clock\<close> of
  \<^verbatim>\<open>models/queue_job_ext.py\<close>, \<^verbatim>\<open>cloud_keep_instance\<close> of
  \<^verbatim>\<open>controllers/_data_load/_routes_crud.py\<close>): the two activity clocks, the ladder of
  two warnings and a deletion, its cron, and what starts the window over. The parser of
  ISO dates is an argument, and so are the order in which the table is read, what the
  layers keep out of maintenance, and the instances whose step raises.
\<close>

section \<open>The clocks\<close>

definition DAY :: int where
  "DAY = 24 * 60 * 60"

definition AUTOPURGE_WARN_DAYS :: int where
  "AUTOPURGE_WARN_DAYS = 14"

definition AUTOPURGE_FINAL_DAYS :: int where
  "AUTOPURGE_FINAL_DAYS = 3"

definition AUTOPURGE_WARN_ALERT_CODE :: string where
  "AUTOPURGE_WARN_ALERT_CODE = ''staging_expiring''"

definition AUTOPURGE_FINAL_ALERT_CODE :: string where
  "AUTOPURGE_FINAL_ALERT_CODE = ''staging_expiring_final''"

definition autopurge_clock :: "instance_rec \<Rightarrow> int option" where
  "autopurge_clock r =
     (case (i_last_touched_at r, i_last_login_seen_at r) of
        (None, x) \<Rightarrow> x
      | (Some t, None) \<Rightarrow> Some t
      | (Some t, Some l) \<Rightarrow> Some (max t l))"

definition autopurge_days_left :: "int \<Rightarrow> int \<Rightarrow> instance_rec \<Rightarrow> int option" where
  "autopurge_days_left window now r =
     (if i_environment r \<noteq> Staging \<or> i_autopurge_exempt r then None
      else if i_autopurge_warned_at r = None then None
      else case autopurge_clock r of
             None \<Rightarrow> None
           | Some c \<Rightarrow> if window = 0 then None
                       else Some (max 0 ((c + window * DAY - now) div DAY)))"

definition touch_autopurge_clock :: "world \<Rightarrow> int \<Rightarrow> nat list \<Rightarrow> db \<Rightarrow> nat list \<times> db" where
  "touch_autopurge_clock w now ids d =
     (let stagings = filter (\<lambda>i. case instances d i of None \<Rightarrow> False | Some r \<Rightarrow> i_environment r = Staging) ids;
          d1 = fold (\<lambda>i. write_inst i (\<lambda>r. r\<lparr>i_last_touched_at := Some now, i_autopurge_warned_at := None,
                                              i_autopurge_final_warned_at := None\<rparr>)) stagings d
      in (stagings, fold (\<lambda>i d. resolve_alert w AUTOPURGE_FINAL_ALERT_CODE None (Some i) None
                                  (resolve_alert w AUTOPURGE_WARN_ALERT_CODE None (Some i) None d)) stagings d1))"

text \<open>A finished job counts as use when a person could have went it and one did;
  the touch waits for the job's commit.\<close>

definition seal_due :: "world \<Rightarrow> (nat \<Rightarrow> bool) \<Rightarrow> nat option \<Rightarrow> cloud_job \<Rightarrow> bool" where
  "seal_due w share robot j \<longleftrightarrow>
     given (instance_id j) \<and> job_type_id j \<notin> set (hidden_job_types w) \<and> \<not> share (create_uid j) \<and>
     Some (create_uid j) \<noteq> robot"

definition seal_autopurge_clock :: "world \<Rightarrow> int \<Rightarrow> nat \<Rightarrow> db \<Rightarrow> db" where
  "seal_autopurge_clock w now i d =
     (if instances d i = None then d else snd (touch_autopurge_clock w now [i] d))"

datatype keep_answer = Keep_refused access_error | Keep_not_found | Keep_not_staging | Kept "int option"

definition keep_instance :: "world \<Rightarrow> caller \<Rightarrow> int \<Rightarrow> int \<Rightarrow> nat \<Rightarrow> db \<Rightarrow> keep_answer \<times> db" where
  "keep_instance w c window now i d =
     (case check_cloud_group c Group_cloud_consultant of Inl e \<Rightarrow> (Keep_refused e, d) | Inr _ \<Rightarrow>
     (case instances d i of None \<Rightarrow> (Keep_not_found, d) | Some r \<Rightarrow>
      if i_environment r \<noteq> Staging then (Keep_not_staging, d)
      else let d1 = add_audit ''Keep instance'' (Some i) (case i_host_id r of None \<Rightarrow> 0 | Some h \<Rightarrow> h) 0
                      (snd (touch_autopurge_clock w now [i] d))
           in (Kept (Option.bind (instances d1 i) (autopurge_days_left window now)), d1)))"

section \<open>Reading the last login\<close>

fun text_lines :: "pystr \<Rightarrow> pystr list" where
  "text_lines [] = [[]]"
| "text_lines (c # s) =
     (if c = 10 then [] # text_lines s
      else case text_lines s of [] \<Rightarrow> [[c]] | l # ls \<Rightarrow> (c # l) # ls)"

text \<open>\<^verbatim>\<open>^LAST_LOGIN (\S+)$\<close>, in any line.\<close>

definition answer_in :: "pystr \<Rightarrow> pystr option" where
  "answer_in line =
     (let p = lit ''LAST_LOGIN ''; word = drop (length p) line
      in if take (length p) line = p \<and> word \<noteq> [] \<and> list_all (\<lambda>c. \<not> py_space c) word then Some word else None)"

definition parse_answer :: "(pystr \<Rightarrow> int option) \<Rightarrow> int \<Rightarrow> pystr \<Rightarrow> int option" where
  "parse_answer isodate now stdout =
     (case List.map_filter answer_in (text_lines stdout) of
        [] \<Rightarrow> None
      | raw # _ \<Rightarrow> if raw = lit ''none'' then None else map_option (min now) (isodate raw))"

definition login_on_success :: "(pystr \<Rightarrow> int option) \<Rightarrow> int \<Rightarrow> pystr \<Rightarrow> nat \<Rightarrow> db \<Rightarrow> db" where
  "login_on_success isodate now stdout i d =
     (case parse_answer isodate now stdout of
        None \<Rightarrow> d
      | Some stamp \<Rightarrow>
          (case Option.bind (instances d i) i_last_login_seen_at of
             Some l \<Rightarrow> if stamp \<le> l then d else write_inst i (\<lambda>r. r\<lparr>i_last_login_seen_at := Some stamp\<rparr>) d
           | None \<Rightarrow> write_inst i (\<lambda>r. r\<lparr>i_last_login_seen_at := Some stamp\<rparr>) d))"

text \<open>\<^verbatim>\<open>cron_read_staging_logins\<close>: a reading is queued for every staging that can answer;
  one that cannot be queued costs the others nothing.\<close>

fun queue_readings :: "world \<Rightarrow> actor \<Rightarrow> nat list \<Rightarrow> db \<Rightarrow> nat \<times> db" where
  "queue_readings w a [] d = (0, d)"
| "queue_readings w a (i # is) d =
     (case Option.bind (instances d i) i_host_id of
        None \<Rightarrow> queue_readings w a is d
      | Some h \<Rightarrow>
          (case enqueue w a h (Some i) ''read_last_login'' None False d of
             Inl _ \<Rightarrow> queue_readings w a is d
           | Inr (_, d1) \<Rightarrow> (case queue_readings w a is d1 of (n, d2) \<Rightarrow> (Suc n, d2))))"

definition cron_read_staging_logins ::
  "world \<Rightarrow> actor \<Rightarrow> int \<Rightarrow> (instance_rec \<Rightarrow> bool) \<Rightarrow> nat list \<Rightarrow> db \<Rightarrow> nat \<times> db" where
  "cron_read_staging_logins w a window maintained order d =
     (if window = 0 then (0, d)
      else queue_readings w a
             (filter (\<lambda>i. case instances d i of
                            None \<Rightarrow> False
                          | Some r \<Rightarrow> i_active r \<and> i_environment r = Staging \<and> i_deployed r \<and> i_running r \<and>
                                      \<not> i_autopurge_exempt r \<and> maintained r) order) d)"

section \<open>The ladder\<close>

datatype rung = Rung_warned | Rung_final_warned | Rung_deleted

text \<open>The deletion, in a savepoint: through the queue when there is something on a host,
  and the record itself when there is not. A refusal takes the audit row back and is
  said in an alert.\<close>

definition autopurge_delete :: "world \<Rightarrow> actor \<Rightarrow> actor \<Rightarrow> nat \<Rightarrow> instance_rec \<Rightarrow> db \<Rightarrow> bool \<times> db" where
  "autopurge_delete w a robot i r d =
     (let d1 = add_audit ''Autopurge'' (Some i) (case i_host_id r of None \<Rightarrow> 0 | Some h \<Rightarrow> h) 0 d;
          went = (case i_host_id r of
                       Some h \<Rightarrow>
                         if i_deployed r
                         then (case enqueue w (sudo robot) h (Some i) ''delete_instance'' None False d1 of
                                 Inl _ \<Rightarrow> None | Inr (_, d2) \<Rightarrow> Some d2)
                         else (case unlink w (sudo a) [i] d1 of Inl _ \<Rightarrow> None | Inr d2 \<Rightarrow> Some d2)
                     | None \<Rightarrow> (case unlink w (sudo a) [i] d1 of Inl _ \<Rightarrow> None | Inr d2 \<Rightarrow> Some d2))
      in case went of
           Some d2 \<Rightarrow> (True, d2)
         | None \<Rightarrow> (False, snd (raise_alert ''staging_autopurge_stuck'' False None (Some i) None None d)))"

definition autopurge_step ::
  "world \<Rightarrow> actor \<Rightarrow> actor \<Rightarrow> int \<Rightarrow> int \<Rightarrow> nat \<Rightarrow> instance_rec \<Rightarrow> db \<Rightarrow> rung option \<times> db" where
  "autopurge_step w a robot now deadline i r d =
     (case i_autopurge_warned_at r of
        None \<Rightarrow>
          if now < deadline - AUTOPURGE_WARN_DAYS * DAY then (None, d)
          else (Some Rung_warned,
                write_inst i (\<lambda>r. r\<lparr>i_autopurge_warned_at := Some now\<rparr>)
                  (snd (raise_alert AUTOPURGE_WARN_ALERT_CODE False None (Some i) None None d)))
      | Some _ \<Rightarrow>
     (case i_autopurge_final_warned_at r of
        None \<Rightarrow>
          if now < deadline - AUTOPURGE_FINAL_DAYS * DAY then (None, d)
          else (Some Rung_final_warned,
                write_inst i (\<lambda>r. r\<lparr>i_autopurge_final_warned_at := Some now\<rparr>)
                  (snd (raise_alert AUTOPURGE_FINAL_ALERT_CODE True None (Some i) None None d)))
      | Some final \<Rightarrow>
          if now < deadline then (None, d)
          else if now < final + DAY then (None, d)
          else (case autopurge_delete w a robot i r d of
                  (went, d') \<Rightarrow> (if went then Some Rung_deleted else None, d'))))"

datatype outcome = Skipped | Stayed | Climbed rung

fun autopurge_loop ::
  "world \<Rightarrow> actor \<Rightarrow> actor \<Rightarrow> int \<Rightarrow> int \<Rightarrow> (nat \<Rightarrow> bool) \<Rightarrow> nat list \<Rightarrow> db \<Rightarrow> (nat \<times> outcome) list \<times> db" where
  "autopurge_loop w a robot window now breaks [] d = ([], d)"
| "autopurge_loop w a robot window now breaks (i # is) d =
     (let (out, d1) =
        (case instances d i of
           None \<Rightarrow> (Skipped, d)
         | Some r \<Rightarrow>
             (case autopurge_clock r of
                None \<Rightarrow> (Skipped, d)
              | Some c \<Rightarrow>
                  if breaks i then (Skipped, d)
                  else (case autopurge_step w a robot now (c + window * DAY) i r d of
                          (None, d') \<Rightarrow> (Stayed, d')
                        | (Some rung, d') \<Rightarrow> (Climbed rung, d'))));
          (outs, d2) = autopurge_loop w a robot window now breaks is d1
      in ((i, out) # outs, d2))"

record tally =
  warned :: nat
  final_warned :: nat
  deleted_count :: nat
  skipped :: nat

definition tally_of :: "(nat \<times> outcome) list \<Rightarrow> tally" where
  "tally_of outs =
     \<lparr>warned = length (filter (\<lambda>x. snd x = Climbed Rung_warned) outs),
      final_warned = length (filter (\<lambda>x. snd x = Climbed Rung_final_warned) outs),
      deleted_count = length (filter (\<lambda>x. snd x = Climbed Rung_deleted) outs),
      skipped = length (filter (\<lambda>x. snd x = Skipped) outs)\<rparr>"

definition autopurge_candidates :: "(instance_rec \<Rightarrow> bool) \<Rightarrow> nat list \<Rightarrow> db \<Rightarrow> nat list" where
  "autopurge_candidates maintained order d =
     filter (\<lambda>i. case instances d i of
                   None \<Rightarrow> False
                 | Some r \<Rightarrow> i_active r \<and> i_environment r = Staging \<and> \<not> i_autopurge_exempt r \<and> maintained r) order"

definition cron_autopurge_stagings ::
  "world \<Rightarrow> actor \<Rightarrow> actor \<Rightarrow> int \<Rightarrow> int \<Rightarrow> (instance_rec \<Rightarrow> bool) \<Rightarrow> (nat \<Rightarrow> bool) \<Rightarrow> nat list \<Rightarrow> db
     \<Rightarrow> (nat \<times> outcome) list \<times> db" where
  "cron_autopurge_stagings w a robot window now maintained breaks order d =
     (if window = 0 then ([], d)
      else autopurge_loop w a robot window now breaks (autopurge_candidates maintained order d) d)"

end
