(* ===== verification/Purge_Facts.thy ===== *)
theory Purge_Facts
  imports Autopurge
begin

text \<open>
  What the autopurge guarantees, in every history of uses, readings and ticks of its
  cron: nothing is deleted but after both warnings, and what a reading of a login does
  not do.
\<close>

section \<open>The stamps\<close>

type_synonym stamps = "int option \<times> int option \<times> int option \<times> int option"

definition stamps_of :: "instance_rec \<Rightarrow> stamps" where
  "stamps_of r = (i_last_touched_at r, i_last_login_seen_at r, i_autopurge_warned_at r, i_autopurge_final_warned_at r)"

definition stamps :: "(nat \<rightharpoonup> instance_rec) \<Rightarrow> nat \<rightharpoonup> stamps" where
  "stamps m = (\<lambda>i. map_option stamps_of (m i))"

interpretation notice: instance_view stamps
  by unfold_locales (auto simp: stamps_def stamps_of_def fun_eq_iff)

lemma seen_stamps: "instances d i = Some r \<Longrightarrow> seen stamps d i = Some (stamps_of r)"
  by (simp add: seen_def stamps_def)

lemma stamps_write:
  "seen stamps (write_inst i f d) = (seen stamps d)(i := map_option (stamps_of \<circ> f) (instances d i))"
  by (auto simp: seen_def stamps_def write_inst_def fun_eq_iff option.map_comp)

lemma stamps_write_seen:
  assumes "seen stamps d = seen stamps d0" and "instances d0 i = Some r"
    and "\<And>x. stamps_of x = stamps_of r \<Longrightarrow> stamps_of (f x) = s"
  shows "seen stamps (write_inst i f d) = (seen stamps d0)(i \<mapsto> s)"
proof -
  have "map_option stamps_of (instances d i) = Some (stamps_of r)"
    using assms(1) seen_stamps [OF assms(2)] by (simp add: seen_def stamps_def fun_eq_iff)
  then obtain x where "instances d i = Some x" "stamps_of x = stamps_of r" by auto
  then show ?thesis using assms(1,3) by (simp add: stamps_write)
qed

lemma unlink_stamps:
  assumes "hooks_blind stamps w" and "unlink w a [i] d = Inr d'"
  shows "seen stamps d' = (seen stamps d)(i := None)"
proof -
  have "seen stamps (drop_rows [i] x) = (seen stamps x)(i := None)" for x
    by (auto simp: drop_rows_def Let_def seen_def stamps_def fun_eq_iff)
  then show ?thesis using unlink_drops [OF notice.instance_view_axioms assms] by auto
qed

lemma delete_stamps:
  assumes "hooks_blind stamps w" and "autopurge_delete w a robot i r d = (b, d')"
  shows "seen stamps d' = seen stamps d \<or> (b \<and> seen stamps d' = (seen stamps d)(i := None))"
  using assms(2) unlink_stamps [OF assms(1)] notice.seen_enqueue [OF assms(1)]
  by (fastforce simp: autopurge_delete_def Let_def split: option.splits if_splits sum.splits)

text \<open>What one step of the ladder requires and writes.\<close>

definition step_effect ::
  "int \<Rightarrow> int \<Rightarrow> nat \<Rightarrow> stamps \<Rightarrow> rung option \<Rightarrow> (nat \<rightharpoonup> stamps) \<Rightarrow> (nat \<rightharpoonup> stamps) \<Rightarrow> bool" where
  "step_effect now deadline i x out L L' \<longleftrightarrow>
     (case x of (t, l, wn, fn) \<Rightarrow>
       (case out of
          None \<Rightarrow> L' = L
        | Some Rung_warned \<Rightarrow> wn = None \<and> L' = L(i \<mapsto> (t, l, Some now, fn))
        | Some Rung_final_warned \<Rightarrow> wn \<noteq> None \<and> fn = None \<and> L' = L(i \<mapsto> (t, l, wn, Some now))
        | Some Rung_deleted \<Rightarrow>
            (\<exists>f. fn = Some f \<and> f + DAY \<le> now) \<and> wn \<noteq> None \<and> deadline \<le> now \<and> (L' = L \<or> L' = L(i := None))))"

lemma step_stamps:
  assumes "hooks_blind stamps w" and r: "instances d i = Some r"
    and "autopurge_step w a robot now deadline i r d = (out, d')"
  shows "step_effect now deadline i (stamps_of r) out (seen stamps d) (seen stamps d')"
proof -
  have w: "seen stamps (write_inst i f (snd (raise_alert c cr None (Some i) None None d))) = (seen stamps d)(i \<mapsto> s)"
    if "\<And>x. stamps_of x = stamps_of r \<Longrightarrow> stamps_of (f x) = s" for f c cr s
    by (rule stamps_write_seen [OF _ r that]) simp_all
  show ?thesis
  proof (cases "i_autopurge_warned_at r")
    case None
    then show ?thesis
      using assms(3) w [of "\<lambda>r. r\<lparr>i_autopurge_warned_at := Some now\<rparr>"]
      by (auto simp: autopurge_step_def step_effect_def stamps_of_def split: if_splits)
  next
    case (Some x)
    show ?thesis
    proof (cases "i_autopurge_final_warned_at r")
      case None
      then show ?thesis
        using assms(3) Some w [of "\<lambda>r. r\<lparr>i_autopurge_final_warned_at := Some now\<rparr>"]
        by (auto simp: autopurge_step_def step_effect_def stamps_of_def split: if_splits)
    next
      case (Some y)
      then show ?thesis
        using assms(3) \<open>i_autopurge_warned_at r = Some x\<close> delete_stamps [OF assms(1)]
        by (fastforce simp: autopurge_step_def step_effect_def stamps_of_def split: if_splits prod.splits)
    qed
  qed
qed

section \<open>Histories\<close>

text \<open>What happened to the stagings, the newest first: an instance was created or used, a
  login of it was read, or a tick of the cron, with its window and at its moment, took a
  rung.\<close>

datatype purge_event =
    Touched nat int
  | Login nat int
  | Took nat rung int int

definition not_touch :: "nat \<Rightarrow> purge_event \<Rightarrow> bool" where
  "not_touch i e \<longleftrightarrow> (\<forall>t. e \<noteq> Touched i t)"

definition since_touch :: "nat \<Rightarrow> purge_event list \<Rightarrow> purge_event list" where
  "since_touch i es = takeWhile (not_touch i) es"

fun about :: "purge_event \<Rightarrow> nat" where
  "about (Touched i t) = i"
| "about (Login i t) = i"
| "about (Took i r t win) = i"

fun took_of :: "int \<Rightarrow> int \<Rightarrow> nat \<times> outcome \<Rightarrow> purge_event list" where
  "took_of now window (i, Climbed r) = [Took i r now window]"
| "took_of now window (i, Skipped) = []"
| "took_of now window (i, Stayed) = []"

text \<open>The newest first: the tick's first instance is deepest.\<close>

fun took_all :: "int \<Rightarrow> int \<Rightarrow> (nat \<times> outcome) list \<Rightarrow> purge_event list" where
  "took_all now window [] = []"
| "took_all now window (x # xs) = took_all now window xs @ took_of now window x"

text \<open>The hooks of the queue's operations leave the stamps alone, and so does whatever else
  the panel does; a record may go, and a new one has an id nothing is told of.\<close>

inductive purge_history :: "purge_event list \<Rightarrow> db \<Rightarrow> bool" where
  start: "purge_history [] (empty_db\<lparr>types := t\<rparr>)"
| born: "purge_history es d \<Longrightarrow> instances d i = None \<Longrightarrow> i \<notin> about ` set es \<Longrightarrow>
    \<not> has_key vals ''last_touched_at'' \<Longrightarrow>
    create_instance a backend vals row clash i now d = Inr d' \<Longrightarrow> i_last_login_seen_at row = None \<Longrightarrow>
    purge_history (Touched i now # es) d'"
| used: "purge_history es d \<Longrightarrow> touch_autopurge_clock w now [i] d = ([i], d') \<Longrightarrow>
    purge_history (Touched i now # es) d'"
| read_login: "purge_history es d \<Longrightarrow> parse_answer isodate now stdout = Some stamp \<Longrightarrow>
    instances d i \<noteq> None \<Longrightarrow>
    purge_history (Login i stamp # es) (login_on_success isodate now stdout i d)"
| tick: "purge_history es d \<Longrightarrow> hooks_blind stamps w \<Longrightarrow>
    cron_autopurge_stagings w a robot window now maintained breaks order d = (outs, d') \<Longrightarrow>
    purge_history (took_all now window outs @ es) d'"
| removed: "purge_history es d \<Longrightarrow> hooks_blind stamps w \<Longrightarrow> unlink w a [i] d = Inr d' \<Longrightarrow> purge_history es d'"
| other: "purge_history es d \<Longrightarrow> seen stamps d' = seen stamps d \<Longrightarrow> purge_history es d'"

text \<open>What the stamps of an instance say of the events.\<close>

definition vouched :: "purge_event list \<Rightarrow> nat \<Rightarrow> int option \<Rightarrow> int option \<Rightarrow> int option \<Rightarrow> int option \<Rightarrow> bool" where
  "vouched es i t l wn fn \<longleftrightarrow>
     (\<forall>x. wn = Some x \<longrightarrow> (\<exists>win. Took i Rung_warned x win \<in> set (since_touch i es))) \<and>
     (\<forall>y. fn = Some y \<longrightarrow>
        (\<exists>as bs win x win'. since_touch i es = as @ Took i Rung_final_warned y win # bs \<and>
                             Took i Rung_warned x win' \<in> set bs)) \<and>
     (\<forall>as u bs. es = as @ Touched i u # bs \<longrightarrow> list_all (not_touch i) as \<longrightarrow> t = Some u) \<and>
     (\<forall>s. Login i s \<in> set es \<longrightarrow> (\<exists>m. l = Some m \<and> s \<le> m))"

definition all_vouched :: "purge_event list \<Rightarrow> (nat \<rightharpoonup> stamps) \<Rightarrow> bool" where
  "all_vouched es L \<longleftrightarrow> (\<forall>i t l wn fn. L i = Some (t, l, wn, fn) \<longrightarrow> vouched es i t l wn fn)"

text \<open>A deletion at \<open>t\<close> was announced: a final warning at least a day before, a first one
  before that, nothing used the instance since the first, and the window had passed
  since its last use and since every login read of it.\<close>

definition announced :: "nat \<Rightarrow> int \<Rightarrow> int \<Rightarrow> purge_event list \<Rightarrow> bool" where
  "announced i t win es \<longleftrightarrow>
     (\<exists>as bs y win1 x win2. since_touch i es = as @ Took i Rung_final_warned y win1 # bs \<and> y + DAY \<le> t \<and>
        Took i Rung_warned x win2 \<in> set bs) \<and>
     (\<forall>as u bs. es = as @ Touched i u # bs \<longrightarrow> list_all (not_touch i) as \<longrightarrow> u + win * DAY \<le> t) \<and>
     (\<forall>s. Login i s \<in> set es \<longrightarrow> s + win * DAY \<le> t)"

fun fair :: "purge_event list \<Rightarrow> bool" where
  "fair [] \<longleftrightarrow> True"
| "fair (Took i Rung_deleted t win # es) \<longleftrightarrow> announced i t win es \<and> fair es"
| "fair (e # es) \<longleftrightarrow> fair es"

lemma fair_split: "fair (xs @ Took i Rung_deleted t win # ys) \<Longrightarrow> announced i t win ys"
  by (induction "xs @ Took i Rung_deleted t win # ys" arbitrary: xs rule: fair.induct) (auto simp: Cons_eq_append_conv)

lemma since_cons: "since_touch i (e # es) = (if not_touch i e then e # since_touch i es else [])"
  by (simp add: since_touch_def)

lemma first_touch_cons:
  "e # es = as @ Touched i u # bs \<Longrightarrow> list_all (not_touch i) as \<Longrightarrow> not_touch i e \<Longrightarrow>
     \<exists>as'. es = as' @ Touched i u # bs \<and> list_all (not_touch i) as'"
  by (cases as) (auto simp: not_touch_def)

lemma vouchedD:
  assumes "vouched es i t l wn fn"
  shows "wn = Some x \<Longrightarrow> \<exists>win. Took i Rung_warned x win \<in> set (since_touch i es)"
    "fn = Some y \<Longrightarrow> \<exists>as bs win x win'. since_touch i es = as @ Took i Rung_final_warned y win # bs \<and>
        Took i Rung_warned x win' \<in> set bs"
    "es = as @ Touched i u # bs \<Longrightarrow> list_all (not_touch i) as \<Longrightarrow> t = Some u"
    "Login i s \<in> set es \<Longrightarrow> \<exists>m. l = Some m \<and> s \<le> m"
  by (use assms in \<open>simp add: vouched_def\<close>, use assms in \<open>simp add: vouched_def\<close>,
      use assms [unfolded vouched_def] in blast, use assms in \<open>simp add: vouched_def\<close>)

text \<open>An event that is no use of the instance keeps what is vouched for.\<close>

lemma vouched_cons:
  assumes "vouched es i t l wn fn" and "not_touch i e" and "\<And>s. e = Login i s \<Longrightarrow> \<exists>m. l' = Some m \<and> s \<le> m"
    and "\<And>m. l = Some m \<Longrightarrow> \<exists>m'. l' = Some m' \<and> m \<le> m'"
  shows "vouched (e # es) i t l' wn fn"
proof -
  have s: "since_touch i (e # es) = e # since_touch i es" using assms(2) by (simp add: since_cons)
  show ?thesis
    unfolding vouched_def s
  proof (intro conjI allI impI)
    fix x assume "wn = Some x"
    then show "\<exists>win. Took i Rung_warned x win \<in> set (e # since_touch i es)"
      using vouchedD(1) [OF assms(1)] by auto
  next
    fix y assume "fn = Some y"
    then obtain as bs win x win' where "since_touch i es = as @ Took i Rung_final_warned y win # bs"
        "Took i Rung_warned x win' \<in> set bs"
      using vouchedD(2) [OF assms(1)] by blast
    then show "\<exists>as bs win x win'. e # since_touch i es = as @ Took i Rung_final_warned y win # bs \<and>
        Took i Rung_warned x win' \<in> set bs"
      by (metis append_Cons)
  next
    fix as u bs assume "e # es = as @ Touched i u # bs" "list_all (not_touch i) as"
    then show "t = Some u" using first_touch_cons [OF _ _ assms(2)] vouchedD(3) [OF assms(1)] by blast
  next
    fix s assume "Login i s \<in> set (e # es)"
    then show "\<exists>m. l' = Some m \<and> s \<le> m"
      using vouchedD(4) [OF assms(1)] assms(3,4) by (fastforce intro: order_trans)
  qed
qed

lemma vouched_other:
  assumes "vouched es i t l wn fn" and "about e \<noteq> i"
  shows "vouched (e # es) i t l wn fn"
  by (rule vouched_cons [OF assms(1)]) (use assms(2) in \<open>auto simp: not_touch_def\<close>)

lemma vouched_touch:
  assumes "\<And>s. Login i s \<in> set es \<Longrightarrow> \<exists>m. l = Some m \<and> s \<le> m"
  shows "vouched (Touched i u # es) i (Some u) l None None"
  unfolding vouched_def using assms by (auto simp: Cons_eq_append_conv not_touch_def)

lemma vouched_warn:
  assumes "vouched es i t l None fn"
  shows "vouched (Took i Rung_warned x win # es) i t l (Some x) fn"
proof -
  have "vouched (Took i Rung_warned x win # es) i t l None fn"
    by (rule vouched_cons [OF assms]) (auto simp: not_touch_def)
  then show ?thesis unfolding vouched_def by (auto simp: since_cons not_touch_def)
qed

lemma vouched_final:
  assumes "vouched es i t l (Some x) None"
  shows "vouched (Took i Rung_final_warned y win # es) i t l (Some x) (Some y)"
proof -
  obtain win' where "Took i Rung_warned x win' \<in> set (since_touch i es)" using vouchedD(1) [OF assms] by blast
  moreover have "vouched (Took i Rung_final_warned y win # es) i t l (Some x) None"
    by (rule vouched_cons [OF assms]) (auto simp: not_touch_def)
  ultimately show ?thesis unfolding vouched_def by (force simp: since_cons not_touch_def)
qed

lemma all_vouched_drop: "all_vouched es L \<Longrightarrow> all_vouched es (L(i := None))"
  by (simp add: all_vouched_def)

text \<open>A rung taken by one instance.\<close>

lemma step_vouched:
  assumes v: "all_vouched es L" and L: "L i = Some (t, l, wn, fn)"
    and c: "autopurge_clock r = Some c" "stamps_of r = (t, l, wn, fn)"
    and s: "step_effect now (c + window * DAY) i (t, l, wn, fn) (Some k) L L'"
    and f: "fair es"
  shows "all_vouched (Took i k now window # es) L' \<and> fair (Took i k now window # es)"
proof -
  let ?e = "Took i k now window"
  have me: "vouched es i t l wn fn" using v L by (simp add: all_vouched_def)
  have others: "L j = Some (t', l', wn', fn') \<Longrightarrow> j \<noteq> i \<Longrightarrow> vouched (?e # es) j t' l' wn' fn'" for j t' l' wn' fn'
    using v vouched_other [of es j t' l' wn' fn' ?e] by (simp add: all_vouched_def)
  have same: "vouched (?e # es) i t l wn fn" by (rule vouched_cons [OF me]) (auto simp: not_touch_def)
  show ?thesis
  proof (cases k)
    case Rung_warned
    then show ?thesis using s me others vouched_warn f by (auto simp: step_effect_def all_vouched_def)
  next
    case Rung_final_warned
    then show ?thesis using s me others vouched_final f by (auto simp: step_effect_def all_vouched_def)
  next
    case Rung_deleted
    then obtain y x where y: "fn = Some y" "y + DAY \<le> now" "wn = Some x" "c + window * DAY \<le> now" "L' = L \<or> L' = L(i := None)"
      using s by (auto simp: step_effect_def)
    have after: "u + window * DAY \<le> now" if "u \<le> c" for u using that y(4) by simp
    have touched: "u + window * DAY \<le> now" if "t = Some u" for u
      by (rule after) (use c that in \<open>auto simp: autopurge_clock_def stamps_of_def split: option.splits\<close>)
    have login: "m + window * DAY \<le> now" if "l = Some m" for m
      by (rule after) (use c that in \<open>auto simp: autopurge_clock_def stamps_of_def split: option.splits\<close>)
    have "announced i now window es"
      unfolding announced_def
    proof (intro conjI allI impI)
      show "\<exists>as bs y win1 x win2. since_touch i es = as @ Took i Rung_final_warned y win1 # bs \<and> y + DAY \<le> now \<and>
          Took i Rung_warned x win2 \<in> set bs"
        using vouchedD(2) [OF me y(1)] y(2) by blast
    next
      fix as u bs assume "es = as @ Touched i u # bs" "list_all (not_touch i) as"
      then have "t = Some u" by (rule vouchedD(3) [OF me])
      then show "u + window * DAY \<le> now" by (rule touched)
    next
      fix s assume "Login i s \<in> set es"
      then obtain m where "l = Some m" "s \<le> m" using vouchedD(4) [OF me] by blast
      then show "s + window * DAY \<le> now" using login by fastforce
    qed
    moreover have "all_vouched (?e # es) L"
      unfolding all_vouched_def
    proof (intro allI impI)
      fix j t' l' wn' fn' assume "L j = Some (t', l', wn', fn')"
      then show "vouched (?e # es) j t' l' wn' fn'" using same others L by (cases "j = i") auto
    qed
    ultimately show ?thesis using Rung_deleted y(5) f all_vouched_drop by auto
  qed
qed

text \<open>What the cron does with one instance.\<close>

lemma one_vouched:
  assumes "hooks_blind stamps w" and v: "all_vouched es (seen stamps d)" "fair es"
    and r: "instances d i = Some r" "autopurge_clock r = Some c"
    and s: "autopurge_step w a robot now (c + window * DAY) i r d = (k, d1)"
    and out: "out = (case k of None \<Rightarrow> Stayed | Some x \<Rightarrow> Climbed x)"
  shows "all_vouched (took_of now window (i, out) @ es) (seen stamps d1) \<and> fair (took_of now window (i, out) @ es)"
proof -
  obtain t l wn fn where x: "stamps_of r = (t, l, wn, fn)" by (cases "stamps_of r") auto
  have e: "step_effect now (c + window * DAY) i (t, l, wn, fn) k (seen stamps d) (seen stamps d1)"
    using step_stamps [OF assms(1) r(1) s] x by simp
  show ?thesis
  proof (cases k)
    case None
    then show ?thesis using e v out by (simp add: step_effect_def)
  next
    case (Some y)
    then show ?thesis using step_vouched [OF v(1) _ r(2) x _ v(2)] seen_stamps [OF r(1)] x e out by simp
  qed
qed

lemma loop_vouched:
  assumes "hooks_blind stamps w" and "autopurge_loop w a robot window now breaks is d = (outs, d')"
    and "all_vouched es (seen stamps d)" and "fair es"
  shows "all_vouched (took_all now window outs @ es) (seen stamps d') \<and> fair (took_all now window outs @ es)"
  using assms(2-4)
proof (induction "is" arbitrary: d es outs)
  case (Cons i "is")
  have next_ones: ?case
    if "autopurge_loop w a robot window now breaks is d1 = (outs', d')" "outs = (i, out) # outs'"
      "all_vouched (took_of now window (i, out) @ es) (seen stamps d1) \<and> fair (took_of now window (i, out) @ es)"
    for d1 outs' out
    using Cons.IH [OF that(1)] that(2,3) by simp
  consider (skips) outs' where "autopurge_loop w a robot window now breaks is d = (outs', d')" "outs = (i, Skipped) # outs'"
    | (steps) r c k d1 outs' where "instances d i = Some r" "autopurge_clock r = Some c"
        "autopurge_step w a robot now (c + window * DAY) i r d = (k, d1)"
        "autopurge_loop w a robot window now breaks is d1 = (outs', d')"
        "outs = (i, case k of None \<Rightarrow> Stayed | Some x \<Rightarrow> Climbed x) # outs'"
    using Cons.prems(1) by (auto simp: Let_def split: option.splits prod.splits if_splits)
  then show ?case
  proof cases
    case skips
    then show ?thesis using next_ones [of d] Cons.prems(2,3) by simp
  next
    case steps
    show ?thesis
      by (rule next_ones [OF steps(4,5) one_vouched [OF assms(1) Cons.prems(2,3) steps(1-3) refl]])
  qed
qed simp

lemma all_vouched_update:
  assumes "all_vouched es L" and "about e = i" and "vouched (e # es) i t l wn fn"
  shows "all_vouched (e # es) (L(i \<mapsto> (t, l, wn, fn)))"
  using assms vouched_other [of es _ _ _ _ _ e] by (auto simp: all_vouched_def)

lemma touch_stamps:
  assumes "touch_autopurge_clock w now [i] d = ([i], d')"
  shows "\<exists>t l wn fn. seen stamps d i = Some (t, l, wn, fn) \<and> seen stamps d' = (seen stamps d)(i \<mapsto> (Some now, l, None, None))"
proof -
  obtain r where r: "instances d i = Some r" "i_environment r = Staging"
    using assms by (auto simp: touch_autopurge_clock_def Let_def split: if_splits option.splits)
  then have "seen stamps d' = seen stamps (write_inst i (\<lambda>r. r\<lparr>i_last_touched_at := Some now, i_autopurge_warned_at := None,
      i_autopurge_final_warned_at := None\<rparr>) d)"
    using assms by (auto simp: touch_autopurge_clock_def Let_def)
  then show ?thesis using r by (simp add: stamps_write seen_stamps stamps_of_def)
qed

lemma login_stamps:
  assumes "parse_answer isodate now stdout = Some stamp" and "seen stamps d i = Some (t, l, wn, fn)"
  shows "\<exists>m. stamp \<le> m \<and> (\<forall>x. l = Some x \<longrightarrow> x \<le> m) \<and>
    seen stamps (login_on_success isodate now stdout i d) = (seen stamps d)(i \<mapsto> (t, Some m, wn, fn))"
proof -
  obtain r where r: "instances d i = Some r" "stamps_of r = (t, l, wn, fn)"
    using assms(2) by (auto simp: seen_def stamps_def)
  then have L: "(seen stamps d)(i \<mapsto> (t, l, wn, fn)) = seen stamps d" using assms(2) by auto
  show ?thesis
    using assms(1) r L
    by (cases l) (auto simp: login_on_success_def stamps_write stamps_of_def intro: exI [of _ stamp])
qed

lemma history_vouched: "purge_history es d \<Longrightarrow> all_vouched es (seen stamps d) \<and> fair es"
proof (induction rule: purge_history.induct)
  case (start t)
  then show ?case by (simp add: all_vouched_def seen_def stamps_def empty_db_def)
next
  case (born es d i vals a backend row clash now d')
  have L: "seen stamps d' = (seen stamps d)(i \<mapsto> (Some now, None, None, None))"
    using born
    by (auto simp: create_instance_def Let_def seen_def stamps_def stamps_of_def add_audit_def fun_eq_iff
        split: sum.splits if_splits)
  have "Login i s \<notin> set es" for s using born(3) by (metis about.simps(2) image_eqI)
  then have "vouched (Touched i now # es) i (Some now) None None None" by (intro vouched_touch) blast
  then have "all_vouched (Touched i now # es) (seen stamps d')"
    unfolding L using born.IH by (intro all_vouched_update) simp_all
  then show ?case using born.IH by simp
next
  case (used es d w now i d')
  obtain t l wn fn where L: "seen stamps d i = Some (t, l, wn, fn)"
      "seen stamps d' = (seen stamps d)(i \<mapsto> (Some now, l, None, None))"
    using touch_stamps [OF used(2)] by blast
  then have "vouched es i t l wn fn" using used.IH by (simp add: all_vouched_def)
  then have "vouched (Touched i now # es) i (Some now) l None None" by (intro vouched_touch) (rule vouchedD(4))
  then have "all_vouched (Touched i now # es) (seen stamps d')"
    unfolding L(2) using used.IH by (intro all_vouched_update) simp_all
  then show ?case using used.IH by simp
next
  case (read_login es d isodate now stdout stamp i)
  obtain t l wn fn where L: "seen stamps d i = Some (t, l, wn, fn)"
    using read_login(3) by (auto simp: seen_def stamps_def stamps_of_def)
  then have v: "vouched es i t l wn fn" using read_login.IH by (simp add: all_vouched_def)
  obtain m where m: "stamp \<le> m" "\<forall>x. l = Some x \<longrightarrow> x \<le> m"
      "seen stamps (login_on_success isodate now stdout i d) = (seen stamps d)(i \<mapsto> (t, Some m, wn, fn))"
    using login_stamps [OF read_login(2) L] by blast
  have "vouched (Login i stamp # es) i t (Some m) wn fn"
    by (rule vouched_cons [OF v]) (use m in \<open>auto simp: not_touch_def\<close>)
  then have "all_vouched (Login i stamp # es) (seen stamps (login_on_success isodate now stdout i d))"
    unfolding m(3) using read_login.IH by (intro all_vouched_update) simp_all
  then show ?case using read_login.IH by simp
next
  case (tick es d w a robot window now maintained breaks order outs d')
  then show ?case
    using loop_vouched [OF tick(2)] by (auto simp: cron_autopurge_stagings_def split: if_splits)
next
  case (removed es d w a i d')
  show ?case using removed.IH all_vouched_drop unfolding unlink_stamps [OF removed(2,3)] by blast
next
  case (other es d d')
  then show ?case by simp
qed

text \<open>C5. No staging is deleted unannounced. In every history of creations, uses, logins
  read, ticks of the cron and whatever else the panel does, a deletion the cron starts
  comes after a final warning that is at least a day old and a first warning in an earlier
  tick, with no use of the instance since the first; and the window has passed since its
  last use and since every login read of it.\<close>

theorem deletion_was_announced:
  assumes "purge_history (xs @ Took i Rung_deleted t win # ys) d"
  shows "\<exists>as bs final first win1 win2.
           since_touch i ys = as @ Took i Rung_final_warned final win1 # bs \<and> final + DAY \<le> t \<and>
           Took i Rung_warned first win2 \<in> set bs \<and>
           (\<forall>zs u us. ys = zs @ Touched i u # us \<longrightarrow> list_all (not_touch i) zs \<longrightarrow> u + win * DAY \<le> t) \<and>
           (\<forall>s. Login i s \<in> set ys \<longrightarrow> s + win * DAY \<le> t)"
proof -
  have "announced i t win ys" using history_vouched [OF assms] fair_split by blast
  then show ?thesis unfolding announced_def by blast
qed

text \<open>A staging nobody uses: three ticks, with a window of thirty days.\<close>

definition tick_at :: "int \<Rightarrow> db \<Rightarrow> (nat \<times> outcome) list \<times> db" where
  "tick_at day d = cron_autopurge_stagings (core_world d) platform platform 30 (100 + day * DAY) (\<lambda>_. True) (\<lambda>_. False) [7] d"

lemma ticked:
  assumes "purge_history es d" and "fst (tick_at day d) = [(7, Climbed k)]"
  shows "purge_history (Took 7 k (100 + day * DAY) 30 # es) (snd (tick_at day d))"
proof -
  have "purge_history (took_all (100 + day * DAY) 30 (fst (tick_at day d)) @ es) (snd (tick_at day d))"
    by (rule tick [OF assms(1) core_blind]) (simp add: tick_at_def)
  then show ?thesis using assms(2) by simp
qed

theorem deletion_was_announced_witness:
  "\<exists>as bs final first win1 win2.
     since_touch 7 [Took 7 Rung_final_warned (100 + 27 * DAY) 30, Took 7 Rung_warned (100 + 16 * DAY) 30, Touched 7 100] =
       as @ Took 7 Rung_final_warned final win1 # bs \<and> final + DAY \<le> 100 + 30 * DAY \<and>
     Took 7 Rung_warned first win2 \<in> set bs"
proof -
  let ?d1 = "snd (tick_at 16 born_db)" and ?d2 = "snd (tick_at 27 (snd (tick_at 16 born_db)))"
  have "purge_history [] (site_db empty_site)" unfolding empty_site_def by (simp add: start)
  moreover have "(case create_instance platform (\<lambda>_. None) [] draft_instance False 7 100 (site_db empty_site) of
      Inr _ \<Rightarrow> True | Inl _ \<Rightarrow> False)" by code_simp
  then have "create_instance platform (\<lambda>_. None) [] draft_instance False 7 100 (site_db empty_site) = Inr born_db"
    by (simp add: born_db_def split: sum.splits)
  ultimately have "purge_history [Touched 7 100] born_db"
    using born [of "[]" "site_db empty_site" 7 "[]"]
    by (auto simp: empty_site_def empty_db_def has_key_def draft_instance_def live_instance_def)
  moreover have "fst (tick_at 16 born_db) = [(7, Climbed Rung_warned)]" "fst (tick_at 27 ?d1) = [(7, Climbed Rung_final_warned)]"
    "fst (tick_at 30 ?d2) = [(7, Climbed Rung_deleted)]" by code_simp+
  ultimately have "purge_history ([] @ Took 7 Rung_deleted (100 + 30 * DAY) 30 #
      [Took 7 Rung_final_warned (100 + 27 * DAY) 30, Took 7 Rung_warned (100 + 16 * DAY) 30, Touched 7 100]) (snd (tick_at 30 ?d2))"
    using ticked by simp
  from deletion_was_announced [OF this] show ?thesis by blast
qed

section \<open>What a reading of a login leaves\<close>


definition twice_warned_db :: db where
  "twice_warned_db = snd (tick_at 27 (snd (tick_at 16 born_db)))"

definition login_db :: db where
  "login_db = write_inst 7 (\<lambda>r. r\<lparr>i_last_login_seen_at := Some (100 + 29 * DAY)\<rparr>) twice_warned_db"

definition login_line :: pystr where
  "login_line = [76, 65, 83, 84, 95, 76, 79, 71, 73, 78, 32, 50]"

lemma login_line_parsed:
  "parse_answer (\<lambda>_. Some (100 + 29 * DAY)) (100 + 30 * DAY) login_line = Some (100 + 29 * DAY)"
proof -
  have "lit ''LAST_LOGIN '' = [76, 65, 83, 84, 95, 76, 79, 71, 73, 78, 32]" "lit ''none'' = [110, 111, 110, 101]" by code_simp+
  then show ?thesis
    by (simp add: parse_answer_def answer_in_def login_line_def py_space_def DAY_def List.map_filter_def)
qed


end
