(* ===== verification/Upload_Door.thy ===== *)
theory Upload_Door
  imports Roles Job_Model Restore_Space Py_Text
begin

text \<open>
  The one-use door a restore's archive comes through: \<^verbatim>\<open>cloud_restore_upload_grant.py\<close>, its
  executors (\<^verbatim>\<open>restore_upload_key_executors.py\<close>), the entry points of an instance and the
  restore that takes the archive. Opening one is a transaction of its own snapshot: what it
  saw and what is committed when it writes are two arguments. Reading a key, its digest,
  the generated key and token, the calendar and the digits of Unicode are arguments too;
  what the host answers is text. A job the queue refuses undoes its transaction, and so
  does nothing here.
\<close>

section \<open>Rows\<close>

datatype door_state = Granted | Used_up | Revoked

record grant =
  door_id :: nat
  door_instance :: nat
  door_host :: nat
  token :: pystr
  public_key :: pystr
  fingerprint :: pystr
  expires_at :: int
  door_state :: door_state
  upload_limit :: int
  received :: "(pystr \<times> int \<times> pystr) option"
  opened_by :: nat
  written_at :: int

text \<open>A row of \<^verbatim>\<open>cloud.job\<close> of type \<^verbatim>\<open>restore_instance\<close>: its instance, whether it is still to
  end, its pl.\<close>

record restore_row =
  restore_of :: nat
  restore_active :: bool
  restore_payload :: "dict option"

datatype door_job = Install_key nat | Revoke_key nat bool | Verify_upload nat | Watch_uploads nat

record doors =
  grants :: "grant list"
  door_keys :: "pystr list"
  restores :: "restore_row list"
  sent_jobs :: "door_job list"
  next_door :: nat

interpretation door_rows: table door_id "browse_row door_id" "write_rows door_id"
  by (rule table_rows)

datatype door_error =
    No_host_assigned
  | Not_a_key
  | Anothers_door nat int
  | Awaited
  | Opened_meanwhile
  | Key_used
  | Token_taken
  | Concurrent_update
  | No_such_grant
  | Nothing_arrived
  | Changed_since_shown
  | Door_role access_error
  | Bad_number
  | Not_its_job
  | Bad_shape
  | No_limit
  | Bad_name

definition GRANT_HOURS :: int where "GRANT_HOURS = 12"
definition USED_GRANT_DAYS :: int where "USED_GRANT_DAYS = 3"

section \<open>Shapes\<close>

definition lower_hex :: "nat \<Rightarrow> bool" where
  "lower_hex c \<longleftrightarrow> digit c \<or> 97 \<le> c \<and> c \<le> 102"

definition alphanumeric :: "nat \<Rightarrow> bool" where
  "alphanumeric c \<longleftrightarrow> digit c \<or> 65 \<le> c \<and> c \<le> 90 \<or> 97 \<le> c \<and> c \<le> 122"

definition GRANT_TOKEN :: "pystr \<Rightarrow> bool" where
  "GRANT_TOKEN s \<longleftrightarrow> length s = 16 \<and> list_all lower_hex s"

text \<open>\<^verbatim>\<open>ssh-ed25519 [A-Za-z0-9+/]+={0,2}\<close>, the whole text.\<close>

definition GRANT_PUBLIC_KEY :: "pystr \<Rightarrow> bool" where
  "GRANT_PUBLIC_KEY s \<longleftrightarrow>
     take 12 s = lit ''ssh-ed25519 '' \<and>
     (let body = drop 12 s; core = rstrip_char 61 body
      in core \<noteq> [] \<and> list_all (\<lambda>c. alphanumeric c \<or> c \<in> {43, 47}) core \<and> length body - length core \<le> 2)"

definition SAFE_UPLOAD_NAME :: "pystr \<Rightarrow> bool" where
  "SAFE_UPLOAD_NAME s \<longleftrightarrow>
     s \<noteq> [] \<and> alphanumeric (hd s) \<and> length s \<le> 255 \<and> list_all (\<lambda>c. alphanumeric c \<or> c \<in> {46, 95, 45}) (tl s)"

definition UPLOAD_ROOT :: pystr where
  "UPLOAD_ROOT = lit ''/tmp/incubacloud-restore''"

definition directory :: "grant \<Rightarrow> pystr" where
  "directory g = UPLOAD_ROOT @ 47 # token g"

definition key_comment :: "grant \<Rightarrow> pystr" where
  "key_comment g = lit ''ic-restore-'' @ token g"

definition check_shape :: "grant \<Rightarrow> bool" where
  "check_shape g \<longleftrightarrow> GRANT_TOKEN (token g) \<and> GRANT_PUBLIC_KEY (public_key g)"

definition check_job :: "nat \<Rightarrow> nat \<Rightarrow> grant \<Rightarrow> (door_error, unit) result" where
  "check_job inst host g =
     (if door_instance g \<noteq> inst \<or> door_host g \<noteq> host then Inl Not_its_job
      else if \<not> check_shape g then Inl Bad_shape
      else Inr ())"

text \<open>The command the key is forced to run; \<open>blocks\<close> of 1024 bytes.\<close>

definition limit_blocks :: "int \<Rightarrow> int" where
  "limit_blocks limit_bytes = max 1 (limit_bytes div 1024)"

definition forced_command :: "pystr \<Rightarrow> int \<Rightarrow> pystr" where
  "forced_command dir limit_bytes =
     lit ''exec /bin/bash -c '' @ 39 # lit ''ulimit -f '' @ decimal (nat (limit_blocks limit_bytes)) @
     lit '' && exec /usr/bin/rrsync -wo -munge -no-del '' @ dir @ [39]"

definition authorized_keys_line :: "(int \<Rightarrow> pystr) \<Rightarrow> grant \<Rightarrow> (door_error, pystr) result" where
  "authorized_keys_line stamp g =
     (if upload_limit g < 1 then Inl No_limit
      else Inr (lit ''command='' @ 34 # forced_command (directory g) (upload_limit g) @ 34 # lit '',restrict,expiry-time='' @
                34 # stamp (expires_at g) @ 34 # 32 # public_key g @ 32 # key_comment g))"

section \<open>Opening\<close>

definition parse_public_key :: "(pystr \<Rightarrow> pystr option) \<Rightarrow> pystr \<Rightarrow> (door_error, pystr) result" where
  "parse_public_key load_key offered =
     (let ws = Py_Text.words offered in
      if length ws < 2 \<or> ws ! 0 \<noteq> lit ''ssh-ed25519'' then Inl Not_a_key
      else case load_key (ws ! 0 @ 32 # ws ! 1) of
          None \<Rightarrow> Inl Not_a_key
        | Some line \<Rightarrow> if GRANT_PUBLIC_KEY line then Inr line else Inl Not_a_key)"

text \<open>The digest of the decoded key; \<open>None\<close> when the text is not base64.\<close>

definition fingerprint_of :: "(pystr \<Rightarrow> pystr option) \<Rightarrow> pystr \<Rightarrow> pystr" where
  "fingerprint_of digest key =
     (let parts = Py_Text.words key in
      if length parts < 2 then []
      else case digest (parts ! 1) of None \<Rightarrow> [] | Some d \<Rightarrow> lit ''SHA256:'' @ rstrip_char 61 d)"

text \<open>\<^verbatim>\<open>int(value)\<close>: a text of digits, with a sign, single underscores and spaces around.\<close>

definition int_text :: "(nat \<Rightarrow> nat option) \<Rightarrow> pystr \<Rightarrow> int option" where
  "int_text udigit s =
     (let t = Py_Text.strip s;
          negative = (t \<noteq> [] \<and> hd t = 45);
          body = (if t \<noteq> [] \<and> hd t \<in> {43, 45} then tl t else t);
          parts = split_on 95 body;
          n = int (of_digits 10 (\<lambda>c. the (udigit c)) (concat parts))
      in if list_all (\<lambda>p. p \<noteq> [] \<and> list_all (\<lambda>c. udigit c \<noteq> None) p) parts \<and> length (concat parts) \<le> 4300
         then Some (if negative then - n else n) else None)"

fun int_value :: "(nat \<Rightarrow> nat option) \<Rightarrow> json \<Rightarrow> int option" where
  "int_value udigit (JBool b) = Some (of_bool b)"
| "int_value udigit (JInt i) = Some i"
| "int_value udigit (JFloat (Fin q)) = Some (if 0 \<le> q then \<lfloor>q\<rfloor> else \<lceil>q\<rceil>)"
| "int_value udigit (JStr s) = int_text udigit s"
| "int_value udigit _ = None"

text \<open>\<^verbatim>\<open>int(payload.get('grant_id') or 0)\<close>.\<close>

definition named_grant :: "(nat \<Rightarrow> nat option) \<Rightarrow> dict \<Rightarrow> int option" where
  "named_grant udigit pl = (let v = dget pl ''grant_id'' in if truthy v then int_value udigit v else Some 0)"

definition awaits :: "(nat \<Rightarrow> nat option) \<Rightarrow> nat \<Rightarrow> nat \<Rightarrow> restore_row \<Rightarrow> bool" where
  "awaits udigit inst g r \<longleftrightarrow>
     restore_of r = inst \<and> restore_active r \<and>
     (case restore_payload r of
        None \<Rightarrow> False
      | Some pl \<Rightarrow>
          dget pl ''mode'' = JStr (lit ''ssh_upload'') \<and> named_grant udigit pl = Some (int g))"

definition awaited_by_restore :: "(nat \<Rightarrow> nat option) \<Rightarrow> nat \<Rightarrow> doors \<Rightarrow> grant list \<Rightarrow> grant list" where
  "awaited_by_restore udigit inst p gs = filter (\<lambda>g. list_ex (awaits udigit inst (door_id g)) (restores p)) gs"

definition live :: "int \<Rightarrow> grant \<Rightarrow> bool" where
  "live now g \<longleftrightarrow> door_state g = Granted \<and> now < expires_at g"

definition doors_to_close ::
    "(nat \<Rightarrow> nat option) \<Rightarrow> nat \<Rightarrow> nat \<Rightarrow> int \<Rightarrow> doors \<Rightarrow> doors \<Rightarrow> (door_error, grant list) result" where
  "doors_to_close udigit inst me now seen committed =
     (let open_doors = filter (\<lambda>g. door_instance g = inst \<and> door_state g = Granted) (grants seen);
          others = filter (\<lambda>g. now < expires_at g \<and> opened_by g \<noteq> me) open_doors;
          mine = filter (\<lambda>g. g \<notin> set others) open_doors;
          fresh = filter (\<lambda>g. door_instance g = inst \<and> live now g) (grants committed)
      in if others \<noteq> [] then Inl (Anothers_door (opened_by (hd others)) (expires_at (hd others)))
         else if awaited_by_restore udigit inst seen mine \<noteq> [] then Inl Awaited
         else if list_ex (\<lambda>g. door_id g \<notin> door_id ` set (grants seen)) fresh then Inl Opened_meanwhile
         else Inr mine)"

text \<open>\<^verbatim>\<open>INSERT \<dots> ON CONFLICT DO NOTHING\<close>: a key committed after the snapshot fails the
  transaction.\<close>

definition claim_key :: "pystr \<Rightarrow> doors \<Rightarrow> doors \<Rightarrow> (door_error, doors) result" where
  "claim_key fp seen committed =
     (if fp \<in> set (door_keys seen) then Inl Key_used
      else if fp \<in> set (door_keys committed) then Inl Concurrent_update
      else Inr (committed\<lparr>door_keys := fp # door_keys committed\<rparr>))"

text \<open>\<^verbatim>\<open>_revoke\<close>: a job for each of the grants in one of the states, which are then closed.\<close>

definition revoke :: "door_state \<Rightarrow> door_state list \<Rightarrow> int \<Rightarrow> nat list \<Rightarrow> doors \<Rightarrow> doors" where
  "revoke reason states now ids p =
     (let closing = filter (\<lambda>g. door_id g \<in> set ids \<and> door_state g \<in> set states) (grants p)
      in p\<lparr>grants := write_rows door_id (\<lambda>i. i \<in> door_id ` set closing) (\<lambda>g. g\<lparr>door_state := reason, written_at := now\<rparr>) (grants p),
           sent_jobs := sent_jobs p @ map (\<lambda>g. Revoke_key (door_id g) False) closing\<rparr>)"

text \<open>A row changed since the snapshot cannot be written: the transaction fails.\<close>

definition unchanged :: "grant list \<Rightarrow> doors \<Rightarrow> bool" where
  "unchanged gs committed \<longleftrightarrow> list_all (\<lambda>g. g \<in> set (grants committed)) gs"

record key_source =
  load_key :: "pystr \<Rightarrow> pystr option"
  digest :: "pystr \<Rightarrow> pystr option"
  generated :: pystr
  new_token :: pystr
  udigit :: "nat \<Rightarrow> nat option"

definition key_to_install :: "key_source \<Rightarrow> pystr option \<Rightarrow> (door_error, pystr) result" where
  "key_to_install k offered =
     (case offered of
        None \<Rightarrow> Inr (generated k)
      | Some s \<Rightarrow> if s = [] then Inr (generated k) else parse_public_key (load_key k) s)"

definition new_grant :: "key_source \<Rightarrow> nat \<Rightarrow> nat \<Rightarrow> nat \<Rightarrow> int \<Rightarrow> int \<Rightarrow> pystr \<Rightarrow> nat \<Rightarrow> grant" where
  "new_grant k inst host me now hours key i =
     \<lparr>door_id = i, door_instance = inst, door_host = host, token = new_token k, public_key = key,
      fingerprint = fingerprint_of (digest k) key, expires_at = now + 3600 * hours, door_state = Granted, upload_limit = 0,
      received = None, opened_by = me, written_at = now\<rparr>"

definition open_door ::
    "key_source \<Rightarrow> nat \<Rightarrow> nat option \<Rightarrow> nat \<Rightarrow> int \<Rightarrow> int \<Rightarrow> pystr option \<Rightarrow> doors \<Rightarrow> doors \<Rightarrow> (door_error, doors) result" where
  "open_door k inst host me now hours offered seen committed =
     (case host of
        None \<Rightarrow> Inl No_host_assigned
      | Some h \<Rightarrow>
          (case key_to_install k offered of
             Inl e \<Rightarrow> Inl e
           | Inr key \<Rightarrow>
               (case doors_to_close (udigit k) inst me now seen committed of
                  Inl e \<Rightarrow> Inl e
                | Inr closing \<Rightarrow>
                    (case claim_key (fingerprint_of (digest k) key) seen committed of
                       Inl e \<Rightarrow> Inl e
                     | Inr claimed \<Rightarrow>
                         if \<not> unchanged closing committed then Inl Concurrent_update
                         else if new_token k \<in> token ` set (grants committed) then Inl Token_taken
                         else let p = revoke Revoked [Granted] now (map door_id closing) claimed
                              in Inr (p\<lparr>grants := new_grant k inst h me now hours key (next_door p) # grants p,
                                        next_door := Suc (next_door p)\<rparr>)))))"

text \<open>\<^verbatim>\<open>grant_restore_upload\<close>, \<^verbatim>\<open>verify_restore_upload\<close> and \<^verbatim>\<open>revoke_restore_upload\<close>.\<close>

definition send :: "door_job \<Rightarrow> doors \<Rightarrow> doors" where
  "send j p = p\<lparr>sent_jobs := sent_jobs p @ [j]\<rparr>"

definition grant_restore_upload ::
    "caller \<Rightarrow> key_source \<Rightarrow> nat \<Rightarrow> nat option \<Rightarrow> int \<Rightarrow> pystr option \<Rightarrow> doors \<Rightarrow> doors \<Rightarrow> (door_error, doors) result" where
  "grant_restore_upload who k inst host now offered seen committed =
     (case check_can_manage_backups who of
        Inl e \<Rightarrow> Inl (Door_role e)
      | Inr _ \<Rightarrow>
          map_sum id (\<lambda>p. send (Install_key (next_door committed)) p)
            (open_door k inst host (uid who) now GRANT_HOURS offered seen committed))"

definition grant_of_instance :: "nat \<Rightarrow> nat \<Rightarrow> doors \<Rightarrow> grant option" where
  "grant_of_instance inst i p =
     (case browse_row door_id (grants p) i of
        None \<Rightarrow> None
      | Some g \<Rightarrow> if door_instance g = inst then Some g else None)"

definition verify_restore_upload :: "caller \<Rightarrow> nat \<Rightarrow> nat \<Rightarrow> doors \<Rightarrow> (door_error, doors) result" where
  "verify_restore_upload who inst i p =
     (case check_can_manage_backups who of
        Inl e \<Rightarrow> Inl (Door_role e)
      | Inr _ \<Rightarrow> if grant_of_instance inst i p = None then Inl No_such_grant else Inr (send (Verify_upload i) p))"

definition revoke_restore_upload :: "caller \<Rightarrow> nat \<Rightarrow> nat \<Rightarrow> int \<Rightarrow> doors \<Rightarrow> (door_error, doors) result" where
  "revoke_restore_upload who inst i now p =
     (case check_can_manage_backups who of
        Inl e \<Rightarrow> Inl (Door_role e)
      | Inr _ \<Rightarrow>
          if grant_of_instance inst i p = None then Inl No_such_grant
          else Inr (revoke Revoked [Granted] now [i] p))"

section \<open>The jobs of a door\<close>

text \<open>\<^verbatim>\<open>grant_restore_upload_key\<close>: the limit comes from the disks; with none, or without the
  wrapper, no key goes in and the grant is closed.\<close>

definition set_limit :: "int \<Rightarrow> nat \<Rightarrow> disks option \<Rightarrow> doors \<Rightarrow> doors" where
  "set_limit now i measured p =
     (case measured of
        None \<Rightarrow> p
      | Some d \<Rightarrow>
          (case largest_archive d 2 of
             None \<Rightarrow> p
           | Some m \<Rightarrow>
               if m = 0 then p
               else p\<lparr>grants := write_rows door_id (\<lambda>j. j = i) (\<lambda>g. g\<lparr>upload_limit := m, written_at := now\<rparr>) (grants p)\<rparr>))"

datatype install_plan = Grant_gone | Refused_for_disk | Install_line pystr

definition install_commands ::
    "(int \<Rightarrow> pystr) \<Rightarrow> nat \<Rightarrow> nat \<Rightarrow> disks option \<Rightarrow> nat \<Rightarrow> doors \<Rightarrow> (door_error, install_plan) result" where
  "install_commands stamp inst host measured i p =
     (case browse_row door_id (grants p) i of
        None \<Rightarrow> Inr Grant_gone
      | Some g \<Rightarrow>
          (case check_job inst host g of
             Inl e \<Rightarrow> Inl e
           | Inr _ \<Rightarrow>
               if (case measured of None \<Rightarrow> True | Some d \<Rightarrow> largest_archive d 2 = Some 0) \<or> upload_limit g = 0
               then Inr Refused_for_disk
               else map_sum id Install_line (authorized_keys_line stamp g)))"

definition close_failed_install :: "int \<Rightarrow> nat \<Rightarrow> bool \<Rightarrow> doors \<Rightarrow> doors" where
  "close_failed_install now i key_step_ran p =
     (if key_step_ran then p
      else p\<lparr>grants := write_rows door_id (\<lambda>j. j = i) (\<lambda>g. g\<lparr>door_state := Revoked, written_at := now\<rparr>) (grants p)\<rparr>)"

text \<open>\<^verbatim>\<open>verify_restore_upload\<close>: a line of the listing is a size, a digest and a name; the
  last usable one is recorded, when the disks have room for it.\<close>

definition listed :: "pystr \<Rightarrow> (int \<times> pystr \<times> pystr) option" where
  "listed line =
     (case split_on 32 (Py_Text.strip line) of
        [n, sha, name] \<Rightarrow>
          if n \<noteq> [] \<and> list_all digit n \<and> length sha = 64 \<and> list_all lower_hex sha \<and> SAFE_UPLOAD_NAME name
          then Some (int (decimal_value n), sha, name) else None
      | _ \<Rightarrow> None)"

definition listed_rows :: "pystr \<Rightarrow> (int \<times> pystr \<times> pystr) list" where
  "listed_rows stdout = List.map_filter listed (split_lines [] stdout)"

definition record_upload :: "int \<Rightarrow> nat \<Rightarrow> pystr \<Rightarrow> disks option \<Rightarrow> doors \<Rightarrow> doors" where
  "record_upload now i stdout measured p =
     (let arrived =
        (case rev (listed_rows stdout) of
           [] \<Rightarrow> None
         | (n, sha, name) # _ \<Rightarrow>
             (case measured of
                None \<Rightarrow> None
              | Some d \<Rightarrow> if room_refusal d n 1 = None then Some (name, n, sha) else None))
      in p\<lparr>grants := write_rows door_id (\<lambda>j. j = i) (\<lambda>g. g\<lparr>received := arrived, written_at := now\<rparr>) (grants p)\<rparr>)"

text \<open>\<^verbatim>\<open>watch_restore_uploads\<close>: what each door holds, and which close.\<close>

definition door_line :: "pystr \<Rightarrow> (pystr \<times> int) option" where
  "door_line line =
     (case split_on 32 (Py_Text.strip line) of
        [w, tok] \<Rightarrow> if w = lit ''door'' \<and> GRANT_TOKEN tok then Some (tok, 0) else None
      | [w, tok, n] \<Rightarrow>
          if w = lit ''door'' \<and> GRANT_TOKEN tok \<and> n \<noteq> [] \<and> list_all digit n then Some (tok, int (decimal_value n)) else None
      | _ \<Rightarrow> None)"

definition held :: "pystr \<Rightarrow> (pystr \<rightharpoonup> int)" where
  "held stdout = map_of (rev (List.map_filter door_line (split_lines [] stdout)))"

datatype over_reason = Over_its_limit int int | Disk_needed int

definition over_limit :: "(pystr \<rightharpoonup> int) \<Rightarrow> disks option \<Rightarrow> grant \<Rightarrow> over_reason option" where
  "over_limit holds measured g =
     (let limit = (if upload_limit g \<noteq> 0 then Some (upload_limit g)
                   else case measured of None \<Rightarrow> None | Some d \<Rightarrow> largest_archive d 2)
      in case (holds (token g), limit) of
           (Some used, Some l) \<Rightarrow>
             if l < used then Some (Over_its_limit used l)
             else (case measured of
                     Some d \<Rightarrow> if shared d \<and> free_of d < RESERVE_BYTES then Some (Disk_needed (free_of d)) else None
                   | None \<Rightarrow> None)
         | _ \<Rightarrow>
             (case measured of
                Some d \<Rightarrow> if shared d \<and> free_of d < RESERVE_BYTES then Some (Disk_needed (free_of d)) else None
              | None \<Rightarrow> None))"

definition doors_of_host :: "nat \<Rightarrow> doors \<Rightarrow> grant list" where
  "doors_of_host host p = filter (\<lambda>g. door_host g = host \<and> door_state g = Granted \<and> GRANT_TOKEN (token g)) (grants p)"

definition over :: "nat \<Rightarrow> pystr \<Rightarrow> disks option \<Rightarrow> doors \<Rightarrow> nat list" where
  "over host stdout measured p =
     map door_id (filter (\<lambda>g. over_limit (held stdout) measured g \<noteq> None) (doors_of_host host p))"

definition close_over :: "int \<Rightarrow> nat list \<Rightarrow> doors \<Rightarrow> doors" where
  "close_over now ids p =
     p\<lparr>grants := write_rows door_id (\<lambda>j. j \<in> set ids) (\<lambda>g. g\<lparr>door_state := Revoked, written_at := now\<rparr>) (grants p)\<rparr>"

definition watch_doors :: "doors \<Rightarrow> doors" where
  "watch_doors p =
     fold (\<lambda>h. send (Watch_uploads h)) (remdups (map door_host (filter (\<lambda>g. door_state g = Granted) (grants p)))) p"

section \<open>The restore that takes the archive\<close>

definition check_upload_named ::
    "(nat \<Rightarrow> nat option) \<Rightarrow> nat \<Rightarrow> dict \<Rightarrow> doors \<Rightarrow> (door_error, grant) result" where
  "check_upload_named digits inst pl p =
     (case named_grant digits pl of
        None \<Rightarrow> Inl Bad_number
      | Some n \<Rightarrow>
          (case (if n < 0 then None else grant_of_instance inst (nat n) p) of
             None \<Rightarrow> Inl No_such_grant
           | Some g \<Rightarrow>
               (case received g of
                  None \<Rightarrow> Inl Nothing_arrived
                | Some (name, bytes, sha) \<Rightarrow>
                    if name = [] then Inl Nothing_arrived
                    else if \<not> truthy (dget pl ''expected_sha256'') \<or> dget pl ''expected_sha256'' \<noteq> JStr sha
                         then Inl Changed_since_shown
                    else Inr g)))"

definition mark_used :: "int \<Rightarrow> nat list \<Rightarrow> doors \<Rightarrow> doors" where
  "mark_used now ids p =
     p\<lparr>grants := write_rows door_id (\<lambda>j. j \<in> set ids \<and> (\<exists>g \<in> set (grants p). door_id g = j \<and> door_state g = Granted))
         (\<lambda>g. g\<lparr>door_state := Used_up, written_at := now\<rparr>) (grants p)\<rparr>"

text \<open>The branch of \<^verbatim>\<open>ssh_upload\<close>: the file to take and the door closed behind it.\<close>

definition take_upload :: "nat \<Rightarrow> nat \<Rightarrow> nat \<Rightarrow> json \<Rightarrow> int \<Rightarrow> doors \<Rightarrow> (door_error, pystr \<times> doors) result" where
  "take_upload inst host i expected now p =
     (case browse_row door_id (grants p) i of
        None \<Rightarrow> Inl No_such_grant
      | Some g \<Rightarrow>
          (case check_job inst host g of
             Inl e \<Rightarrow> Inl e
           | Inr _ \<Rightarrow>
               let sha = (case received g of None \<Rightarrow> JBool False | Some (name, bytes, sha) \<Rightarrow> JStr sha);
                   name = (case received g of Some (n # name, bytes, sha) \<Rightarrow> n # name | _ \<Rightarrow> lit ''restore.zip'')
               in if \<not> truthy expected \<or> expected \<noteq> sha then Inl Changed_since_shown
                  else if \<not> SAFE_UPLOAD_NAME name then Inl Bad_name
                  else Inr (directory g @ 47 # name, send (Revoke_key i True) (mark_used now [i] p))))"

section \<open>The sweep\<close>

definition gc_grants :: "int \<Rightarrow> doors \<Rightarrow> nat \<times> doors" where
  "gc_grants now p =
     (let expired = map door_id (filter (\<lambda>g. door_state g = Granted \<and> expires_at g < now) (grants p));
          p1 = revoke Revoked [Granted] now expired p;
          consumed = map door_id (filter (\<lambda>g. door_state g = Used_up \<and> written_at g < now - 86400 * USED_GRANT_DAYS) (grants p1));
          p2 = revoke Revoked [Used_up] now consumed p1
      in (length expired + length consumed,
          p2\<lparr>grants := filter (\<lambda>g. \<not> (door_state g \<noteq> Granted \<and> written_at g < now - 86400 * 30)) (grants p2)\<rparr>))"

end
