(* ===== verification/Door_Facts.thy ===== *)
theory Door_Facts
  imports Upload_Door Panel_System
begin

text \<open>
  What the upload doors promise over any history of transactions, each opening one working
  on a snapshot that may be older than what is committed when it writes: one open door per
  instance, one door per key ever, and a restore that takes only what was shown.
\<close>

section \<open>What a write keeps\<close>

definition same_door :: "grant \<Rightarrow> grant \<Rightarrow> bool" where
  "same_door g g' \<longleftrightarrow>
     door_id g' = door_id g \<and> door_instance g' = door_instance g \<and> door_host g' = door_host g \<and> token g' = token g \<and>
     public_key g' = public_key g \<and> fingerprint g' = fingerprint g \<and> expires_at g' = expires_at g \<and> opened_by g' = opened_by g"

text \<open>The same door as before, and not open unless it was.\<close>

definition aged :: "grant \<Rightarrow> grant \<Rightarrow> bool" where
  "aged g g' \<longleftrightarrow> same_door g g' \<and> (door_state g' = Granted \<longrightarrow> door_state g = Granted)"

lemma aged_refl [simp]: "aged g g"
  by (simp add: aged_def same_door_def)

lemma aged_trans: "aged f g \<Longrightarrow> aged g h \<Longrightarrow> aged f h"
  by (auto simp: aged_def same_door_def)

lemma aged_live: "aged g g' \<Longrightarrow> live now g' \<Longrightarrow> live now g"
  by (auto simp: aged_def same_door_def live_def)

definition kept :: "doors \<Rightarrow> doors \<Rightarrow> bool" where
  "kept p p' \<longleftrightarrow>
     (\<forall>g' \<in> set (grants p'). \<exists>g \<in> set (grants p). aged g g') \<and> (distinct (map door_id (grants p)) \<longrightarrow> distinct (map door_id (grants p'))) \<and>
     door_keys p' = door_keys p \<and> next_door p' = next_door p"

lemma kept_refl [simp]: "kept p p"
  by (auto simp: kept_def intro: aged_refl)

lemma kept_trans: "kept p q \<Longrightarrow> kept q r \<Longrightarrow> kept p r"
  unfolding kept_def by (metis aged_trans)

lemma kept_rows:
  assumes "\<And>g. aged g (f g)" and "grants p' = write_rows door_id sel f (grants p)"
    and "door_keys p' = door_keys p" and "next_door p' = next_door p"
  shows "kept p p'"
proof -
  have "door_id (f g) = door_id g" for g using assms(1) by (simp add: aged_def same_door_def)
  then have "map door_id (grants p') = map door_id (grants p)" by (simp add: assms(2) door_rows.write_keys)
  then show ?thesis
    using assms by (auto simp: kept_def door_rows.set_write intro: aged_refl)
qed

lemma kept_same: "grants p' = grants p \<Longrightarrow> door_keys p' = door_keys p \<Longrightarrow> next_door p' = next_door p \<Longrightarrow> kept p p'"
  by (auto simp: kept_def intro: aged_refl)

lemma kept_fewer: "kept p (p\<lparr>grants := filter P (grants p)\<rparr>)"
  by (auto simp: kept_def distinct_map_filter intro: aged_refl)

lemma aged_closed: "reason \<noteq> Granted \<Longrightarrow> aged g (g\<lparr>door_state := reason, written_at := now\<rparr>)"
  by (simp add: aged_def same_door_def)

lemma kept_revoke: "reason \<noteq> Granted \<Longrightarrow> kept p (revoke reason states now ids p)"
  by (rule kept_rows[OF aged_closed]) (simp_all add: revoke_def Let_def)

lemma kept_send: "kept p (send j p)"
  by (rule kept_same) (simp_all add: send_def)

lemma kept_sends: "kept p (fold (\<lambda>h. send (Watch_uploads h)) hs p)"
  by (induction hs arbitrary: p) (auto intro: kept_trans kept_send)

lemma kept_mark_used: "kept p (mark_used now ids p)"
  by (rule kept_rows[OF aged_closed[of Used_up]]) (simp_all add: mark_used_def)

lemma kept_gc: "gc_grants now p = (n, p') \<Longrightarrow> kept p p'"
  unfolding gc_grants_def Let_def prod.inject
  by (elim conjE, hypsubst) (intro kept_trans[OF kept_trans[OF kept_revoke kept_revoke] kept_fewer], simp_all)

section \<open>Histories\<close>

text \<open>What the panel, a job or the sweep writes beside opening a door.\<close>

inductive door_write :: "int \<Rightarrow> doors \<Rightarrow> doors \<Rightarrow> bool" where
  closes: "revoke_restore_upload u inst i now p = Inr p' \<Longrightarrow> door_write now p p'"
| verifies: "verify_restore_upload u inst i p = Inr p' \<Longrightarrow> door_write now p p'"
| measures: "door_write now p (set_limit now i measured p)"
| install_fails: "door_write now p (close_failed_install now i installed p)"
| records: "door_write now p (record_upload now i stdout measured p)"
| watches: "door_write now p (watch_doors p)"
| closes_over: "door_write now p (close_over now ids p)"
| takes: "take_upload inst host i expected now p = Inr (path, p') \<Longrightarrow> door_write now p p'"
| sweeps: "gc_grants now p = (n, p') \<Longrightarrow> door_write now p p'"
| restores_move: "door_write now p (p\<lparr>restores := rs\<rparr>)"

lemma door_write_kept: "door_write now p p' \<Longrightarrow> kept p p'"
proof (induction rule: door_write.induct)
  case (measures now p i measured)
  show ?case
    by (auto simp: set_limit_def split: option.split intro!: kept_rows[of "\<lambda>g. g\<lparr>upload_limit := _, written_at := now\<rparr>"])
      (simp_all add: aged_def same_door_def)
next
  case (install_fails now p i installed)
  show ?case by (auto simp: close_failed_install_def intro!: kept_rows[OF aged_closed[of Revoked]])
next
  case (records now p i stdout measured)
  show ?case unfolding record_upload_def Let_def
    by (rule kept_rows) (auto simp: aged_def same_door_def)
next
  case (closes_over now p ids)
  show ?case by (auto simp: close_over_def intro!: kept_rows[OF aged_closed[of Revoked]])
next
  case (takes inst host i expected now p path p')
  then have "p' = send (Revoke_key i True) (mark_used now [i] p)"
    by (auto simp: take_upload_def Let_def split: option.splits sum.splits if_splits)
  then show ?case using kept_trans[OF kept_mark_used kept_send] by simp
qed (auto simp: revoke_restore_upload_def verify_restore_upload_def watch_doors_def
    intro: kept_revoke kept_send kept_sends kept_gc kept_same split: sum.splits if_splits)

type_synonym door_log = "(int \<times> doors) list"

text \<open>The newest state first. A transaction that opens a door works on the snapshot of any
  earlier moment.\<close>

inductive log_step :: "door_log \<Rightarrow> door_log \<Rightarrow> bool" where
  opens: "t \<le> now \<Longrightarrow> (t0, seen) \<in> set ((t, p) # h) \<Longrightarrow> grant_restore_upload u k inst host now offered seen p = Inr p' \<Longrightarrow>
    log_step ((t, p) # h) ((now, p') # (t, p) # h)"
| writes: "t \<le> now \<Longrightarrow> door_write now p p' \<Longrightarrow> log_step ((t, p) # h) ((now, p') # (t, p) # h)"

definition sound :: "doors \<Rightarrow> bool" where
  "sound p \<longleftrightarrow>
     distinct (map door_id (grants p)) \<and> (\<forall>g \<in> set (grants p). door_id g < next_door p \<and> fingerprint g \<in> set (door_keys p)) \<and>
     (\<forall>g \<in> set (grants p). \<forall>g' \<in> set (grants p). fingerprint g = fingerprint g' \<longrightarrow> g = g')"

text \<open>Every door of a later state is one of the earlier or newer than all of them, of a key
  none of them had.\<close>

definition later :: "doors \<Rightarrow> doors \<Rightarrow> bool" where
  "later s p \<longleftrightarrow>
     (\<forall>g \<in> set (grants p). (\<exists>g0 \<in> set (grants s). aged g0 g) \<or> next_door s \<le> door_id g \<and> fingerprint g \<notin> set (door_keys s)) \<and>
     set (door_keys s) \<subseteq> set (door_keys p) \<and> next_door s \<le> next_door p"

definition one_live :: "int \<Rightarrow> doors \<Rightarrow> bool" where
  "one_live t p \<longleftrightarrow>
     (\<forall>g \<in> set (grants p). \<forall>g' \<in> set (grants p). live t g \<longrightarrow> live t g' \<longrightarrow> door_instance g = door_instance g' \<longrightarrow> g = g')"

lemma later_refl [simp]: "later p p"
  by (auto simp: later_def intro: aged_refl)

lemma later_trans:
  assumes "later s p" and "later p q"
  shows "later s q"
proof -
  have "(\<exists>g0 \<in> set (grants s). aged g0 g) \<or> next_door s \<le> door_id g \<and> fingerprint g \<notin> set (door_keys s)"
    if g: "g \<in> set (grants q)" for g
  proof (cases "\<exists>g1 \<in> set (grants p). aged g1 g")
    case True
    then obtain g1 where "g1 \<in> set (grants p)" "aged g1 g" by blast
    with assms(1) show ?thesis
      by (auto simp: later_def aged_def same_door_def)
  next
    case False
    then show ?thesis using assms g by (auto simp: later_def intro: le_trans)
  qed
  then show ?thesis using assms by (auto simp: later_def)
qed

lemma kept_later: "kept p p' \<Longrightarrow> later p p'"
  by (auto simp: kept_def later_def)

lemma distinct_key: "distinct (map f xs) \<Longrightarrow> x \<in> set xs \<Longrightarrow> y \<in> set xs \<Longrightarrow> f x = f y \<Longrightarrow> x = y"
  by (metis distinct_map inj_on_eq_iff)

lemma kept_sound:
  assumes "kept p p'" and "sound p"
  shows "sound p'"
proof -
  have d: "distinct (map door_id (grants p'))" using assms by (simp add: kept_def sound_def)
  have "g = g'" if g: "g \<in> set (grants p')" "g' \<in> set (grants p')" "fingerprint g = fingerprint g'" for g g'
  proof -
    obtain f f' where f: "f \<in> set (grants p)" "aged f g" "f' \<in> set (grants p)" "aged f' g'"
      using assms(1) g unfolding kept_def by metis
    with g(3) have "fingerprint f = fingerprint f'" by (simp add: aged_def same_door_def)
    with f assms(2) have "f = f'" by (auto simp: sound_def)
    with f have "door_id g = door_id g'" by (simp add: aged_def same_door_def)
    with d g show ?thesis by (meson distinct_key)
  qed
  moreover have "door_id g < next_door p' \<and> fingerprint g \<in> set (door_keys p')" if "g \<in> set (grants p')" for g
    using assms that unfolding kept_def sound_def by (metis aged_def same_door_def)
  ultimately show ?thesis using d unfolding sound_def by blast
qed

lemma kept_one_live:
  assumes "kept p p'" and "sound p" and "one_live t p" and "t \<le> now"
  shows "one_live now p'"
  unfolding one_live_def
proof (intro ballI impI)
  fix g g' assume g: "g \<in> set (grants p')" "g' \<in> set (grants p')" "live now g" "live now g'" "door_instance g = door_instance g'"
  obtain f f' where f: "f \<in> set (grants p)" "aged f g" "f' \<in> set (grants p)" "aged f' g'"
    using assms(1) g unfolding kept_def by metis
  moreover have "live t f" "live t f'" using f g aged_live assms(4) by (force simp: live_def)+
  moreover have "door_instance f = door_instance f'" using f g(5) by (simp add: aged_def same_door_def)
  ultimately have "f = f'" using assms(3) by (simp add: one_live_def)
  with f have "door_id g = door_id g'" by (simp add: aged_def same_door_def)
  with g kept_sound[OF assms(1,2)] show "g = g'" unfolding sound_def by (meson distinct_key)
qed

section \<open>Opening\<close>

text \<open>A door opened: the state without it keeps the others, with every open one of the
  instance that had not passed its deadline closed.\<close>

lemma open_doorD:
  assumes "open_door k inst host me now hours offered seen p = Inr p'"
  obtains h key q where "host = Some h" "p' = q\<lparr>grants := new_grant k inst h me now hours key (next_door p) # grants q, next_door := Suc (next_door p)\<rparr>"
    "kept (p\<lparr>door_keys := fingerprint_of (digest k) key # door_keys p\<rparr>) q"
    "fingerprint_of (digest k) key \<notin> set (door_keys p)"
    "\<forall>g \<in> set (grants q). door_instance g = inst \<and> live now g \<longrightarrow>
       door_id g \<in> door_id ` set (grants seen) \<and> \<not> (\<exists>g0 \<in> set (grants seen). aged g0 g)"
proof -
  obtain h key closing where ok: "host = Some h" "key_to_install k offered = Inr key"
      "doors_to_close (udigit k) inst me now seen p = Inr closing" "unchanged closing p"
    and fp: "fingerprint_of (digest k) key \<notin> set (door_keys p)"
    and p': "p' = (let q = revoke Revoked [Granted] now (map door_id closing) (p\<lparr>door_keys := fingerprint_of (digest k) key # door_keys p\<rparr>)
      in q\<lparr>grants := new_grant k inst h me now hours key (next_door q) # grants q, next_door := Suc (next_door q)\<rparr>)"
    using assms by (auto simp: open_door_def claim_key_def Let_def split: option.splits sum.splits if_splits)
  let ?c = "p\<lparr>door_keys := fingerprint_of (digest k) key # door_keys p\<rparr>"
  let ?q = "revoke Revoked [Granted] now (map door_id closing) ?c"
  have next_q: "next_door ?q = next_door p" by (simp add: revoke_def Let_def)
  have mine: "closing = filter (\<lambda>g. door_instance g = inst \<and> door_state g = Granted) (grants seen)"
    and fresh: "\<And>g. g \<in> set (grants p) \<Longrightarrow> door_instance g = inst \<Longrightarrow> live now g \<Longrightarrow> door_id g \<in> door_id ` set (grants seen)"
    using ok(3) by (auto simp: doors_to_close_def Let_def list_ex_iff filter_empty_conv split: if_splits)
  show thesis
  proof (rule that[OF ok(1) _ kept_revoke fp])
    show "p' = ?q\<lparr>grants := new_grant k inst h me now hours key (next_door p) # grants ?q, next_door := Suc (next_door p)\<rparr>"
      using p' next_q by (simp add: Let_def)
    have "door_id g \<in> door_id ` set (grants seen) \<and> \<not> (\<exists>g0 \<in> set (grants seen). aged g0 g)"
      if g: "g \<in> set (grants ?q)" "door_instance g = inst" "live now g" for g
    proof -
      from g have "g \<in> set (grants p)" "door_id g \<notin> door_id ` set closing"
        by (auto simp: revoke_def Let_def door_rows.set_write live_def split: if_splits)
      then show ?thesis using fresh[of g] g unfolding mine by (auto simp: aged_def same_door_def live_def)
    qed
    then show "\<forall>g \<in> set (grants ?q). door_instance g = inst \<and> live now g \<longrightarrow>
        door_id g \<in> door_id ` set (grants seen) \<and> \<not> (\<exists>g0 \<in> set (grants seen). aged g0 g)" by blast
  qed simp
qed

lemma opened_sound:
  assumes "open_door k inst host me now hours offered seen p = Inr p'" and "sound p"
  shows "sound p' \<and> later p p'"
proof -
  obtain h key q where q:
    "p' = q\<lparr>grants := new_grant k inst h me now hours key (next_door p) # grants q, next_door := Suc (next_door p)\<rparr>"
    "kept (p\<lparr>door_keys := fingerprint_of (digest k) key # door_keys p\<rparr>) q" "fingerprint_of (digest k) key \<notin> set (door_keys p)"
    using open_doorD[OF assms(1)] by metis
  let ?fp = "fingerprint_of (digest k) key"
  have "sound (p\<lparr>door_keys := ?fp # door_keys p\<rparr>)" using assms(2) by (auto simp: sound_def)
  then have sq: "sound q" by (rule kept_sound[OF q(2)])
  have rest: "door_keys q = ?fp # door_keys p" "next_door q = next_door p" "\<forall>g \<in> set (grants q). \<exists>g0 \<in> set (grants p). aged g0 g"
    using q(2) by (auto simp: kept_def)
  have "fingerprint g \<noteq> ?fp" if g: "g \<in> set (grants q)" for g
  proof -
    obtain g0 where "g0 \<in> set (grants p)" "aged g0 g" using rest(3) g by blast
    with assms(2) q(3) show ?thesis by (auto simp: sound_def aged_def same_door_def)
  qed
  moreover have new: "grants p' = new_grant k inst h me now hours key (next_door p) # grants q" "next_door p' = Suc (next_door p)"
    "door_keys p' = ?fp # door_keys p" using rest(1,2) by (simp_all add: q(1))
  moreover have "\<forall>g \<in> set (grants q). door_id g < next_door p \<and> fingerprint g \<in> set (?fp # door_keys p)"
    using sq by (auto simp: sound_def rest(1,2))
  ultimately have "sound p'" using sq unfolding sound_def new by (fastforce simp: new_grant_def)
  moreover have "later p p'" using rest q(3) by (auto simp: q(1) later_def new_grant_def)
  ultimately show ?thesis by blast
qed

lemma opened_one_live:
  assumes "open_door k inst host me now hours offered seen p = Inr p'" and "sound p" and "sound seen" and "later seen p"
    and "one_live t p" and "t \<le> now"
  shows "one_live now p'"
proof -
  obtain h key q where q:
    "p' = q\<lparr>grants := new_grant k inst h me now hours key (next_door p) # grants q, next_door := Suc (next_door p)\<rparr>"
    "kept (p\<lparr>door_keys := fingerprint_of (digest k) key # door_keys p\<rparr>) q"
    "\<forall>g \<in> set (grants q). door_instance g = inst \<and> live now g \<longrightarrow>
       door_id g \<in> door_id ` set (grants seen) \<and> \<not> (\<exists>g0 \<in> set (grants seen). aged g0 g)"
    using open_doorD[OF assms(1)] by metis
  let ?c = "p\<lparr>door_keys := fingerprint_of (digest k) key # door_keys p\<rparr>"
  have "sound ?c" "one_live t ?c" using assms(2,5) by (auto simp: sound_def one_live_def)
  then have lq: "one_live now q" using kept_one_live[OF q(2)] assms(6) by blast
  have "\<not> (door_instance g = inst \<and> live now g)" if g: "g \<in> set (grants q)" for g
  proof
    assume l: "door_instance g = inst \<and> live now g"
    obtain g0 where g0: "g0 \<in> set (grants p)" "aged g0 g" using q(2) g by (auto simp: kept_def)
    have "door_id g < next_door seen" using q(3) g l assms(3) by (auto simp: sound_def)
    then have "\<not> next_door seen \<le> door_id g0" using g0(2) by (simp add: aged_def same_door_def)
    then obtain g1 where "g1 \<in> set (grants seen)" "aged g1 g0" using assms(4) g0(1) by (auto simp: later_def)
    then show False using q(3) g l g0(2) aged_trans by blast
  qed
  with lq show ?thesis by (auto simp: q(1) one_live_def new_grant_def)
qed

section \<open>What holds of every history\<close>

definition log_ok :: "door_log \<Rightarrow> bool" where
  "log_ok h \<longleftrightarrow> (\<exists>t p rest. h = (t, p) # rest \<and> one_live t p \<and> (\<forall>(t', s) \<in> set h. sound s \<and> later s p))"

lemma log_okI:
  assumes "log_ok ((t, p) # h)" and "sound p'" and "later p p'" and "one_live now p'"
  shows "log_ok ((now, p') # (t, p) # h)"
  using assms unfolding log_ok_def by (auto intro: later_trans)

interpretation door_log: kept_by_steps log_step log_ok
proof
  fix h h' assume ok: "log_ok h" and "log_step h h'"
  from this(2) show "log_ok h'"
  proof cases
    case (opens t now t0 seen p h u k inst host offered p')
    then obtain q where q: "open_door k inst host (uid u) now GRANT_HOURS offered seen p = Inr q" "p' = send (Install_key (next_door p)) q"
      by (auto simp: grant_restore_upload_def split: sum.splits elim!: map_sum_InrE)
    have s: "sound p" "one_live t p" "sound seen" "later seen p" using ok opens by (auto simp: log_ok_def)
    note new = opened_sound[OF q(1) s(1)] opened_one_live[OF q(1) s(1,3,4,2) opens(3)]
    have "kept q p'" by (simp add: q(2) kept_send)
    then have "sound p'" "later p p'" "one_live now p'"
      using new kept_sound kept_later later_trans kept_one_live[of q p' now now] by blast+
    then show ?thesis using ok opens log_okI by simp
  next
    case (writes t now p p' h)
    note k = door_write_kept[OF writes(4)]
    have "sound p" "one_live t p" using ok writes by (auto simp: log_ok_def)
    then show ?thesis using k kept_sound kept_later kept_one_live writes(3) ok writes log_okI by (metis (full_types))
  qed
qed

definition no_doors :: doors where
  "no_doors = \<lparr>grants = [], door_keys = [], restores = [], sent_jobs = [], next_door = 1\<rparr>"

lemma no_doors_ok: "log_ok [(t, no_doors)]"
  by (simp add: log_ok_def no_doors_def one_live_def sound_def)

lemmas door_history_ok = door_log.run_keeps[OF _ no_doors_ok]

text \<open>C8. One door per instance. However many people ask for doors at once, each on a snapshot
  of its own, and whatever jobs, restores and sweeps write in between, an instance never
  has two open doors that have not passed their deadline.\<close>

theorem one_door_per_instance:
  assumes "log_step\<^sup>*\<^sup>* [(t0, no_doors)] ((t, p) # h)" and "t \<le> now"
    and "g \<in> set (grants p)" and "g' \<in> set (grants p)" and "live now g" and "live now g'" and "door_instance g = door_instance g'"
  shows "g = g'"
proof -
  have "one_live t p" using door_history_ok[OF assms(1)] by (auto simp: log_ok_def)
  moreover have "live t g" "live t g'" using assms(2,5,6) by (auto simp: live_def)
  ultimately show ?thesis using assms by (simp add: one_live_def)
qed

text \<open>C9. A key opens one door ever: two doors of one fingerprint, at any two moments of a
  history, are one door, with its instance, its directory and its deadline; a grant
  purged in between does not free its key.\<close>

theorem a_key_opens_one_door_ever:
  assumes "log_step\<^sup>*\<^sup>* [(t0, no_doors)] ((t, p) # h)" and "(t', s) \<in> set ((t, p) # h)"
    and "g \<in> set (grants p)" and "g' \<in> set (grants s)" and "fingerprint g = fingerprint g'"
  shows "aged g' g \<and> directory g = directory g'"
proof -
  have s: "sound s" "later s p" using door_history_ok[OF assms(1)] assms(2) by (auto simp: log_ok_def)
  then have "fingerprint g \<in> set (door_keys s)" using assms(4,5) by (auto simp: sound_def)
  then obtain g0 where g0: "g0 \<in> set (grants s)" "aged g0 g" using s(2) assms(3) by (auto simp: later_def)
  then have "g0 = g'" using s(1) assms(4,5) by (auto simp: sound_def aged_def same_door_def)
  with g0(2) show ?thesis by (simp add: aged_def same_door_def directory_def)
qed

text \<open>A first door, opened with a generated key.\<close>

definition some_keys :: key_source where
  "some_keys = \<lparr>load_key = (\<lambda>_. None), digest = (\<lambda>s. Some s), generated = lit ''ssh-ed25519 AAAA'', new_token = lit ''0123456789abcdef'',
     udigit = (\<lambda>_. None)\<rparr>"

definition first_door :: doors where
  "first_door = (case grant_restore_upload \<lparr>su = True, uid = 2, has_group = (\<lambda>_. False)\<rparr> some_keys 7 (Some 3) 100 None no_doors no_doors of
     Inr p \<Rightarrow> p | Inl _ \<Rightarrow> no_doors)"

lemma first_door_opens:
  "grant_restore_upload \<lparr>su = True, uid = 2, has_group = (\<lambda>_. False)\<rparr> some_keys 7 (Some 3) 100 None no_doors no_doors = Inr first_door"
  "grants first_door = [new_grant some_keys 7 3 2 100 12 (lit ''ssh-ed25519 AAAA'') 1]"
  by (simp_all add: first_door_def grant_restore_upload_def check_can_manage_backups_def check_cloud_group_def open_door_def
      key_to_install_def doors_to_close_def awaited_by_restore_def claim_key_def unchanged_def no_doors_def revoke_def write_rows_def
      send_def GRANT_HOURS_def some_keys_def Let_def)

lemma first_door_reached: "log_step\<^sup>*\<^sup>* [(50, no_doors)] [(100, first_door), (50, no_doors)]"
  by (rule r_into_rtranclp, rule opens[OF _ _ first_door_opens(1)]) auto

theorem one_door_per_instance_witness:
  "\<exists>g \<in> set (grants first_door). live 200 g \<and> (\<forall>g' \<in> set (grants first_door). live 200 g' \<and> door_instance g' = 7 \<longrightarrow> g' = g)"
  using one_door_per_instance[OF first_door_reached, of 200]
  by (fastforce simp: first_door_opens(2) new_grant_def live_def)

theorem a_key_opens_one_door_ever_witness:
  "\<exists>g \<in> set (grants first_door). aged g g \<and> directory g = lit ''/tmp/incubacloud-restore/0123456789abcdef''"
  using a_key_opens_one_door_ever[OF first_door_reached, of 100 first_door]
  by (auto simp: first_door_opens(2) new_grant_def directory_def UPLOAD_ROOT_def some_keys_def lit_def)

section \<open>The archive that is restored\<close>

lemma listed_safe: "listed line = Some (n, sha, name) \<Longrightarrow> SAFE_UPLOAD_NAME name"
  by (auto simp: listed_def split: list.splits if_splits)

lemma safe_name: "SAFE_UPLOAD_NAME name \<Longrightarrow> 47 \<notin> set name \<and> name \<noteq> [] \<and> hd name \<noteq> 46"
  by (cases name) (auto simp: SAFE_UPLOAD_NAME_def alphanumeric_def Py_Text.digit_def list_all_iff)


definition full_door :: doors where
  "full_door = no_doors\<lparr>grants := [\<lparr>door_id = 1, door_instance = 7, door_host = 3, token = lit ''0123456789abcdef'',
     public_key = lit ''ssh-ed25519 AAAA'', fingerprint = lit ''SHA256:AAAA'', expires_at = 500, door_state = Granted, upload_limit = 9,
     received = Some (lit ''acme.zip'', 9, lit ''c0ffee''), opened_by = 2, written_at = 100\<rparr>]\<rparr>"


section \<open>The sweep\<close>

definition closed_at :: "int \<Rightarrow> grant \<Rightarrow> grant" where
  "closed_at now g = g\<lparr>door_state := Revoked, written_at := now\<rparr>"

lemma grants_revoke:
  assumes "distinct (map door_id (grants p))"
  shows "grants (revoke Revoked states now (map door_id (filter P (grants p))) p) =
    map (\<lambda>g. if P g \<and> door_state g \<in> set states then closed_at now g else g) (grants p)"
proof -
  have "door_id g \<in> door_id ` set (filter P (grants p)) \<longleftrightarrow> P g" if "g \<in> set (grants p)" for g
    using distinct_key[OF assms] that by auto
  then have "door_id g \<in> door_id ` {g \<in> set (grants p). door_id g \<in> door_id ` set (filter P (grants p)) \<and> door_state g \<in> set states} \<longleftrightarrow>
      P g \<and> door_state g \<in> set states" if "g \<in> set (grants p)" for g
    using distinct_key[OF assms] that by auto
  then show ?thesis by (simp add: revoke_def Let_def write_rows_def closed_at_def)
qed

lemma sent_revoke:
  "sent_jobs (revoke reason states now (map door_id (filter P (grants p))) p) = sent_jobs p @
    map (\<lambda>g. Revoke_key (door_id g) False) (filter (\<lambda>g. door_id g \<in> door_id ` {g \<in> set (grants p). P g} \<and> door_state g \<in> set states) (grants p))"
  by (simp add: revoke_def Let_def)

text \<open>The sweep closes what is due. After it, no door whose deadline has passed is open;
  each it closed has its removal queued and its row still there for it, a consumed one
  three days old included; and no open door that has not passed its deadline is touched.\<close>

theorem sweep_closes_every_expired_door:
  assumes "gc_grants now p = (n, p')" and "g \<in> set (grants p)" and "distinct (map door_id (grants p))"
  shows "(door_state g = Granted \<and> expires_at g < now \<or> door_state g = Used_up \<and> written_at g < now - 86400 * USED_GRANT_DAYS \<longrightarrow>
      Revoke_key (door_id g) False \<in> set (sent_jobs p') \<and> closed_at now g \<in> set (grants p')) \<and>
    (door_state g = Granted \<and> now \<le> expires_at g \<longrightarrow> g \<in> set (grants p')) \<and>
    (\<forall>g' \<in> set (grants p'). door_state g' = Granted \<longrightarrow> now \<le> expires_at g' \<and> g' \<in> set (grants p))"
proof -
  let ?due = "\<lambda>g. door_state g = Granted \<and> expires_at g < now"
  let ?old = "\<lambda>g. door_state g = Used_up \<and> written_at g < now - 86400 * USED_GRANT_DAYS"
  define p1 where "p1 = revoke Revoked [Granted] now (map door_id (filter ?due (grants p))) p"
  define p2 where "p2 = revoke Revoked [Used_up] now (map door_id (filter ?old (grants p1))) p1"
  have g1: "grants p1 = map (\<lambda>g. if ?due g then closed_at now g else g) (grants p)"
    using grants_revoke[OF assms(3), of "[Granted]" now ?due] by (simp add: p1_def)
  moreover have id_closed: "door_id (closed_at now x) = door_id x" for x by (simp add: closed_at_def)
  ultimately have "map door_id (grants p1) = map door_id (grants p)" by (simp cong: if_cong)
  with assms(3) have "distinct (map door_id (grants p1))" by simp
  from grants_revoke[OF this, of "[Used_up]" now ?old]
  have g2: "grants p2 = map (\<lambda>g. if ?old g then closed_at now g else g) (grants p1)" by (simp add: p2_def)
  have all: "grants p2 = map (\<lambda>g. if ?due g \<or> ?old g then closed_at now g else g) (grants p)"
    by (auto simp: g1 g2 closed_at_def)
  have p': "grants p' = filter (\<lambda>g. \<not> (door_state g \<noteq> Granted \<and> written_at g < now - 86400 * 30)) (grants p2)" "sent_jobs p' = sent_jobs p2"
    using assms(1) by (auto simp: gc_grants_def Let_def p1_def p2_def)
  have "Revoke_key (door_id g) False \<in> set (sent_jobs p2)" if "?due g \<or> ?old g"
  proof (cases "?due g")
    case True
    then show ?thesis using assms(2) by (auto simp: p2_def p1_def sent_revoke)
  next
    case False
    with that have "?old g" "g \<in> set (grants p1)" using assms(2) by (auto simp: g1 image_iff)
    then show ?thesis by (auto simp: p2_def sent_revoke)
  qed
  then show ?thesis using assms(2) unfolding p' all by (auto simp: closed_at_def image_iff)
qed

theorem sweep_closes_every_expired_door_witness:
  "fst (gc_grants 600 full_door) = 1 \<and> Revoke_key 1 False \<in> set (sent_jobs (snd (gc_grants 600 full_door)))"
proof -
  have "distinct (map door_id (grants full_door))" by (simp add: full_door_def)
  then have "Revoke_key (door_id (hd (grants full_door))) False \<in> set (sent_jobs (snd (gc_grants 600 full_door)))"
    using sweep_closes_every_expired_door[OF prod.collapse[symmetric], of "hd (grants full_door)" full_door 600]
    by (simp add: full_door_def)
  then show ?thesis by (simp add: full_door_def gc_grants_def revoke_def write_rows_def Let_def)
qed

end
