(* ===== verification/Mcp_Limits.thy ===== *)
theory Mcp_Limits
  imports Py_Text "HOL-Library.Sublist"
begin

text \<open>
  How much one answer of the MCP server may carry and how the agent asks for the
  rest (\<^verbatim>\<open>incubacloud_mcp/protocol/limits.py\<close>): the size of a value as the answer
  serialises it, the longest prefix of a text that fits, a page of entries, a
  page of text, and the strings of an answer cut to a size. The text Python
  gives a finite float (\<^verbatim>\<open>float.__repr__\<close>) is an argument, \<open>frepr\<close>.
\<close>

section \<open>Serialisation\<close>

text \<open>\<^verbatim>\<open>json.dumps(value, ensure_ascii=False)\<close>.\<close>

definition int_text :: "int \<Rightarrow> pystr" where
  "int_text i = (if i < 0 then 45 # decimal (nat (- i)) else decimal (nat i))"

definition escaped :: "nat \<Rightarrow> pystr" where
  "escaped c =
     (if c = 34 then [92, 34] else if c = 92 then [92, 92]
      else if c = 8 then [92, 98] else if c = 9 then [92, 116] else if c = 10 then [92, 110]
      else if c = 12 then [92, 102] else if c = 13 then [92, 114]
      else if c < 32 then [92, 117, 48, 48, hex_digit (c div 16), hex_digit (c mod 16)]
      else [c])"

definition str_text :: "pystr \<Rightarrow> pystr" where
  "str_text s = 34 # concat (map escaped s) @ [34]"

fun joined :: "pystr \<Rightarrow> pystr list \<Rightarrow> pystr" where
  "joined sep [] = []"
| "joined sep [x] = x"
| "joined sep (x # y # ys) = x @ sep @ joined sep (y # ys)"

fun float_text :: "(rat \<Rightarrow> pystr) \<Rightarrow> pyfloat \<Rightarrow> pystr" where
  "float_text frepr (Fin q) = frepr q"
| "float_text frepr PosInf = lit ''Infinity''"
| "float_text frepr NegInf = lit ''-Infinity''"
| "float_text frepr NaN = lit ''NaN''"

fun dumps :: "(rat \<Rightarrow> pystr) \<Rightarrow> json \<Rightarrow> pystr" where
  "dumps frepr JNull = lit ''null''"
| "dumps frepr (JBool b) = lit (if b then ''true'' else ''false'')"
| "dumps frepr (JInt i) = int_text i"
| "dumps frepr (JFloat f) = float_text frepr f"
| "dumps frepr (JStr s) = str_text s"
| "dumps frepr (JList xs) = 91 # joined [44, 32] (map (dumps frepr) xs) @ [93]"
| "dumps frepr (JObj d) =
     123 # joined [44, 32] (map (\<lambda>(k, v). str_text k @ [58, 32] @ dumps frepr v) d) @ [125]"

text \<open>\<^verbatim>\<open>.encode("utf-8", errors="surrogatepass")\<close>: a lone surrogate takes three
  bytes.\<close>

definition char_bytes :: "nat \<Rightarrow> int" where
  "char_bytes c =
     (if int c < 0x80 then 1 else if int c < 0x800 then 2 else if int c < 0x10000 then 3 else 4)"

definition utf8_len :: "pystr \<Rightarrow> int" where
  "utf8_len s = sum_list (map char_bytes s)"

definition size_of :: "(rat \<Rightarrow> pystr) \<Rightarrow> json \<Rightarrow> int" where
  "size_of frepr v = utf8_len (dumps frepr v)"

definition MAX_BYTES :: int where
  "MAX_BYTES = 20 * 1024"

definition SEPARATOR_BYTES :: int where
  "SEPARATOR_BYTES = 2"

section \<open>The longest prefix that fits\<close>

text \<open>\<^verbatim>\<open>_size(text)\<close> of a text, whose serialisation involves no float.\<close>

definition text_size :: "pystr \<Rightarrow> int" where
  "text_size s = utf8_len (str_text s)"

lemma size_of_str: "size_of frepr (JStr s) = text_size s"
  by (simp add: size_of_def text_size_def)

function bisect :: "pystr \<Rightarrow> int \<Rightarrow> int \<Rightarrow> int \<Rightarrow> int" where
  "bisect text max_bytes low high =
     (if low < high then
        let middle = (low + high + 1) div 2 in
        if text_size (take (nat middle) text) \<le> max_bytes then bisect text max_bytes middle high
        else bisect text max_bytes low (middle - 1)
      else low)"
  by pat_completeness auto

termination
  by (relation "measure (\<lambda>(t, m, low, high). nat (high - low))") auto

definition fit :: "pystr \<Rightarrow> int \<Rightarrow> pystr" where
  "fit text max_bytes =
     (if text_size text \<le> max_bytes then text
      else take (nat (bisect text max_bytes 0 (min (int (length text)) max_bytes))) text)"

section \<open>A page of entries\<close>

record page =
  page_entries :: "json list"
  page_offset :: int
  page_total :: int
  page_truncated :: bool
  page_next_offset :: "int option"
  page_too_small :: bool

text \<open>The loop: the page so far, its size, whether an entry was cut.\<close>

fun fill_page ::
  "(rat \<Rightarrow> pystr) \<Rightarrow> int \<Rightarrow> json list \<Rightarrow> json list \<Rightarrow> int \<Rightarrow> bool \<Rightarrow> json list \<times> bool" where
  "fill_page frepr max_bytes [] pg sz was_cut = (pg, was_cut)"
| "fill_page frepr max_bytes (item # items) pg sz was_cut =
     (let cost = size_of frepr item + SEPARATOR_BYTES in
      if sz + cost > max_bytes then
        (if pg \<noteq> [] then (pg, was_cut)
         else
           let text = (case item of JStr s \<Rightarrow> s | _ \<Rightarrow> dumps frepr item);
               piece = fit text (max_bytes - sz - SEPARATOR_BYTES)
           in if piece = [] then (pg, True)
              else fill_page frepr max_bytes items (pg @ [JStr piece])
                     (sz + (text_size piece + SEPARATOR_BYTES)) True)
      else fill_page frepr max_bytes items (pg @ [item]) (sz + cost) was_cut)"

definition page_end :: "json list \<Rightarrow> int \<Rightarrow> int option \<Rightarrow> int" where
  "page_end items offset limit =
     (let total = int (length items) in
      case limit of
        None \<Rightarrow> total
      | Some l \<Rightarrow> if l = 0 then total else min total (offset + max 1 l))"

definition page_items :: "(rat \<Rightarrow> pystr) \<Rightarrow> json list \<Rightarrow> int \<Rightarrow> int option \<Rightarrow> int \<Rightarrow> page" where
  "page_items frepr items offset0 limit max_bytes =
     (let offset = max 0 offset0;
          total = int (length items);
          end' = page_end items offset limit;
          (pg, was_cut) = fill_page frepr max_bytes (drop (nat offset) (take (nat end') items)) [] 2 False;
          following = offset + int (length pg)
      in \<lparr>page_entries = pg, page_offset = offset, page_total = total,
          page_truncated = (was_cut \<or> following < total),
          page_next_offset = (if following < total then Some following else None),
          page_too_small = (pg = [] \<and> offset < end')\<rparr>)"

section \<open>A page of text\<close>

record chunk =
  chunk_text :: pystr
  chunk_offset :: int
  chunk_total :: int
  chunk_truncated :: bool
  chunk_next_offset :: "int option"

definition cap_text :: "pystr \<Rightarrow> int \<Rightarrow> int \<Rightarrow> chunk" where
  "cap_text text offset0 max_bytes =
     (let offset = max 0 offset0;
          piece = fit (drop (nat offset) text) max_bytes;
          following = offset + int (length piece);
          total = int (length text)
      in \<lparr>chunk_text = piece, chunk_offset = offset, chunk_total = total,
          chunk_truncated = (following < total),
          chunk_next_offset = (if following < total then Some following else None)\<rparr>)"

text \<open>\<^verbatim>\<open>cap_strings\<close>: the value with its long strings cut, and whether any was.\<close>

fun cap_strings :: "int \<Rightarrow> pystr list \<Rightarrow> json \<Rightarrow> json \<times> bool" where
  "cap_strings m whole (JStr s) = (let piece = fit s (m + 2) in (JStr piece, piece \<noteq> s))"
| "cap_strings m whole (JObj d) =
     (let pairs = map (\<lambda>(k, v). (k, if k \<in> set whole then (v, False) else cap_strings m whole v)) d
      in (JObj (map (\<lambda>(k, p). (k, fst p)) pairs), list_ex (\<lambda>(k, p). snd p) pairs))"
| "cap_strings m whole (JList xs) =
     (let pairs = map (cap_strings m whole) xs in (JList (map fst pairs), list_ex snd pairs))"
| "cap_strings m whole v = (v, False)"

section \<open>Sizes\<close>

lemma char_bytes_bounds: "1 \<le> char_bytes c" "char_bytes c \<le> 4"
  by (simp_all add: char_bytes_def)

lemma char_bytes_ascii: "c < 128 \<Longrightarrow> char_bytes c = 1"
  by (simp add: char_bytes_def)

lemma utf8_len_simps [simp]:
  "utf8_len [] = 0" "utf8_len (c # s) = char_bytes c + utf8_len s" "utf8_len (s @ t) = utf8_len s + utf8_len t"
  by (simp_all add: utf8_len_def)

lemma hex_digit_ascii: "n < 16 \<Longrightarrow> hex_digit n < 128"
  by (simp add: hex_digit_def)

lemma escaped_bounds: "1 \<le> utf8_len (escaped c)" "utf8_len (escaped c) \<le> 6"
  using char_bytes_bounds [of c] hex_digit_ascii [of "c div 16"] hex_digit_ascii [of "c mod 16"]
  by (simp_all add: escaped_def char_bytes_ascii)

lemma text_size_eq: "text_size s = 2 + sum_list (map (\<lambda>c. utf8_len (escaped c)) s)"
  by (induction s) (simp_all add: text_size_def str_text_def char_bytes_ascii)

lemma text_size_append: "text_size (s @ t) = text_size s + (text_size t - 2)"
  by (simp add: text_size_eq)

lemma text_size_length: "2 + int (length s) \<le> text_size s"
proof (induction s)
  case (Cons c s)
  then show ?case using escaped_bounds(1) [of c] by (simp add: text_size_eq)
qed (simp add: text_size_eq)

lemma text_size_mono:
  assumes "k \<le> l"
  shows "text_size (take k s) \<le> text_size (take l s)"
proof -
  have "take l s = take k s @ take (l - k) (drop k s)"
    using assms by (simp flip: take_add)
  then show ?thesis using text_size_append text_size_length [of "take (l - k) (drop k s)"] by simp
qed

section \<open>What \<^verbatim>\<open>_fit\<close> returns\<close>

declare bisect.simps [simp del]

lemma bisect_prefix:
  assumes "0 \<le> low" and "low \<le> high" and "high \<le> int (length t)"
    and "0 < low \<longrightarrow> text_size (take (nat low) t) \<le> m"
    and "\<forall>k. high < int k \<longrightarrow> k \<le> length t \<longrightarrow> m < text_size (take k t)"
  shows "\<exists>n. bisect t m low high = int n \<and> n \<le> length t \<and>
           (0 < n \<longrightarrow> text_size (take n t) \<le> m) \<and>
           (\<forall>k. n < k \<longrightarrow> k \<le> length t \<longrightarrow> m < text_size (take k t))"
  using assms
proof (induction t m low high rule: bisect.induct)
  case (1 t m low high)
  let ?mid = "(low + high + 1) div 2"
  show ?case
  proof (cases "low < high")
    case False
    then have "bisect t m low high = low" by (subst bisect.simps) simp
    then show ?thesis using False 1(3-7) by (intro exI [of _ "nat low"]) auto
  next
    case True
    then have mid: "low < ?mid" "?mid \<le> high" using 1(3) by auto
    show ?thesis
    proof (cases "text_size (take (nat ?mid) t) \<le> m")
      case fits: True
      have "bisect t m low high = bisect t m ?mid high"
        using True fits by (simp add: bisect.simps [of t m low high] Let_def)
      moreover have "\<exists>n. bisect t m ?mid high = int n \<and> n \<le> length t \<and>
           (0 < n \<longrightarrow> text_size (take n t) \<le> m) \<and>
           (\<forall>k. n < k \<longrightarrow> k \<le> length t \<longrightarrow> m < text_size (take k t))"
        by (rule 1(1) [OF True refl fits]) (use 1(3-7) mid fits in auto)
      ultimately show ?thesis by simp
    next
      case over: False
      have "bisect t m low high = bisect t m low (?mid - 1)"
        using True over by (simp add: bisect.simps [of t m low high] Let_def)
      moreover have "m < text_size (take k t)" if "?mid - 1 < int k" "k \<le> length t" for k
      proof -
        have "nat ?mid \<le> k" using that(1) by (simp add: nat_le_iff)
        from text_size_mono [OF this, of t] show ?thesis using over by linarith
      qed
      then have "\<exists>n. bisect t m low (?mid - 1) = int n \<and> n \<le> length t \<and>
           (0 < n \<longrightarrow> text_size (take n t) \<le> m) \<and>
           (\<forall>k. n < k \<longrightarrow> k \<le> length t \<longrightarrow> m < text_size (take k t))"
        by (intro 1(2) [OF True refl over]) (use 1(3-7) mid in auto)
      ultimately show ?thesis by simp
    qed
  qed
qed

lemma fit_take:
  "\<exists>n. fit t m = take n t \<and> n \<le> length t \<and> (0 < n \<longrightarrow> text_size (take n t) \<le> m) \<and>
     (\<forall>k. n < k \<longrightarrow> k \<le> length t \<longrightarrow> m < text_size (take k t))"
proof (cases "text_size t \<le> m")
  case True
  then show ?thesis by (intro exI [of _ "length t"]) (simp add: fit_def)
next
  case False
  let ?high = "min (int (length t)) m"
  have far: "m < text_size (take k t)" if "?high < int k" "k \<le> length t" for k
    using text_size_length [of "take k t"] that by auto
  show ?thesis
  proof (cases "0 \<le> ?high")
    case True
    then have "\<exists>n. bisect t m 0 ?high = int n \<and> n \<le> length t \<and>
        (0 < n \<longrightarrow> text_size (take n t) \<le> m) \<and> (\<forall>k. n < k \<longrightarrow> k \<le> length t \<longrightarrow> m < text_size (take k t))"
      using far by (intro bisect_prefix) auto
    then show ?thesis using False by (auto simp: fit_def)
  next
    case neg: False
    then have "bisect t m 0 ?high = 0" by (subst bisect.simps) simp
    then have "fit t m = take 0 t" using False by (simp add: fit_def)
    moreover have "m < text_size (take k t)" for k
      using text_size_length [of "take k t"] neg by auto
    ultimately show ?thesis by blast
  qed
qed

text \<open>The cut of a text is its longest prefix that fits. The bisection returns a
  prefix of the text; unless it is empty, its serialisation fits the bytes
  allowed; and no longer prefix fits.\<close>

theorem fit_is_the_longest_prefix:
  "prefix (fit t m) t \<and> (fit t m \<noteq> [] \<longrightarrow> text_size (fit t m) \<le> m) \<and>
   (\<forall>p. prefix p t \<longrightarrow> text_size p \<le> m \<longrightarrow> prefix p (fit t m))"
proof -
  obtain n where n: "fit t m = take n t" "n \<le> length t" "0 < n \<longrightarrow> text_size (take n t) \<le> m"
    "\<forall>k. n < k \<longrightarrow> k \<le> length t \<longrightarrow> m < text_size (take k t)"
    using fit_take [of t m] by blast
  have "prefix p (fit t m)" if p: "prefix p t" "text_size p \<le> m" for p
  proof -
    have "p = take (length p) t" "length p \<le> length t"
      using p(1) by (auto simp: prefix_def)
    then have "length p \<le> n" using n(4) p(2) by (metis not_le)
    then show ?thesis
      using \<open>p = take (length p) t\<close> n(1) by (metis min.absorb1 take_is_prefix take_take)
  qed
  moreover have "text_size (fit t m) \<le> m" if "fit t m \<noteq> []" using n that by (cases n) auto
  ultimately show ?thesis using n(1) by (simp add: take_is_prefix)
qed

theorem fit_is_the_longest_prefix_witness:
  "text_size (lit ''one'') \<le> 5 \<and> prefix (lit ''one'') (fit (lit ''one two'') 5)"
proof -
  have "text_size (lit ''one'') \<le> 5" "prefix (lit ''one'') (lit ''one two'')"
    by code_simp+
  then show ?thesis
    using fit_is_the_longest_prefix [of "lit ''one two''" 5] by blast
qed

lemma fit_progress: "t \<noteq> [] \<Longrightarrow> 8 \<le> m \<Longrightarrow> fit t m \<noteq> []"
proof
  assume t: "t \<noteq> []" and m: "8 \<le> m" and empty: "fit t m = []"
  obtain n where n: "fit t m = take n t" "\<forall>k. n < k \<longrightarrow> k \<le> length t \<longrightarrow> m < text_size (take k t)"
    using fit_take [of t m] by blast
  obtain c s where cs: "t = c # s" using t by (cases t) auto
  have "n = 0" using n(1) empty t by simp
  then have "m < text_size (take 1 t)" using n(2) [rule_format, of 1] cs by simp
  then show False using escaped_bounds(2) [of c] m cs by (simp add: text_size_eq)
qed

section \<open>Text, page after page\<close>

text \<open>What an agent reads that asks for the text again from each \<^verbatim>\<open>next_offset\<close>, up to
  a number of pages.\<close>

fun read_text :: "nat \<Rightarrow> pystr \<Rightarrow> int \<Rightarrow> int \<Rightarrow> pystr option" where
  "read_text 0 t offset m = None"
| "read_text (Suc pages) t offset m =
     (let c = cap_text t offset m in
      case chunk_next_offset c of
        None \<Rightarrow> Some (chunk_text c)
      | Some next \<Rightarrow> map_option (\<lambda>rest. chunk_text c @ rest) (read_text pages t next m))"

lemma read_text_from:
  assumes "8 \<le> m" and "length t - n < pages"
  shows "read_text pages t (int n) m = Some (drop n t)"
  using assms(2)
proof (induction pages arbitrary: n)
  case (Suc pages)
  obtain k where k: "fit (drop n t) m = take k (drop n t)" "k \<le> length (drop n t)"
    using fit_take [of "drop n t" m] by blast
  show ?case
  proof (cases "n + k < length t")
    case False
    then have "k = length (drop n t)" using k(2) by auto
    then show ?thesis using k False by (simp add: cap_text_def Let_def)
  next
    case True
    then have "k \<noteq> 0" using fit_progress [OF _ assms(1), of "drop n t"] k(1) by (cases k) auto
    then have "read_text pages t (int (n + k)) m = Some (drop (n + k) t)"
      using Suc.prems True by (intro Suc.IH) auto
    then show ?thesis
      using k True by (simp add: cap_text_def Let_def min_absorb2 add.commute append_take_drop_id flip: drop_drop)
  qed
qed simp

text \<open>A text read in pages is the text. Whatever the text, with room for at least
  one character serialised (eight bytes), an agent that asks again from each
  offset it is told comes to the last page, and the pages put together are the
  text, with nothing skipped and nothing twice.\<close>

theorem text_pages_make_the_text:
  assumes "8 \<le> m" and "length t < pages"
  shows "read_text pages t 0 m = Some t"
  using read_text_from [of m t 0 pages] assms by simp

theorem text_pages_make_the_text_witness:
  "chunk_next_offset (cap_text (lit ''one two three'') 0 9) = Some 7 \<and>
   read_text 14 (lit ''one two three'') 0 9 = Some (lit ''one two three'')"
proof -
  have "chunk_next_offset (cap_text (lit ''one two three'') 0 9) = Some 7" "length (lit ''one two three'') < 14"
    by code_simp+
  then show ?thesis using text_pages_make_the_text [of 9 "lit ''one two three''" 14] by simp
qed

section \<open>Entries, page after page\<close>

definition entries_cost :: "(rat \<Rightarrow> pystr) \<Rightarrow> json list \<Rightarrow> int" where
  "entries_cost frepr xs = sum_list (map (\<lambda>x. size_of frepr x + SEPARATOR_BYTES) xs)"

lemma joined_len: "utf8_len (joined [44, 32] xs) \<le> sum_list (map (\<lambda>x. utf8_len x + 2) xs)"
  by (induction "[44, 32] :: pystr" xs rule: joined.induct) (simp_all add: char_bytes_ascii)

lemma list_size: "size_of frepr (JList xs) \<le> 2 + entries_cost frepr xs"
  using joined_len [of "map (dumps frepr) xs"]
  by (simp add: size_of_def entries_cost_def SEPARATOR_BYTES_def char_bytes_ascii comp_def)

lemma fill_page_fits:
  assumes "fill_page frepr m items pg sz b = (pg', b')" and "sz = 2 + entries_cost frepr pg" and "pg = [] \<or> sz \<le> m"
  shows "pg' = [] \<or> 2 + entries_cost frepr pg' \<le> m"
  using assms
proof (induction frepr m items pg sz b rule: fill_page.induct)
  case (2 frepr m item items pg sz b)
  let ?cost = "size_of frepr item + SEPARATOR_BYTES"
  let ?t = "case item of JStr s \<Rightarrow> s | _ \<Rightarrow> dumps frepr item"
  let ?p = "fit ?t (m - sz - SEPARATOR_BYTES)"
  have cost: "entries_cost frepr (pg @ [x]) = entries_cost frepr pg + (size_of frepr x + SEPARATOR_BYTES)" for x
    by (simp add: entries_cost_def)
  consider (fits) "sz + ?cost \<le> m" | (full) "sz + ?cost > m" "pg \<noteq> [] \<or> ?p = []"
    | (piece) "sz + ?cost > m" "pg = []" "?p \<noteq> []" by linarith
  then show ?case
  proof cases
    case fits
    then show ?thesis using 2 cost by (simp add: Let_def)
  next
    case full
    then show ?thesis using 2(3-5) by (auto simp: Let_def split: if_splits)
  next
    case piece
    have "text_size ?p \<le> m - sz - SEPARATOR_BYTES"
      using fit_take [of ?t "m - sz - SEPARATOR_BYTES"] piece(3) by (metis gr_zeroI take_0)
    then show ?thesis
      using 2(1) [OF refl _ _ refl refl] 2(3,4) piece cost by (simp add: Let_def size_of_str)
  qed
qed simp

text \<open>What a page shows of an entry: the entry, or, in the first place, a piece of
  its text.\<close>

definition shown :: "(rat \<Rightarrow> pystr) \<Rightarrow> bool \<Rightarrow> json \<Rightarrow> json \<Rightarrow> bool" where
  "shown frepr first_place item x \<longleftrightarrow>
     x = item \<or>
     (first_place \<and> (\<exists>s. x = JStr s \<and> s \<noteq> [] \<and>
        prefix s (case item of JStr t \<Rightarrow> t | _ \<Rightarrow> dumps frepr item)))"

lemma fill_page_shows:
  assumes "fill_page frepr m items pg sz b = (pg', b')"
  shows "\<exists>xs. pg' = pg @ xs \<and> length xs \<le> length items \<and>
           (\<forall>i < length xs. shown frepr (pg = [] \<and> i = 0) (items ! i) (xs ! i))"
  using assms
proof (induction frepr m items pg sz b rule: fill_page.induct)
  case (2 frepr m item items pg sz b)
  let ?cost = "size_of frepr item + SEPARATOR_BYTES"
  let ?t = "case item of JStr s \<Rightarrow> s | _ \<Rightarrow> dumps frepr item"
  let ?p = "fit ?t (m - sz - SEPARATOR_BYTES)"
  have step: ?case if xs: "pg' = (pg @ [x]) @ xs" "length xs \<le> length items"
      "\<forall>i < length xs. shown frepr (pg @ [x] = [] \<and> i = 0) (items ! i) (xs ! i)"
      and x: "shown frepr (pg = []) item x" for x xs
  proof (intro exI [of _ "x # xs"] conjI allI impI)
    fix i assume "i < length (x # xs)"
    then show "shown frepr (pg = [] \<and> i = 0) ((item # items) ! i) ((x # xs) ! i)"
      using xs(3) x by (cases i) auto
  qed (use xs in simp_all)
  consider (fits) "sz + ?cost \<le> m" | (full) "sz + ?cost > m" "pg \<noteq> [] \<or> ?p = []"
    | (piece) "sz + ?cost > m" "pg = []" "?p \<noteq> []" by linarith
  then show ?case
  proof cases
    case fits
    then have "fill_page frepr m items (pg @ [item]) (sz + ?cost) b = (pg', b')"
      using 2(3) by (simp add: Let_def)
    with 2(2) [OF refl] fits obtain xs where "pg' = (pg @ [item]) @ xs" "length xs \<le> length items"
      "\<forall>i < length xs. shown frepr (pg @ [item] = [] \<and> i = 0) (items ! i) (xs ! i)" by force
    then show ?thesis using step by (simp add: shown_def)
  next
    case full
    then have "pg' = pg" using 2(3) by (auto simp: Let_def split: if_splits)
    then show ?thesis by simp
  next
    case piece
    then have "fill_page frepr m items (pg @ [JStr ?p]) (sz + (text_size ?p + SEPARATOR_BYTES)) True = (pg', b')"
      using 2(3) by (simp add: Let_def)
    with 2(1) [OF refl _ _ refl refl] piece obtain xs where "pg' = (pg @ [JStr ?p]) @ xs"
      "length xs \<le> length items"
      "\<forall>i < length xs. shown frepr (pg @ [JStr ?p] = [] \<and> i = 0) (items ! i) (xs ! i)" by force
    moreover have "prefix ?p ?t" using fit_take [of ?t "m - sz - SEPARATOR_BYTES"] take_is_prefix by metis
    ultimately show ?thesis using step [of "JStr ?p"] piece by (simp add: shown_def)
  qed
qed simp

lemma fill_page_progress:
  assumes "fill_page frepr m (item # items) [] 2 False = (pg', b')" and "12 \<le> m"
  shows "pg' \<noteq> []"
proof -
  let ?t = "case item of JStr s \<Rightarrow> s | _ \<Rightarrow> dumps frepr item"
  let ?p = "fit ?t (m - 2 - SEPARATOR_BYTES)"
  have "?p \<noteq> []" if over: "2 + (size_of frepr item + SEPARATOR_BYTES) > m"
  proof (rule fit_progress)
    have "size_of frepr item \<le> 2" if "?t = []"
      using that by (cases item) (simp_all add: size_of_str text_size_eq, simp_all add: size_of_def)
    then show "?t \<noteq> []" using over assms(2) by (auto simp: SEPARATOR_BYTES_def)
    show "8 \<le> m - 2 - SEPARATOR_BYTES" using assms(2) by (simp add: SEPARATOR_BYTES_def)
  qed
  then obtain pg sz b where "fill_page frepr m items pg sz b = (pg', b')" "pg \<noteq> []"
    using assms(1) by (auto simp: Let_def split: if_splits)
  then show ?thesis using fill_page_shows by fastforce
qed

lemma page_end_after:
  assumes "0 \<le> offset" and "offset < int (length items)"
  shows "offset < page_end items offset limit" "page_end items offset limit \<le> int (length items)"
  using assms by (auto simp: page_end_def Let_def split: option.split)

text \<open>C39. Pages of entries fit and skip nothing. A page that starts at one of the
  entries, with room for a few bytes, shows at least that entry; its list fits
  the bytes allowed; its places hold the entries from there on, in order, each
  whole but for the first, of which it may hold a piece of the text; and the
  next page starts right after the last one it shows, until none is left.\<close>

theorem pages_fit_and_skip_no_entry:
  assumes "12 \<le> m" and "offset < length items"
  shows "let p = page_items frepr items (int offset) limit m; n = length (page_entries p) in
     0 < n \<and> size_of frepr (JList (page_entries p)) \<le> m \<and> offset + n \<le> length items \<and>
     (\<forall>i < n. shown frepr (i = 0) (items ! (offset + i)) (page_entries p ! i)) \<and>
     page_next_offset p = (if offset + n < length items then Some (int (offset + n)) else None)"
proof -
  let ?e = "nat (page_end items (int offset) limit)"
  let ?slice = "drop offset (take ?e items)"
  obtain pg b where f: "fill_page frepr m ?slice [] 2 False = (pg, b)"
    by (cases "fill_page frepr m ?slice [] 2 False")
  have e: "offset < ?e" "?e \<le> length items" using page_end_after [of "int offset" items limit] assms(2) by auto
  then obtain x xs where "?slice = x # xs" by (cases ?slice) auto
  then have ne: "pg \<noteq> []" using fill_page_progress [OF _ assms(1)] f by simp
  have "entries_cost frepr [] = 0" by (simp add: entries_cost_def)
  then have size: "size_of frepr (JList pg) \<le> m"
    using fill_page_fits [OF f] ne list_size [of frepr pg] by auto
  obtain ys where ys: "pg = ys" "length ys \<le> length ?slice"
    "\<forall>i < length ys. shown frepr (i = 0) (?slice ! i) (ys ! i)"
    using fill_page_shows [OF f] by auto
  then have "\<forall>i < length pg. shown frepr (i = 0) (items ! (offset + i)) (pg ! i)" using e by simp
  moreover have "offset + length pg \<le> length items" using ys(1,2) e by simp
  moreover have "page_entries (page_items frepr items (int offset) limit m) = pg"
    "page_next_offset (page_items frepr items (int offset) limit m) =
       (if offset + length pg < length items then Some (int (offset + length pg)) else None)"
    using f by (simp_all add: page_items_def Let_def)
  ultimately show ?thesis using ne size by (simp add: Let_def)
qed

theorem pages_fit_and_skip_no_entry_witness:
  "page_next_offset (page_items (\<lambda>_. []) [JStr (lit ''a long first entry''), JInt 12, JBool True] 0 None 12) = Some 1"
proof -
  let ?items = "[JStr (lit ''a long first entry''), JInt 12, JBool True]"
  let ?p = "page_items (\<lambda>_. []) ?items 0 None 12"
  have "length (page_entries ?p) = 1" by code_simp
  then show ?thesis using pages_fit_and_skip_no_entry [of 12 0 ?items "\<lambda>_. []" None] by (simp add: Let_def)
qed

end
