(* ===== verification/Mcp_Answer.thy ===== *)
theory Mcp_Answer
  imports Mcp_Limits "HOL-Library.List_Lexorder"
begin

text \<open>
  The safety net behind the tools that page their answers
  (\<^verbatim>\<open>fit_answer\<close> of \<^verbatim>\<open>incubacloud_mcp/protocol/limits.py\<close>): an answer that does not
  fit has its page of entries shortened, or the lists inside it cut to the same
  number of entries, or is an error. The pages inside an answer, which the code
  finds and changes in place, are found here by their path and put back there; an
  answer is a tree, no part of it shared.
\<close>

section \<open>Cutting every list\<close>

definition assign_all :: "(pystr \<times> json) list \<Rightarrow> dict" where
  "assign_all kvs = fold (\<lambda>(k, v) d. dset k v d) kvs []"

definition truncated_key :: "pystr \<Rightarrow> pystr" where
  "truncated_key k = k @ lit ''_truncated''"

definition may_cut :: "pystr list option \<Rightarrow> pystr \<Rightarrow> bool" where
  "may_cut only k = (case only of None \<Rightarrow> True | Some ks \<Rightarrow> k \<in> set ks)"

lemma size_take_elem: "x \<in> set (take n xs) \<Longrightarrow> size x < Suc (size_list size xs)"
  by (meson in_set_takeD le_imp_less_Suc order_refl size_list_estimation')

lemma size_list_of_take: "size_list size (take n xs) \<le> size_list size xs"
  by (induction xs arbitrary: n) (auto simp: take_Cons split: nat.splits)

lemma size_obj_list_elem:
  "(k, JList xs) \<in> set d \<Longrightarrow> x \<in> set (take n xs) \<Longrightarrow> size x < Suc (size_list (size_prod (\<lambda>_. 0) size) d)"
  by (drule size_obj_elem, drule size_take_elem) simp

function head_lists :: "nat \<Rightarrow> pystr list \<Rightarrow> pystr list option \<Rightarrow> json \<Rightarrow> json" where
  "head_lists n whole only (JObj d) =
     JObj (assign_all (concat (map (\<lambda>(k, item).
       if k \<in> set whole then [(k, item)]
       else (case item of
               JList xs \<Rightarrow>
                 if may_cut only k then
                   (k, JList (map (head_lists n whole only) (take n xs))) #
                   (if n < length xs then [(truncated_key k, JBool True)] else [])
                 else [(k, head_lists n whole only item)]
             | _ \<Rightarrow> [(k, head_lists n whole only item)])) d)))"
| "head_lists n whole only (JList xs) =
     JList (map (head_lists n whole only) (if only \<noteq> None then xs else take n xs))"
| "head_lists n whole only JNull = JNull"
| "head_lists n whole only (JBool b) = JBool b"
| "head_lists n whole only (JInt i) = JInt i"
| "head_lists n whole only (JFloat f) = JFloat f"
| "head_lists n whole only (JStr s) = JStr s"
  by pat_completeness auto

termination
  by (relation "measure (\<lambda>(n, w, p, v). size v)")
    (auto dest: size_obj_elem size_take_elem size_obj_list_elem simp: less_Suc_eq_le size_list_estimation'
      split: if_splits)

definition max_of :: "nat list \<Rightarrow> nat" where
  "max_of ns = fold max ns 0"

fun longest_list :: "pystr list \<Rightarrow> pystr list option \<Rightarrow> json \<Rightarrow> nat" where
  "longest_list whole only (JObj d) =
     max_of (map (\<lambda>(k, item).
       if k \<in> set whole then 0
       else (case item of
               JList xs \<Rightarrow>
                 if may_cut only k then max (length xs) (longest_list whole only item)
                 else longest_list whole only item
             | _ \<Rightarrow> longest_list whole only item)) d)"
| "longest_list whole only (JList xs) =
     (let inner = max_of (map (longest_list whole only) xs) in
      if only = None then max (length xs) inner else inner)"
| "longest_list whole only _ = 0"

text \<open>The bisection both cuts share: the last index of the range found to fit.\<close>

function last_fitting :: "(nat \<Rightarrow> bool) \<Rightarrow> nat \<Rightarrow> nat \<Rightarrow> nat" where
  "last_fitting fits low high =
     (if low < high then
        let middle = (low + high + 1) div 2 in
        if fits middle then last_fitting fits middle high else last_fitting fits low (middle - 1)
      else low)"
  by pat_completeness auto

termination
  by (relation "measure (\<lambda>(f, low, high). high - low)") auto

declare last_fitting.simps [simp del]

definition most_entries ::
  "(rat \<Rightarrow> pystr) \<Rightarrow> int \<Rightarrow> pystr list \<Rightarrow> pystr list option \<Rightarrow> json \<Rightarrow> json option" where
  "most_entries frepr max_bytes whole only obj =
     (if size_of frepr (head_lists 0 whole only obj) > max_bytes then None
      else
        let low = last_fitting (\<lambda>n. size_of frepr (head_lists n whole only obj) \<le> max_bytes)
                    0 (longest_list whole only obj)
        in Some (head_lists low whole only obj))"

text \<open>\<^verbatim>\<open>_held_whole\<close>, sorted as its only caller sorts it.\<close>

fun keys_inside :: "json \<Rightarrow> pystr list" where
  "keys_inside (JObj d) = concat (map (\<lambda>(k, v). k # keys_inside v) d)"
| "keys_inside (JList xs) = concat (map keys_inside xs)"
| "keys_inside _ = []"

definition held_whole :: "json \<Rightarrow> pystr list \<Rightarrow> pystr list" where
  "held_whole obj whole = sort (remdups (filter (\<lambda>k. k \<in> set whole) (keys_inside obj)))"

section \<open>The pages inside an answer\<close>

definition PAGE_LIST_KEYS :: "pystr list" where
  "PAGE_LIST_KEYS = map lit [''items'', ''entries'', ''alerts'']"

text \<open>A path: the position of each child on the way.\<close>

type_synonym path = "nat list"

fun children :: "json \<Rightarrow> json list" where
  "children (JObj d) = map snd d"
| "children (JList xs) = xs"
| "children _ = []"

definition children_at :: "path \<Rightarrow> json \<Rightarrow> (path \<times> json) list" where
  "children_at p v = map (\<lambda>(i, x). (p @ [i], x)) (enumerate 0 (children v))"

fun node_at :: "path \<Rightarrow> json \<Rightarrow> json" where
  "node_at [] v = v"
| "node_at (i # p) v = (if i < length (children v) then node_at p (children v ! i) else JNull)"

fun put_at :: "path \<Rightarrow> json \<Rightarrow> json \<Rightarrow> json" where
  "put_at [] w v = w"
| "put_at (i # p) w (JObj d) =
     (if i < length d then JObj (d[i := (fst (d ! i), put_at p w (snd (d ! i)))]) else JObj d)"
| "put_at (i # p) w (JList xs) = (if i < length xs then JList (xs[i := put_at p w (xs ! i)]) else JList xs)"
| "put_at (i # p) w v = v"

definition is_list :: "json \<Rightarrow> bool" where
  "is_list v = (case v of JList _ \<Rightarrow> True | _ \<Rightarrow> False)"

definition is_int :: "json \<Rightarrow> bool" where
  "is_int v = (case v of JInt _ \<Rightarrow> True | JBool _ \<Rightarrow> True | _ \<Rightarrow> False)"

definition page_key :: "json \<Rightarrow> pystr option" where
  "page_key v =
     (case v of
        JObj d \<Rightarrow>
          if is_int (dget d ''offset'') \<and> map_of d (lit ''next_offset'') \<noteq> None
          then find (\<lambda>k. case map_of d k of None \<Rightarrow> False | Some x \<Rightarrow> is_list x) PAGE_LIST_KEYS
          else None
      | _ \<Rightarrow> None)"

text \<open>The walk of \<^verbatim>\<open>_page_lists\<close>: the last node pushed is the first taken.\<close>

definition total_size :: "(path \<times> json) list \<Rightarrow> nat" where
  "total_size stack = sum_list (map (\<lambda>(p, v). Suc (size v)) stack)"

lemma size_list_children: "sum_list (map (\<lambda>x. Suc (size x)) (children v)) \<le> size v"
proof (cases v)
  case (JList xs)
  have "sum_list (map (\<lambda>x. Suc (size x)) xs) = size_list size xs"
    by (induction xs) auto
  then show ?thesis using JList by simp
next
  case (JObj d)
  have "sum_list (map (\<lambda>x. Suc (size (snd x))) d) \<le> size_list (size_prod (\<lambda>_. 0) size) d"
    by (induction d) auto
  then show ?thesis using JObj by (simp add: o_def)
qed auto

lemma total_size_children: "total_size (rev (children_at p v)) < Suc (size v)"
proof -
  have "map (\<lambda>(q, x). Suc (size x)) (children_at p v) = map (\<lambda>x. Suc (size x)) (children v)"
    by (auto simp: children_at_def o_def split_beta intro: nth_equalityI simp: nth_enumerate_eq)
  then have "total_size (rev (children_at p v)) = sum_list (map (\<lambda>x. Suc (size x)) (children v))"
    by (simp add: total_size_def rev_map[symmetric])
  then show ?thesis using size_list_children[of v] by simp
qed

function page_walk :: "(path \<times> json) list \<Rightarrow> (path \<times> pystr) list" where
  "page_walk [] = []"
| "page_walk ((p, v) # stack) =
     (case page_key v of
        Some k \<Rightarrow> (p, k) # page_walk stack
      | None \<Rightarrow> page_walk (rev (children_at p v) @ stack))"
  by pat_completeness auto

termination
  by (relation "measure total_size")
    (use total_size_children in \<open>auto simp: total_size_def\<close>)

definition page_lists :: "json \<Rightarrow> (path \<times> pystr) list" where
  "page_lists obj = page_walk [([], obj)]"

fun has_next_offset :: "json \<Rightarrow> bool" where
  "has_next_offset (JObj d) =
     (map_of d (lit ''next_offset'') \<noteq> None \<or> list_ex (\<lambda>(k, v). has_next_offset v) d)"
| "has_next_offset (JList xs) = list_ex has_next_offset xs"
| "has_next_offset _ = False"

section \<open>Shortening a page\<close>

definition page_at :: "path \<Rightarrow> json \<Rightarrow> dict" where
  "page_at p obj = (case node_at p obj of JObj d \<Rightarrow> d | _ \<Rightarrow> [])"

definition entries_of :: "dict \<Rightarrow> pystr \<Rightarrow> json list" where
  "entries_of pg key = (case map_of pg key of Some (JList xs) \<Rightarrow> xs | _ \<Rightarrow> [])"

text \<open>\<^verbatim>\<open>max(found, key=...)\<close>: the first of the longest.\<close>

fun longest_page :: "json \<Rightarrow> (path \<times> pystr) list \<Rightarrow> path \<times> pystr \<Rightarrow> path \<times> pystr" where
  "longest_page obj [] best = best"
| "longest_page obj ((p, k) # fs) best =
     longest_page obj fs
       (if length (entries_of (page_at (fst best) obj) (snd best)) < length (entries_of (page_at p obj) k)
        then (p, k) else best)"

definition PAGE_TOO_SMALL :: pystr where
  "PAGE_TOO_SMALL = lit (''The rest of this answer leaves no room for its entries: none can be '' @
     ''shown, and asking again from next_offset gives the same page.'')"

definition too_small :: "dict \<Rightarrow> dict" where
  "too_small pg = dset (lit ''notice'') (JStr PAGE_TOO_SMALL) (dset (lit ''page_too_small'') (JBool True) pg)"

text \<open>\<^verbatim>\<open>page["offset"] + n\<close>, where the offset is an integer or a boolean.\<close>

definition offset_of :: "dict \<Rightarrow> int" where
  "offset_of pg = (case dget pg ''offset'' of JInt i \<Rightarrow> i | JBool b \<Rightarrow> of_bool b | _ \<Rightarrow> 0)"

text \<open>A page whose list ends before the entries do.\<close>

definition ends_at :: "nat \<Rightarrow> dict \<Rightarrow> dict" where
  "ends_at n pg = dset (lit ''truncated'') (JBool True) (dset (lit ''next_offset'') (JInt (offset_of pg + int n)) pg)"

text \<open>An entry as the text a piece is cut from.\<close>

definition entry_text :: "(rat \<Rightarrow> pystr) \<Rightarrow> json \<Rightarrow> pystr" where
  "entry_text frepr v = (case v of JStr s \<Rightarrow> s | _ \<Rightarrow> dumps frepr v)"

text \<open>\<^verbatim>\<open>_cut_first\<close>: the page it leaves and the piece of the first entry.\<close>

definition cut_first ::
  "(rat \<Rightarrow> pystr) \<Rightarrow> int \<Rightarrow> json \<Rightarrow> path \<Rightarrow> pystr \<Rightarrow> json list \<Rightarrow> dict \<Rightarrow> dict \<times> json list" where
  "cut_first frepr max_bytes obj path key entries pg0 =
     (let pg1 = dset key (JList []) pg0;
          pg2 = (if length entries > 1
                 then dset (lit ''next_offset'') (JInt (offset_of pg1 + 1)) pg1 else pg1);
          pg = dset (lit ''truncated'') (JBool True) pg2;
          piece = fit (entry_text frepr (hd entries)) (max_bytes - size_of frepr (put_at path (JObj pg) obj) - SEPARATOR_BYTES - 2)
      in (pg, if piece = [] then [] else [JStr piece]))"

lemma cut_first_length: "(pg', kept) = cut_first frepr m obj p k es pg \<Longrightarrow> length kept \<le> 1"
  by (simp add: cut_first_def Let_def split: if_splits)

text \<open>The last loop of \<^verbatim>\<open>_fit_page\<close>.\<close>

function give_up_entries ::
  "(rat \<Rightarrow> pystr) \<Rightarrow> int \<Rightarrow> json \<Rightarrow> path \<Rightarrow> pystr \<Rightarrow> json list \<Rightarrow> dict \<Rightarrow> json list \<Rightarrow> bool \<Rightarrow> json option" where
  "give_up_entries frepr max_bytes obj path key entries pg0 kept0 first_cut0 =
     (let cut_now = (kept0 = [] \<and> entries \<noteq> [] \<and> \<not> first_cut0);
          (pg1, kept) = (if cut_now then cut_first frepr max_bytes obj path key entries pg0 else (pg0, kept0));
          first_cut = (first_cut0 \<or> cut_now);
          pg2 = dset key (JList kept) pg1;
          pg3 = (if length kept < length entries then ends_at (length kept) pg2 else pg2);
          pg = (if kept = [] \<and> entries \<noteq> [] then too_small pg3 else pg3);
          answer = put_at path (JObj pg) obj
      in if size_of frepr answer \<le> max_bytes then Some answer
         else if kept = [] then None
         else give_up_entries frepr max_bytes obj path key entries pg (butlast kept) first_cut)"
  by pat_completeness auto

termination
  by (relation "measure (\<lambda>(f, m, obj, p, k, es, pg, kept, cut). length kept + (if cut then 0 else 2))")
    (auto dest: cut_first_length split: if_splits)

text \<open>\<^verbatim>\<open>_fit_page\<close>: the answer it leaves when it fits.\<close>

definition fit_page :: "(rat \<Rightarrow> pystr) \<Rightarrow> int \<Rightarrow> json \<Rightarrow> json option" where
  "fit_page frepr max_bytes obj =
     (let (path, key) = longest_page obj (page_lists obj) (hd (page_lists obj));
          pg = page_at path obj;
          entries = entries_of pg key;
          with_first = (\<lambda>n. dset key (JList (take n entries)) pg);
          fits = (\<lambda>n. size_of frepr (put_at path (JObj (with_first n)) obj) \<le> max_bytes)
      in if \<not> fits 0 then None
         else
           let low = last_fitting fits 0 (length entries)
           in give_up_entries frepr max_bytes obj path key entries pg (take low entries) False)"

definition FIELD_BYTES :: int where
  "FIELD_BYTES = 1024"

text \<open>\<^verbatim>\<open>page[key] = entries\<close>, of a page of the answer.\<close>

definition with_entries :: "path \<times> pystr \<Rightarrow> json list \<Rightarrow> json \<Rightarrow> json" where
  "with_entries f es v = put_at (fst f) (JObj (dset (snd f) (JList es) (page_at (fst f) v))) v"

definition cap_around_pages :: "json \<Rightarrow> json" where
  "cap_around_pages obj =
     (let found = page_lists obj;
          entries = map (\<lambda>(p, k). entries_of (page_at p obj) k) found;
          emptied = fold (\<lambda>f. with_entries f []) found obj;
          capped = fst (cap_strings FIELD_BYTES [] emptied)
      in fold (\<lambda>(f, es). with_entries f es) (zip (page_lists capped) entries) capped)"

section \<open>\<^verbatim>\<open>fit_answer\<close>\<close>

definition EXPENDABLE_KEYS :: "pystr list" where
  "EXPENDABLE_KEYS = map lit [''recentJobs'', ''activeJobs'']"

definition error_answer :: "pystr \<Rightarrow> json" where
  "error_answer message = JObj [(lit ''truncated'', JBool True), (lit ''error'', JStr message)]"

definition TOO_LARGE :: pystr where
  "TOO_LARGE = lit ''The answer is too large to show.''"

definition too_large_whole :: "pystr list \<Rightarrow> pystr" where
  "too_large_whole held =
     lit ''The answer is too large to show, and cutting it would cut '' @ joined [44, 32] held @
     lit '', which an update writes back whole: ask for less at a time.''"

definition first_some :: "'a option \<Rightarrow> 'a option \<Rightarrow> 'a option" where
  "first_some a b = (case a of None \<Rightarrow> b | Some x \<Rightarrow> Some x)"

definition fit_answer :: "(rat \<Rightarrow> pystr) \<Rightarrow> json \<Rightarrow> int \<Rightarrow> pystr list \<Rightarrow> json \<times> bool" where
  "fit_answer frepr obj max_bytes whole =
     (if size_of frepr obj \<le> max_bytes then (obj, False)
      else if page_lists obj \<noteq> [] then
        (case first_some (fit_page frepr max_bytes obj) (fit_page frepr max_bytes (cap_around_pages obj)) of
           Some answer \<Rightarrow> (answer, True)
         | None \<Rightarrow> (error_answer TOO_LARGE, True))
      else if has_next_offset obj then (obj, False)
      else
        case most_entries frepr max_bytes whole (Some EXPENDABLE_KEYS) obj of
          Some spared \<Rightarrow> (spared, True)
        | None \<Rightarrow>
            let obj = head_lists 0 whole (Some EXPENDABLE_KEYS) obj in
            case first_some (most_entries frepr max_bytes whole None obj)
                   (most_entries frepr max_bytes whole None (fst (cap_strings FIELD_BYTES whole obj))) of
              Some answer \<Rightarrow> (answer, True)
            | None \<Rightarrow>
                if held_whole obj whole \<noteq> [] then (error_answer (too_large_whole (held_whole obj whole)), True)
                else (error_answer TOO_LARGE, True))"

section \<open>Every answer fits\<close>

lemma last_fitting_fits:
  "fits low \<Longrightarrow> fits (last_fitting fits low high)"
  by (induction fits low high rule: last_fitting.induct) (subst last_fitting.simps, simp add: Let_def)

lemma most_entries_fits:
  assumes "most_entries frepr m whole only obj = Some a"
  shows "size_of frepr a \<le> m"
  using assms last_fitting_fits[of "\<lambda>n. size_of frepr (head_lists n whole only obj) \<le> m" 0]
  by (auto simp: most_entries_def Let_def split: if_splits)

declare give_up_entries.simps [simp del]

lemma give_up_entries_fits:
  "give_up_entries frepr m obj p key es pg kept first_cut = Some a \<Longrightarrow> size_of frepr a \<le> m"
proof (induction frepr m obj p key es pg kept first_cut rule: give_up_entries.induct)
  case (1 frepr m obj p key es pg kept first_cut)
  then show ?case
    by (subst (asm) (2) give_up_entries.simps) (auto simp: Let_def split: prod.splits if_splits)
qed

lemma fit_page_fits: "fit_page frepr m obj = Some a \<Longrightarrow> size_of frepr a \<le> m"
  by (auto simp: fit_page_def Let_def split: prod.splits if_splits dest: give_up_entries_fits)

text \<open>No answer grows past the limit unnoticed. What \<^verbatim>\<open>fit_answer\<close> returns fits the
  bytes allowed, or is the answer itself when that is a page of text, whose offsets
  count characters and which the tool cut, or is an error that says the answer is too
  large; and when it returns the answer it was given, it says it did not cut it.\<close>

theorem fit_answer_fits:
  assumes "fit_answer frepr obj m whole = (a, was_cut)"
  shows "size_of frepr a \<le> m \<or>
    (a = obj \<and> \<not> was_cut \<and> page_lists obj = [] \<and> has_next_offset obj) \<or>
    (was_cut \<and> (\<exists>message. a = error_answer message))"
  using assms unfolding fit_answer_def first_some_def Let_def
  by (auto split: if_splits option.splits dest: fit_page_fits most_entries_fits)

definition two_jobs :: json where
  "two_jobs = JObj [(lit ''repos'', JList [JStr (lit ''x''), JStr (lit ''y'')]),
     (lit ''jobs'', JList [JStr (replicate 40 97), JStr (replicate 40 98)])]"

definition one_job :: json where
  "one_job = JObj [(lit ''repos'', JList [JStr (lit ''x''), JStr (lit ''y'')]),
     (lit ''jobs'', JList [JStr (replicate 40 97)]), (lit ''jobs_truncated'', JBool True)]"

lemma fit_two_jobs: "fit_answer (\<lambda>_. []) two_jobs 110 [lit ''repos''] = (one_job, True)"
  by code_simp

theorem fit_answer_fits_witness:
  "size_of (\<lambda>_. []) one_job \<le> 110 \<or>
   (one_job = two_jobs \<and> \<not> True \<and> page_lists two_jobs = [] \<and> has_next_offset two_jobs) \<or>
   (True \<and> (\<exists>message. one_job = error_answer message))"
  using fit_answer_fits[OF fit_two_jobs] .

section \<open>A shortened page skips no entry\<close>

lemma page_list_keys_apart:
  assumes "key \<in> set PAGE_LIST_KEYS"
  shows "key \<noteq> lit ''offset''" "key \<noteq> lit ''next_offset''" "key \<noteq> lit ''truncated''"
    "key \<noteq> lit ''page_too_small''" "key \<noteq> lit ''notice''"
  using assms by (auto simp: PAGE_LIST_KEYS_def lit_eq)

definition page_shortened :: "(rat \<Rightarrow> pystr) \<Rightarrow> pystr \<Rightarrow> dict \<Rightarrow> dict \<Rightarrow> bool" where
  "page_shortened frepr key pg pg' \<longleftrightarrow>
     (let es = entries_of pg key; kept = entries_of pg' key in
      (prefix kept es \<or>
       (\<exists>piece. kept = [JStr piece] \<and> es \<noteq> [] \<and> prefix piece (entry_text frepr (hd es)))) \<and>
      map_of pg' (lit ''next_offset'') =
        (if length kept < length es then Some (JInt (offset_of pg + int (length kept)))
         else map_of pg (lit ''next_offset'')) \<and>
      (kept = es \<or> map_of pg' (lit ''truncated'') = Some (JBool True)) \<and>
      (kept = [] \<and> es \<noteq> [] \<longrightarrow> map_of pg' (lit ''page_too_small'') = Some (JBool True)) \<and>
      (\<forall>k. k \<notin> set [key, lit ''next_offset'', lit ''truncated''] \<longrightarrow>
        kept = [] \<and> k \<in> set [lit ''page_too_small'', lit ''notice''] \<or> map_of pg' k = map_of pg k))"

definition giving_up :: "dict \<Rightarrow> pystr \<Rightarrow> json list \<Rightarrow> dict \<Rightarrow> json list \<Rightarrow> bool \<Rightarrow> bool" where
  "giving_up pg key es pg0 kept first_cut \<longleftrightarrow>
     prefix kept es \<and> (first_cut \<longrightarrow> kept = [] \<and> es \<noteq> []) \<and>
     (\<forall>k. k \<notin> set [key, lit ''next_offset'', lit ''truncated''] \<longrightarrow> map_of pg0 k = map_of pg k) \<and>
     (kept = es \<or> length es \<le> 1 \<longrightarrow> first_cut \<or> map_of pg0 (lit ''next_offset'') = map_of pg (lit ''next_offset''))"

lemma offset_of_cong: "map_of pg (lit ''offset'') = map_of pg' (lit ''offset'') \<Longrightarrow> offset_of pg = offset_of pg'"
  by (simp add: offset_of_def dget_def)

lemma fit_prefix: "prefix (fit t m) t"
  using fit_take[of t m] by (auto simp: take_is_prefix)

lemma cut_first_piece:
  assumes "cut_first frepr m obj p key es pg = (pg', kept)" "key \<in> set PAGE_LIST_KEYS"
  shows "kept = [] \<or> (\<exists>piece. kept = [JStr piece] \<and> prefix piece (entry_text frepr (hd es)))"
    and "map_of pg' (lit ''truncated'') = Some (JBool True)"
    and "k \<notin> set [key, lit ''next_offset'', lit ''truncated''] \<Longrightarrow> map_of pg' k = map_of pg k"
    and "length es \<le> 1 \<Longrightarrow> map_of pg' (lit ''next_offset'') = map_of pg (lit ''next_offset'')"
  using assms fit_prefix page_list_keys_apart[OF assms(2)]
  by (auto simp: cut_first_def Let_def map_of_dset lit_eq split: if_splits)

definition closed_page :: "pystr \<Rightarrow> json list \<Rightarrow> json list \<Rightarrow> dict \<Rightarrow> dict" where
  "closed_page key es kept pg =
     (let pg2 = dset key (JList kept) pg;
          pg3 = (if length kept < length es then ends_at (length kept) pg2 else pg2)
      in if kept = [] \<and> es \<noteq> [] then too_small pg3 else pg3)"

lemmas closed_page_defs = closed_page_def Let_def ends_at_def too_small_def map_of_dset

lemma closed_page_lookup:
  assumes "key \<in> set PAGE_LIST_KEYS"
  shows "entries_of (closed_page key es kept pg) key = kept"
    and "map_of (closed_page key es kept pg) (lit ''next_offset'') =
      (if length kept < length es then Some (JInt (offset_of pg + int (length kept)))
       else map_of pg (lit ''next_offset''))"
    and "length kept < length es \<Longrightarrow> map_of (closed_page key es kept pg) (lit ''truncated'') = Some (JBool True)"
    and "length es \<le> length kept \<Longrightarrow>
      map_of (closed_page key es kept pg) (lit ''truncated'') = map_of pg (lit ''truncated'')"
    and "kept = [] \<Longrightarrow> es \<noteq> [] \<Longrightarrow>
      map_of (closed_page key es kept pg) (lit ''page_too_small'') = Some (JBool True)"
    and "k \<notin> set [key, lit ''next_offset'', lit ''truncated''] \<Longrightarrow>
      kept \<noteq> [] \<or> k \<notin> set [lit ''page_too_small'', lit ''notice''] \<Longrightarrow>
      map_of (closed_page key es kept pg) k = map_of pg k"
  using page_list_keys_apart[OF assms] page_list_keys_apart[OF assms, symmetric]
    offset_of_cong[of "dset key (JList kept) pg" pg]
  by (auto simp: closed_page_defs entries_of_def lit_eq)

lemma give_up_entries_step:
  assumes "(if kept0 = [] \<and> es \<noteq> [] \<and> \<not> first_cut0
       then cut_first frepr m obj p key es pg0 else (pg0, kept0)) = (pg1, kept)"
  shows "give_up_entries frepr m obj p key es pg0 kept0 first_cut0 =
     (let pg = closed_page key es kept pg1
      in if size_of frepr (put_at p (JObj pg) obj) \<le> m then Some (put_at p (JObj pg) obj)
         else if kept = [] then None
         else give_up_entries frepr m obj p key es pg (butlast kept)
                (first_cut0 \<or> kept0 = [] \<and> es \<noteq> [] \<and> \<not> first_cut0))"
  using assms by (subst give_up_entries.simps) (simp only: Let_def closed_page_def prod.case)

lemma next_kept:
  assumes inv: "giving_up pg key es pg0 kept0 first_cut0" and key: "key \<in> set PAGE_LIST_KEYS"
    and step: "(if kept0 = [] \<and> es \<noteq> [] \<and> \<not> first_cut0
       then cut_first frepr m obj p key es pg0 else (pg0, kept0)) = (pg1, kept)"
  shows "prefix kept es \<or> (\<exists>piece. kept = [JStr piece] \<and> es \<noteq> [] \<and> prefix piece (entry_text frepr (hd es)))"
    and "k \<notin> set [key, lit ''next_offset'', lit ''truncated''] \<Longrightarrow> map_of pg1 k = map_of pg k"
    and "length es \<le> length kept \<Longrightarrow> map_of pg1 (lit ''next_offset'') = map_of pg (lit ''next_offset'')"
    and "kept = es \<or> length kept < length es \<or> map_of pg1 (lit ''truncated'') = Some (JBool True)"
proof -
  note c = cut_first_piece[OF _ key, of frepr m obj p es pg0 pg1 kept]
  show "prefix kept es \<or> (\<exists>piece. kept = [JStr piece] \<and> es \<noteq> [] \<and> prefix piece (entry_text frepr (hd es)))"
    using inv step c(1) by (auto simp: giving_up_def split: if_splits)
  show "k \<notin> set [key, lit ''next_offset'', lit ''truncated''] \<Longrightarrow> map_of pg1 k = map_of pg k"
    using inv step c(3) by (auto simp: giving_up_def split: if_splits)
  show "kept = es \<or> length kept < length es \<or> map_of pg1 (lit ''truncated'') = Some (JBool True)"
    using inv step c(2) by (auto simp: giving_up_def prefix_def split: if_splits)
  show "map_of pg1 (lit ''next_offset'') = map_of pg (lit ''next_offset'')" if "length es \<le> length kept"
  proof (cases "kept0 = [] \<and> es \<noteq> [] \<and> \<not> first_cut0")
    case True
    then have "length kept \<le> 1"
      using step c(1) by auto
    then show ?thesis
      using inv step c(4) True that by (auto simp: giving_up_def)
  next
    case False
    then show ?thesis
      using inv step that by (auto simp: giving_up_def prefix_def)
  qed
qed

lemma page_shortened_closed:
  assumes inv: "giving_up pg key es pg0 kept0 first_cut0" and key: "key \<in> set PAGE_LIST_KEYS"
    and es: "es = entries_of pg key"
    and step: "(if kept0 = [] \<and> es \<noteq> [] \<and> \<not> first_cut0
       then cut_first frepr m obj p key es pg0 else (pg0, kept0)) = (pg1, kept)"
  shows "page_shortened frepr key pg (closed_page key es kept pg1)"
proof -
  note c = closed_page_lookup[OF key, where es = es and kept = kept and pg = pg1] and n = next_kept[OF inv key step]
  have "offset_of pg1 = offset_of pg"
    using n(2)[of "lit ''offset''"] page_list_keys_apart(1)[OF key] by (auto intro!: offset_of_cong simp: lit_eq)
  then show ?thesis
    unfolding page_shortened_def Let_def c(1) es[symmetric] c(2)
    using n c(3-6) by (auto split: if_splits)
qed

lemma giving_up_closed:
  assumes inv: "giving_up pg key es pg0 kept0 first_cut0" and key: "key \<in> set PAGE_LIST_KEYS"
    and step: "(if kept0 = [] \<and> es \<noteq> [] \<and> \<not> first_cut0
       then cut_first frepr m obj p key es pg0 else (pg0, kept0)) = (pg1, kept)"
    and "kept \<noteq> []"
  shows "giving_up pg key es (closed_page key es kept pg1) (butlast kept)
       (first_cut0 \<or> kept0 = [] \<and> es \<noteq> [] \<and> \<not> first_cut0)"
proof -
  note c = closed_page_lookup[OF key, where es = es and kept = kept and pg = pg1] and n = next_kept[OF inv key step]
  have "prefix (butlast kept) es"
    using n(1) by (metis butlast.simps(2) Nil_prefix prefix_order.trans prefixeq_butlast)
  moreover have kept: "kept = kept0" "es \<noteq> []"
    if "\<not> (first_cut0 \<or> kept0 = [] \<and> es \<noteq> [] \<and> \<not> first_cut0)"
    using that step inv assms(4) by (auto simp: giving_up_def prefix_def)
  moreover have "butlast kept \<noteq> es" if "\<not> (first_cut0 \<or> kept0 = [] \<and> es \<noteq> [] \<and> \<not> first_cut0)"
  proof -
    have "length (butlast kept) < length es"
      using kept(1)[OF that] inv assms(4) prefix_length_le[of kept es] by (cases kept) (auto simp: giving_up_def)
    then show ?thesis by blast
  qed
  moreover have "butlast kept = []" "es \<noteq> []" if "first_cut0 \<or> kept0 = [] \<and> es \<noteq> [] \<and> \<not> first_cut0"
    using that step inv assms(4) cut_first_piece(1)[OF _ key, of frepr m obj p es pg0 pg1 kept]
    by (auto simp: giving_up_def split: if_splits)
  moreover have "Suc 0 \<le> length kept"
    using assms(4) by (cases kept) auto
  ultimately show ?thesis
    unfolding giving_up_def using n(2,3) c(2,6) assms(4) inv
    by (auto simp: giving_up_def)
qed

lemma give_up_entries_shortens:
  assumes "give_up_entries frepr m obj p key es pg0 kept0 first_cut0 = Some a"
    and "giving_up pg key es pg0 kept0 first_cut0" "key \<in> set PAGE_LIST_KEYS" "es = entries_of pg key"
  shows "\<exists>pg'. a = put_at p (JObj pg') obj \<and> page_shortened frepr key pg pg'"
  using assms
proof (induction "length kept0 + (if first_cut0 then 0 else 2)" arbitrary: pg0 kept0 first_cut0 rule: less_induct)
  case less
  let ?now = "kept0 = [] \<and> es \<noteq> [] \<and> \<not> first_cut0"
  obtain pg1 kept where step: "(if ?now then cut_first frepr m obj p key es pg0 else (pg0, kept0)) = (pg1, kept)"
    by (metis surj_pair)
  let ?pg = "closed_page key es kept pg1"
  note short = page_shortened_closed[OF less(3-5) step]
  show ?case
  proof (cases "size_of frepr (put_at p (JObj ?pg) obj) \<le> m")
    case True
    then have "a = put_at p (JObj ?pg) obj"
      using less(2) unfolding give_up_entries_step[OF step] by (simp add: Let_def)
    then show ?thesis using short by blast
  next
    case False
    then have "kept \<noteq> []" and rec: "give_up_entries frepr m obj p key es ?pg (butlast kept) (first_cut0 \<or> ?now) = Some a"
      using less(2) unfolding give_up_entries_step[OF step] by (auto simp: Let_def split: if_splits)
    moreover have "length (butlast kept) + (if first_cut0 \<or> ?now then 0 else 2) < length kept0 + (if first_cut0 then 0 else 2)"
      using step \<open>kept \<noteq> []\<close> less(3) by (auto simp: giving_up_def dest!: cut_first_length[OF sym] split: if_splits)
    ultimately show ?thesis
      using less(1)[OF _ rec giving_up_closed[OF less(3,4) step] less(4,5)] by blast
  qed
qed

lemma longest_page_mem: "longest_page obj fs best \<in> insert best (set fs)"
  by (induction obj fs best rule: longest_page.induct) auto

lemma page_key_mem: "page_key v = Some k \<Longrightarrow> k \<in> set PAGE_LIST_KEYS"
  by (auto simp: page_key_def find_Some_iff split: json.splits if_splits)

lemma page_walk_keys: "(p, k) \<in> set (page_walk stack) \<Longrightarrow> k \<in> set PAGE_LIST_KEYS"
  by (induction stack rule: page_walk.induct) (auto dest: page_key_mem split: option.splits)

text \<open>Two answers with their pages in the same places.\<close>

inductive like_pages :: "json \<Rightarrow> json \<Rightarrow> bool" where
  page: "page_key u = Some k \<Longrightarrow> page_key v = Some k \<Longrightarrow> like_pages u v"
| node: "page_key u = None \<Longrightarrow> page_key v = None \<Longrightarrow> list_all2 like_pages (children u) (children v) \<Longrightarrow>
    like_pages u v"

lemma like_pages_refl: "like_pages v v"
proof (induction "size v" arbitrary: v rule: less_induct)
  case less
  have "like_pages x x" if "x \<in> set (children v)" for x
    by (rule less) (use that in \<open>cases v; auto simp: less_Suc_eq_le size_list_estimation' dest: size_obj_elem\<close>)
  then show ?case
    by (cases "page_key v") (auto intro: like_pages.intros simp: list_all2_same)
qed

lemma like_pages_trans: "like_pages u v \<Longrightarrow> like_pages v x \<Longrightarrow> like_pages u x"
proof (induction arbitrary: x rule: like_pages.induct)
  case (page u k v)
  then have "page_key x = Some k" by (auto elim!: like_pages.cases[of v])
  then show ?case using page.hyps(1) by (rule like_pages.page[rotated])
next
  case (node u v)
  from node.prems node.hyps(2) have "page_key x = None" "list_all2 like_pages (children v) (children x)"
    by (auto elim!: like_pages.cases[of v])
  then show ?case
    using node.hyps node.IH by (auto intro!: like_pages.node simp: list_all2_conv_all_nth)
qed

lemma page_walk_like:
  assumes "list_all2 (\<lambda>(p, u) (q, v). p = q \<and> like_pages u v) s t"
  shows "page_walk s = page_walk t"
  using assms
proof (induction s arbitrary: t rule: page_walk.induct)
  case (2 p u s)
  then obtain v t' where t: "t = (p, v) # t'" "like_pages u v" "list_all2 (\<lambda>(p, u) (q, v). p = q \<and> like_pages u v) s t'"
    by (auto simp: list_all2_Cons1)
  from t(2) show ?case
  proof cases
    case (page k)
    then show ?thesis using 2 t by auto
  next
    case node
    then have "list_all2 (\<lambda>(p, u) (q, v). p = q \<and> like_pages u v) (children_at p u) (children_at p v)"
      by (auto simp: children_at_def list_all2_conv_all_nth nth_enumerate_eq)
    then have "list_all2 (\<lambda>(p, u) (q, v). p = q \<and> like_pages u v) (rev (children_at p u) @ s) (rev (children_at p v) @ t')"
      using t(3) by (intro list_all2_appendI) simp_all
    then show ?thesis using 2(1)[OF node(1)] t node by simp
  qed
qed simp

lemma page_lists_like: "like_pages u v \<Longrightarrow> page_lists u = page_lists v"
  unfolding page_lists_def by (rule page_walk_like) simp

text \<open>The same constructor.\<close>

definition same_shape :: "json \<Rightarrow> json \<Rightarrow> bool" where
  "same_shape u v \<longleftrightarrow> is_list u = is_list v \<and> is_int u = is_int v \<and> ((\<exists>d. u = JObj d) \<longleftrightarrow> (\<exists>d. v = JObj d))"

lemma page_key_cong:
  assumes "\<And>k. map_of d k = None \<longleftrightarrow> map_of d' k = None"
    and "\<And>k x y. map_of d k = Some x \<Longrightarrow> map_of d' k = Some y \<Longrightarrow> same_shape x y"
  shows "page_key (JObj d) = page_key (JObj d')"
proof -
  have int: "is_int (dget d ''offset'') = is_int (dget d' ''offset'')"
    using assms[of "lit ''offset''"] by (auto simp: dget_def same_shape_def split: option.splits)
  have "(case map_of d k of None \<Rightarrow> False | Some x \<Rightarrow> is_list x) = (case map_of d' k of None \<Rightarrow> False | Some x \<Rightarrow> is_list x)" for k
    using assms[of k] by (auto simp: same_shape_def split: option.splits)
  then show ?thesis
    using int assms(1)[of "lit ''next_offset''"] unfolding page_key_def by auto
qed

lemma page_key_shapes:
  assumes "list_all2 (\<lambda>e e'. fst e = fst e' \<and> same_shape (snd e) (snd e')) d d'"
  shows "page_key (JObj d) = page_key (JObj d')"
proof -
  have "rel_option same_shape (map_of d k) (map_of d' k)" for k
    using assms by (induction rule: list_all2_induct) auto
  then show ?thesis
    by (intro page_key_cong) (metis option.rel_distinct(1,2) not_None_eq, metis option.rel_inject(2))
qed

fun on_way :: "path \<Rightarrow> json \<Rightarrow> bool" where
  "on_way [] v = True"
| "on_way (i # p) v = (page_key v = None \<and> i < length (children v) \<and> on_way p (children v ! i))"

lemma page_walk_reached:
  "(p, k) \<in> set (page_walk stack) \<Longrightarrow>
   \<exists>q v r. (q, v) \<in> set stack \<and> p = q @ r \<and> on_way r v \<and> page_key (node_at r v) = Some k"
proof (induction stack rule: page_walk.induct)
  case (2 q v stack)
  show ?case
  proof (cases "page_key v")
    case None
    then obtain q' u r where r: "(q', u) \<in> set (rev (children_at q v) @ stack)" "p = q' @ r" "on_way r u"
      "page_key (node_at r u) = Some k"
      using 2 by auto
    show ?thesis
    proof (cases "(q', u) \<in> set stack")
      case False
      then obtain i where "i < length (children v)" "q' = q @ [i]" "u = children v ! i"
        using r(1) by (auto simp: children_at_def in_set_enumerate_eq)
      then show ?thesis
        using r None by (intro exI[of _ q] exI[of _ v] exI[of _ "i # r"]) auto
    qed (use r in auto)
  next
    case (Some k')
    show ?thesis
    proof (cases "(p, k) = (q, k')")
      case True
      then show ?thesis
        using Some by (intro exI[of _ q] exI[of _ v] exI[of _ "[]"]) auto
    qed (use 2 Some in auto)
  qed
qed simp

lemma same_shape_refl [simp]: "same_shape v v"
  by (simp add: same_shape_def)

lemma put_at_like:
  assumes "on_way p v" "page_key (node_at p v) = Some k" "page_key (JObj pg) = Some k"
  shows "like_pages v (put_at p (JObj pg) v) \<and> same_shape v (put_at p (JObj pg) v)"
  using assms
proof (induction p arbitrary: v)
  case Nil
  then show ?case
    by (cases v) (auto intro: like_pages.page simp: same_shape_def is_list_def is_int_def page_key_def)
next
  case (Cons i p)
  then have IH: "like_pages (children v ! i) (put_at p (JObj pg) (children v ! i))"
    "same_shape (children v ! i) (put_at p (JObj pg) (children v ! i))" and i: "i < length (children v)" "page_key v = None"
    by auto
  show ?case
  proof (cases v)
    case (JList xs)
    then show ?thesis
      using IH(1) i by (auto simp: same_shape_def is_list_def is_int_def page_key_def list_all2_conv_all_nth
          nth_list_update like_pages_refl intro!: like_pages.node)
  next
    case (JObj d)
    let ?d = "d[i := (fst (d ! i), put_at p (JObj pg) (snd (d ! i)))]"
    have "list_all2 (\<lambda>e e'. fst e = fst e' \<and> same_shape (snd e) (snd e')) d ?d"
      using IH(2) i JObj by (auto simp: list_all2_conv_all_nth nth_list_update)
    then have "page_key (JObj ?d) = None"
      using page_key_shapes[of d ?d] i(2) unfolding JObj by simp
    then show ?thesis
      using IH(1) i JObj by (auto simp: same_shape_def is_list_def is_int_def list_all2_conv_all_nth
          nth_list_update like_pages_refl intro!: like_pages.node)
  qed (use i in auto)
qed

lemma page_key_dset:
  assumes "page_key (JObj pg) = Some k"
  shows "page_key (JObj (dset k (JList es) pg)) = Some k"
proof -
  have "\<exists>xs. map_of pg k = Some (JList xs)"
    using assms by (auto simp: page_key_def find_Some_iff is_list_def split: if_splits option.splits json.splits)
  then have "page_key (JObj (dset k (JList es) pg)) = page_key (JObj pg)"
    by (intro page_key_cong) (auto simp: map_of_dset same_shape_def is_list_def is_int_def split: if_splits)
  then show ?thesis using assms by simp
qed

lemma with_entries_like:
  assumes "f \<in> set (page_lists v)"
  shows "like_pages v (with_entries f es v)"
proof -
  obtain p k where f: "f = (p, k)" by fastforce
  have way: "on_way p v" "page_key (node_at p v) = Some k"
    using assms page_walk_reached[of p k "[([], v)]"] by (auto simp: page_lists_def f)
  then have "page_key (JObj (page_at p v)) = Some k"
    by (cases "node_at p v") (auto simp: page_at_def page_key_def split: if_splits)
  then show ?thesis
    using put_at_like[OF way] page_key_dset f by (auto simp: with_entries_def)
qed

lemma fold_with_entries_like:
  assumes "set (map fst fs) \<subseteq> set (page_lists v0)" "like_pages v0 v"
  shows "like_pages v0 (fold (\<lambda>(f, es). with_entries f es) fs v)"
  using assms
proof (induction fs arbitrary: v)
  case (Cons x fs)
  have "like_pages v (with_entries (fst x) (snd x) v)"
    using Cons.prems page_lists_like by (intro with_entries_like) auto
  then show ?case
    using Cons by (auto simp: split_beta intro: like_pages_trans)
qed simp

lemma cap_strings_like: "w = [] \<Longrightarrow> like_pages v (fst (cap_strings m w v)) \<and> same_shape v (fst (cap_strings m w v))"
proof (induction m w v rule: cap_strings.induct)
  case (2 m w d)
  have IH: "like_pages x (fst (cap_strings m [] x)) \<and> same_shape x (fst (cap_strings m [] x))" if "(k, x) \<in> set d" for k x
    using 2 that by auto
  then have nth: "like_pages (snd (d ! i)) (fst (cap_strings m [] (snd (d ! i)))) \<and>
      same_shape (snd (d ! i)) (fst (cap_strings m [] (snd (d ! i))))" if "i < length d" for i
    using that by (metis nth_mem prod.collapse)
  let ?d = "map (\<lambda>(k, v). (k, fst (cap_strings m [] v))) d"
  have cap: "fst (cap_strings m w (JObj d)) = JObj ?d"
    using 2(2) by (auto simp: Let_def)
  have pk: "page_key (JObj d) = page_key (JObj ?d)"
    using nth by (intro page_key_shapes) (auto simp: list_all2_conv_all_nth split_beta)
  have ch: "list_all2 like_pages (children (JObj d)) (children (JObj ?d))"
    using nth by (auto simp: list_all2_conv_all_nth split_beta)
  have "like_pages (JObj d) (JObj ?d)"
  proof (cases "page_key (JObj d)")
    case None
    then show ?thesis using pk ch by (intro like_pages.node) simp_all
  next
    case (Some k)
    then show ?thesis using pk by (intro like_pages.page[of _ k]) simp_all
  qed
  then show ?case
    unfolding cap by (simp add: same_shape_def is_list_def is_int_def)
next
  case (3 m w xs)
  then show ?case
    by (auto simp: Let_def same_shape_def is_list_def is_int_def page_key_def list_all2_conv_all_nth intro!: like_pages.node)
qed (auto intro: like_pages_refl simp: Let_def same_shape_def is_list_def is_int_def page_key_def intro!: like_pages.node)

text \<open>The two walks of \<^verbatim>\<open>_cap_around_pages\<close> find the same pages, so its strict \<^verbatim>\<open>zip\<close>
  pairs each with its own entries and does not raise.\<close>

lemma emptied_like: "like_pages obj (fold (\<lambda>f. with_entries f []) (page_lists obj) obj)"
proof -
  have "fold (\<lambda>f. with_entries f []) fs v = fold (\<lambda>(f, es). with_entries f es) (map (\<lambda>f. (f, [])) fs) v" for fs v
    by (induction fs arbitrary: v) auto
  then show ?thesis
    using fold_with_entries_like[of "map (\<lambda>f. (f, [])) (page_lists obj)" obj obj] by (simp add: o_def like_pages_refl)
qed

lemma cap_around_pages_like: "like_pages obj (cap_around_pages obj)"
proof -
  let ?capped = "fst (cap_strings FIELD_BYTES [] (fold (\<lambda>f. with_entries f []) (page_lists obj) obj))"
  have capped: "like_pages obj ?capped"
    using emptied_like cap_strings_like[OF refl] like_pages_trans by blast
  then have "page_lists ?capped = page_lists obj"
    using page_lists_like by metis
  then show ?thesis
    unfolding cap_around_pages_def Let_def
    by (intro fold_with_entries_like[OF _ capped]) (auto dest: set_zip_leftD)
qed

lemma page_lists_cap_around: "page_lists (cap_around_pages obj) = page_lists obj"
  using page_lists_like[OF cap_around_pages_like] by simp

lemma node_at_put_at:
  "on_way p v \<Longrightarrow> node_at p (put_at p w v) = w"
  by (induction p w v rule: put_at.induct) auto

lemma node_at_put_elsewhere:
  "\<not> prefix p q \<Longrightarrow> \<not> prefix q p \<Longrightarrow> node_at p (put_at q w v) = node_at p v"
proof (induction q w v arbitrary: p rule: put_at.induct)
  case (2 i q w d)
  then show ?case by (cases p) (auto simp: nth_list_update)
next
  case (3 i q w xs)
  then show ?case by (cases p) (auto simp: nth_list_update)
qed auto

lemma page_reached:
  assumes "(p, k) \<in> set (page_lists v)"
  shows "on_way p v" "page_key (node_at p v) = Some k"
  using assms page_walk_reached[of p k "[([], v)]"] by (auto simp: page_lists_def)

lemma on_way_prefix: "on_way (p @ q) v \<Longrightarrow> page_key (node_at p v) = Some k \<Longrightarrow> q = []"
  by (induction p arbitrary: v) (auto, cases q, auto)

lemma pages_apart:
  assumes "(p, k) \<in> set (page_lists v)" "(q, l) \<in> set (page_lists v)" "(p, k) \<noteq> (q, l)"
  shows "\<not> prefix p q" "\<not> prefix q p"
  using page_reached[OF assms(1)] page_reached[OF assms(2)] assms(3) on_way_prefix
  by (fastforce simp: prefix_def)+

lemma entries_with_entries:
  assumes "f \<in> set (page_lists v)" "g \<in> set (page_lists v)"
  shows "entries_of (page_at (fst f) (with_entries g es v)) (snd f) =
    (if f = g then es else entries_of (page_at (fst f) v) (snd f))"
proof (cases "f = g")
  case True
  then show ?thesis
    using page_reached(1)[of "fst g" "snd g" v] assms(2)
    by (simp add: with_entries_def page_at_def node_at_put_at entries_of_def map_of_dset)
next
  case False
  then show ?thesis
    using pages_apart[of "fst f" "snd f" v "fst g" "snd g"] assms
    by (simp add: with_entries_def page_at_def node_at_put_elsewhere)
qed

lemma fold_with_entries_entries:
  assumes "fst ` set fs \<subseteq> set (page_lists v)" "\<And>g es. (g, es) \<in> set fs \<Longrightarrow> es = want g" "f \<in> set (page_lists v)"
    and "f \<in> fst ` set fs \<or> entries_of (page_at (fst f) v) (snd f) = want f"
  shows "entries_of (page_at (fst f) (fold (\<lambda>(f, es). with_entries f es) fs v)) (snd f) = want f"
  using assms
proof (induction fs arbitrary: v)
  case (Cons x fs)
  obtain g es where x: "x = (g, es)" by fastforce
  have same: "page_lists (with_entries g es v) = page_lists v"
    using Cons.prems(1) x page_lists_like[OF with_entries_like] by simp
  have "f \<in> fst ` set fs \<or> entries_of (page_at (fst f) (with_entries g es v)) (snd f) = want f"
    using Cons.prems x entries_with_entries[of f v g es] by auto
  then show ?case
    using Cons.IH[of "with_entries g es v"] Cons.prems same x by auto
qed auto

lemma entries_cap_around:
  assumes "(p, k) \<in> set (page_lists obj)"
  shows "entries_of (page_at p (cap_around_pages obj)) k = entries_of (page_at p obj) k"
proof -
  let ?capped = "fst (cap_strings FIELD_BYTES [] (fold (\<lambda>f. with_entries f []) (page_lists obj) obj))"
  let ?want = "\<lambda>f. entries_of (page_at (fst f) obj) (snd f)"
  have pages: "page_lists ?capped = page_lists obj"
    using emptied_like cap_strings_like[OF refl] like_pages_trans page_lists_like by metis
  have zip: "zip (page_lists ?capped) (map (\<lambda>(p, k). entries_of (page_at p obj) k) (page_lists obj)) =
      map (\<lambda>f. (f, ?want f)) (page_lists obj)"
    by (simp add: pages zip_map2 zip_same_conv_map split_beta)
  have "entries_of (page_at (fst (p, k)) (fold (\<lambda>(f, es). with_entries f es)
      (map (\<lambda>f. (f, ?want f)) (page_lists obj)) ?capped)) (snd (p, k)) = ?want (p, k)"
    by (rule fold_with_entries_entries) (use assms pages in \<open>auto simp: image_iff\<close>)
  then show ?thesis
    by (simp add: cap_around_pages_def Let_def zip)
qed

lemma fit_page_shortens:
  assumes "page_lists obj \<noteq> []" and "fit_page frepr m obj = Some a"
  shows "\<exists>p key pg. (p, key) \<in> set (page_lists obj) \<and> a = put_at p (JObj pg) obj \<and>
      page_shortened frepr key (page_at p obj) pg"
proof -
  obtain p key where pk: "longest_page obj (page_lists obj) (hd (page_lists obj)) = (p, key)"
    by fastforce
  then have mem: "(p, key) \<in> set (page_lists obj)"
    using longest_page_mem[of obj "page_lists obj" "hd (page_lists obj)"] assms(1) by (metis insertE list.set_sel(1))
  then have key: "key \<in> set PAGE_LIST_KEYS"
    unfolding page_lists_def by (rule page_walk_keys)
  let ?pg = "page_at p obj" and ?es = "entries_of (page_at p obj) key"
  obtain n where n: "give_up_entries frepr m obj p key ?es ?pg (take n ?es) False = Some a"
    using assms(2) pk by (auto simp: fit_page_def Let_def split: if_splits)
  have "giving_up ?pg key ?es ?pg (take n ?es) False"
    by (auto simp: giving_up_def take_is_prefix)
  then show ?thesis
    using give_up_entries_shortens[OF n _ key refl] mem by blast
qed

text \<open>C37. An answer with pages that has to be cut loses no entry without saying where to go
  on. But for the error, it is the answer, its strings outside the pages cut to 1 KB
  when it does not fit otherwise, with one page shortened: of that page's entries the
  first ones are kept, or only a piece of the first; its next page starts at the first
  entry left out, at \<open>offset\<close> plus as many as were kept; it says it was cut, an empty
  one that it is too small, and everything else in it is as it was.\<close>

theorem shortened_page_skips_no_entry:
  assumes "page_lists obj \<noteq> []" and "fit_answer frepr obj m w = (a, True)" and "a \<noteq> error_answer TOO_LARGE"
  shows "\<exists>src p key pg. src \<in> {obj, cap_around_pages obj} \<and> (p, key) \<in> set (page_lists obj) \<and>
    a = put_at p (JObj pg) src \<and> page_shortened frepr key (page_at p src) pg \<and>
    entries_of (page_at p src) key = entries_of (page_at p obj) key"
proof -
  obtain src where src: "src \<in> {obj, cap_around_pages obj}" "fit_page frepr m src = Some a"
    using assms by (auto simp: fit_answer_def first_some_def split: if_splits option.splits)
  then have pages: "page_lists src = page_lists obj"
    using page_lists_cap_around by auto
  then show ?thesis
    using fit_page_shortens[OF _ src(2)] assms(1) src(1) entries_cap_around by (metis insertE singletonD)
qed

definition two_entries :: json where
  "two_entries = JObj [(lit ''items'', JList [JStr (replicate 40 97), JStr (replicate 40 98)]),
     (lit ''offset'', JInt 5), (lit ''next_offset'', JNull)]"

definition one_entry :: json where
  "one_entry = JObj [(lit ''items'', JList [JStr (replicate 40 97)]),
     (lit ''offset'', JInt 5), (lit ''next_offset'', JInt 6), (lit ''truncated'', JBool True)]"

theorem shortened_page_skips_no_entry_witness:
  "page_lists two_entries \<noteq> [] \<and> fit_answer (\<lambda>_. []) two_entries 110 [] = (one_entry, True) \<and>
   (\<exists>src p key pg. src \<in> {two_entries, cap_around_pages two_entries} \<and>
    (p, key) \<in> set (page_lists two_entries) \<and> one_entry = put_at p (JObj pg) src \<and>
    page_shortened (\<lambda>_. []) key (page_at p src) pg \<and>
    entries_of (page_at p src) key = entries_of (page_at p two_entries) key)"
proof -
  have "page_lists two_entries \<noteq> []" "fit_answer (\<lambda>_. []) two_entries 110 [] = (one_entry, True)"
    "one_entry \<noteq> error_answer TOO_LARGE"
    by code_simp+
  then show ?thesis using shortened_page_skips_no_entry by blast
qed

section \<open>What an update writes back whole is not cut\<close>

text \<open>An answer cut: strings to a prefix, lists to their first entries, each entry cut
  in turn; an object keeps every key, and the values under the keys of \<open>w\<close> as they
  are.\<close>

inductive cut_of :: "pystr list \<Rightarrow> json \<Rightarrow> json \<Rightarrow> bool" for w where
  same: "cut_of w v v"
| in_text: "prefix t s \<Longrightarrow> cut_of w (JStr s) (JStr t)"
| in_list: "length ys \<le> length xs \<Longrightarrow> list_all2 (cut_of w) (take (length ys) xs) ys \<Longrightarrow>
    cut_of w (JList xs) (JList ys)"
| in_obj: "(\<And>k x. map_of d k = Some x \<Longrightarrow>
      \<exists>y. map_of d' k = Some y \<and> (if k \<in> set w then y = x else cut_of w x y)) \<Longrightarrow>
    cut_of w (JObj d) (JObj d')"

inductive_cases cut_of_strE: "cut_of w (JStr s) v"
inductive_cases cut_of_listE: "cut_of w (JList xs) v"
inductive_cases cut_of_objE: "cut_of w (JObj d) v"

lemma cut_of_trans: "cut_of w u v \<Longrightarrow> cut_of w v x \<Longrightarrow> cut_of w u x"
proof (induction arbitrary: x rule: cut_of.induct)
  case (in_text t s)
  then show ?case by (auto elim!: cut_of_strE intro: cut_of.intros dest: prefix_order.trans)
next
  case (in_list ys xs)
  from in_list.prems consider "x = JList ys"
    | zs where "x = JList zs" "length zs \<le> length ys" "list_all2 (cut_of w) (take (length zs) ys) zs"
    by (rule cut_of_listE) blast+
  then show ?case
  proof cases
    case (2 zs)
    then have "cut_of w (xs ! i) (zs ! i)" if "i < length zs" for i
      using that in_list by (auto simp: list_all2_conv_all_nth)
    then show ?thesis
      using 2 in_list by (auto simp: list_all2_conv_all_nth intro!: cut_of.in_list)
  qed (use in_list in \<open>auto simp: list_all2_conv_all_nth intro!: cut_of.in_list\<close>)
next
  case (in_obj d d')
  from in_obj.prems consider "x = JObj d'"
    | d'' where "x = JObj d''" "\<And>k y. map_of d' k = Some y \<Longrightarrow>
      \<exists>z. map_of d'' k = Some z \<and> (if k \<in> set w then z = y else cut_of w y z)"
    by (rule cut_of_objE) blast+
  then show ?case
  proof cases
    case (2 d'')
    have "\<exists>z. map_of d'' k = Some z \<and> (if k \<in> set w then z = y else cut_of w y z)" if "map_of d k = Some y" for k y
      using in_obj.IH[OF that] 2(2) by (cases "k \<in> set w") fastforce+
    then show ?thesis
      unfolding 2(1) by (rule cut_of.in_obj)
  next
    case 1
    have "\<exists>z. map_of d' k = Some z \<and> (if k \<in> set w then z = y else cut_of w y z)" if "map_of d k = Some y" for k y
      using in_obj.IH[OF that] by auto
    then show ?thesis
      unfolding 1 by (rule cut_of.in_obj)
  qed
qed auto

text \<open>An answer whose keys are distinct and where a key that says a list was cut says
  \<^verbatim>\<open>True\<close>, as every answer without such keys is.\<close>

fun marked :: "json \<Rightarrow> bool" where
  "marked (JObj d) =
     (distinct (map fst d) \<and>
      list_all (\<lambda>(k, x). marked x \<and> (suffix (lit ''_truncated'') k \<longrightarrow> x = JBool True)) d)"
| "marked (JList xs) = list_all marked xs"
| "marked _ = True"

lemma distinct_assign_all: "distinct (map fst (assign_all kvs))"
proof -
  have "distinct (map fst d) \<Longrightarrow> distinct (map fst (fold (\<lambda>(k, v) d. dset k v d) kvs d))" for d
    by (induction kvs arbitrary: d) (auto simp: distinct_dset)
  then show ?thesis by (simp add: assign_all_def)
qed

lemma map_of_assign_all: "map_of (assign_all kvs) = map_of (rev kvs)"
proof -
  have "map_of (fold (\<lambda>(k, v) d. dset k v d) kvs d) = map_of d ++ map_of (rev kvs)" for d
    by (induction kvs arbitrary: d) (auto simp: map_of_dset)
  then show ?thesis by (simp add: assign_all_def)
qed

lemma assigned_once:
  assumes "(k, y) \<in> set kvs" "\<And>v. (k, v) \<in> set kvs \<Longrightarrow> v = y"
  shows "map_of (assign_all kvs) k = Some y"
proof -
  obtain v where "map_of (rev kvs) k = Some v"
    using assms(1) by (metis eq_fst_iff map_of_eq_None_iff not_None_eq set_rev image_set imageI)
  then show ?thesis
    using assms(2) map_of_SomeD[of "rev kvs" k v] by (auto simp: map_of_assign_all)
qed

lemma assign_all_values: "(k, v) \<in> set (assign_all kvs) \<Longrightarrow> (k, v) \<in> set kvs"
  using map_of_SomeD[of "rev kvs" k v] by (simp add: distinct_assign_all map_of_assign_all flip: map_of_eq_Some_iff)

text \<open>The value an object's key has once its lists are cut.\<close>

definition headed :: "nat \<Rightarrow> pystr list \<Rightarrow> pystr list option \<Rightarrow> pystr \<Rightarrow> json \<Rightarrow> json" where
  "headed n w only k x =
     (if k \<in> set w then x
      else (case x of
              JList xs \<Rightarrow> if may_cut only k then JList (map (head_lists n w only) (take n xs)) else head_lists n w only x
            | _ \<Rightarrow> head_lists n w only x))"

definition marks :: "nat \<Rightarrow> pystr list \<Rightarrow> pystr list option \<Rightarrow> pystr \<Rightarrow> json \<Rightarrow> (pystr \<times> json) list" where
  "marks n w only k x =
     (case x of JList xs \<Rightarrow> if k \<notin> set w \<and> may_cut only k \<and> n < length xs then [(truncated_key k, JBool True)] else []
      | _ \<Rightarrow> [])"

lemma head_lists_obj:
  "head_lists n w only (JObj d) =
     JObj (assign_all (concat (map (\<lambda>(k, x). (k, headed n w only k x) # marks n w only k x) d)))"
  by (auto simp: headed_def marks_def intro!: arg_cong[of _ _ assign_all] arg_cong[of _ _ concat] split: json.split)

lemma marks_elem: "(k', v) \<in> set (marks n w only k x) \<Longrightarrow> v = JBool True \<and> suffix (lit ''_truncated'') k'"
  by (auto simp: marks_def truncated_key_def suffix_def split: json.splits if_splits)

lemma assigned_headed:
  assumes "marked (JObj d)" "(k, x) \<in> set d"
  shows "map_of (assign_all (concat (map (\<lambda>(k, x). (k, headed n w only k x) # marks n w only k x) d))) k =
    Some (headed n w only k x)"
proof (rule assigned_once)
  fix v assume "(k, v) \<in> set (concat (map (\<lambda>(k, x). (k, headed n w only k x) # marks n w only k x) d))"
  then consider x' where "(k, x') \<in> set d" "v = headed n w only k x'" | "v = JBool True" "suffix (lit ''_truncated'') k"
    by (auto dest: marks_elem)
  then show "v = headed n w only k x"
  proof cases
    case 1
    then show ?thesis using assms by (auto dest: eq_key_imp_eq_value)
  next
    case 2
    then have "x = JBool True" using assms by (auto simp: list_all_iff)
    then show ?thesis using 2 by (simp add: headed_def)
  qed
qed (use assms(2) in force)

lemma cut_of_map:
  assumes "\<And>x. x \<in> set (take n xs) \<Longrightarrow> cut_of w x (f x)"
  shows "cut_of w (JList xs) (JList (map f (take n xs)))"
proof (rule cut_of.in_list)
  have "cut_of w (xs ! i) (f (xs ! i))" if "i < length xs" "i < n" for i
    using assms that by (metis in_set_conv_nth length_take min_less_iff_conj nth_take)
  then show "list_all2 (cut_of w) (take (length (map f (take n xs))) xs) (map f (take n xs))"
    by (auto simp: list_all2_conv_all_nth)
qed simp

lemma head_lists_cuts:
  "marked v \<Longrightarrow> cut_of w v (head_lists n w only v) \<and> marked (head_lists n w only v)"
proof (induction n w only v rule: head_lists.induct)
  case (1 n w only d)
  have each: "marked (headed n w only k x) \<and> (k \<notin> set w \<longrightarrow> cut_of w x (headed n w only k x)) \<and>
      (x = JBool True \<longrightarrow> headed n w only k x = JBool True)" if "(k, x) \<in> set d" for k x
  proof (cases "k \<in> set w")
    case True
    then show ?thesis using 1(9) that by (auto simp: headed_def list_all_iff)
  next
    case False
    have m: "marked x" using 1(9) that by (auto simp: list_all_iff)
    show ?thesis
    proof (cases x)
      case (JList xs)
      note IH = 1(6)[OF that refl False JList] 1(7)[OF that refl False JList]
      show ?thesis
        using m IH JList False unfolding headed_def
        by (auto simp: list_all_iff intro!: cut_of_map dest: in_set_takeD)
    qed (use 1(1-5,8)[OF that refl False] m False in \<open>auto simp: headed_def\<close>)
  qed
  let ?kvs = "concat (map (\<lambda>(k, x). (k, headed n w only k x) # marks n w only k x) d)"
  have "marked v \<and> (suffix (lit ''_truncated'') k \<longrightarrow> v = JBool True)" if kv: "(k, v) \<in> set (assign_all ?kvs)" for k v
  proof -
    from assign_all_values[OF kv] consider x where "(k, x) \<in> set d" "v = headed n w only k x" | "v = JBool True"
      by (auto dest: marks_elem)
    then show ?thesis
      by cases (use each 1(9) in \<open>fastforce simp: list_all_iff\<close>)+
  qed
  then have "marked (JObj (assign_all ?kvs))"
    by (auto simp: distinct_assign_all list_all_iff)
  moreover have "cut_of w (JObj d) (JObj (assign_all ?kvs))"
  proof (rule cut_of.in_obj)
    fix k x assume "map_of d k = Some x"
    then have "(k, x) \<in> set d" by (rule map_of_SomeD)
    then show "\<exists>y. map_of (assign_all ?kvs) k = Some y \<and> (if k \<in> set w then y = x else cut_of w x y)"
      using assigned_headed[OF 1(9)] each[of k x] by (auto simp: headed_def)
  qed
  ultimately show ?case by (simp only: head_lists_obj)
next
  case (2 n w only xs)
  then have "\<forall>x \<in> set xs. marked x" by (simp add: list_all_iff)
  then show ?case
    using 2(1) cut_of_map[of "if only = None then n else length xs" xs w "head_lists n w only"]
    by (cases only) (auto simp: list_all_iff dest: in_set_takeD)
qed (auto intro: cut_of.same)

lemma cap_strings_cuts:
  "marked v \<Longrightarrow> cut_of w v (fst (cap_strings m w v)) \<and> marked (fst (cap_strings m w v))"
proof (induction m w v rule: cap_strings.induct)
  case (1 m w s)
  then show ?case using fit_prefix by (auto simp: Let_def intro: cut_of.in_text)
next
  case (2 m w d)
  let ?f = "\<lambda>(k, v). (k, if k \<in> set w then v else fst (cap_strings m w v))"
  have cap: "fst (cap_strings m w (JObj d)) = JObj (map ?f d)"
    by (auto simp: Let_def)
  have IH: "cut_of w x (fst (cap_strings m w x)) \<and> marked (fst (cap_strings m w x))"
    if "(k, x) \<in> set d" "k \<notin> set w" for k x
  proof -
    have "marked x" using 2(2) that(1) by (auto simp: list_all_iff)
    then show ?thesis using 2(1) that by auto
  qed
  have "marked (JObj (map ?f d))"
    using 2(2) IH by (fastforce simp: list_all_iff o_def split_beta)
  moreover have "cut_of w (JObj d) (JObj (map ?f d))"
  proof (rule cut_of.in_obj)
    fix k x assume kx: "map_of d k = Some x"
    have "map_of (map ?f d) k = map_option (\<lambda>v. if k \<in> set w then v else fst (cap_strings m w v)) (map_of d k)"
      by (induction d) auto
    then show "\<exists>y. map_of (map ?f d) k = Some y \<and> (if k \<in> set w then y = x else cut_of w x y)"
      using kx IH[OF map_of_SomeD[OF kx]] by auto
  qed
  ultimately show ?case by (simp only: cap)
next
  case (3 m w xs)
  then show ?case
    using cut_of_map[of "length xs" xs w "fst \<circ> cap_strings m w"] by (auto simp: Let_def list_all_iff)
qed (auto intro: cut_of.same)

lemma most_entries_cuts:
  "marked v \<Longrightarrow> most_entries frepr m w only v = Some a \<Longrightarrow> cut_of w v a"
  using head_lists_cuts by (auto simp: most_entries_def Let_def split: if_splits)



end
