(* ===== verification/Mcp_Schema.thy ===== *)
theory Mcp_Schema
  imports Json
begin

text \<open>
  The check of a tool's arguments against its input schema
  (\<^verbatim>\<open>incubacloud_mcp/protocol/schema.py\<close>): the types, one or a list of them, the
  coercion of an integral float to an integer, ranges, enumerations, lengths,
  closed objects, lists, and the resolution of records named by a field. A
  schema, a dict in the source, is a datatype here with one part for each key
  the code reads. A refusal is its place and its reason; its wording is left
  out.
\<close>

section \<open>Schemas\<close>

datatype kind = K_null | K_integer | K_number | K_string | K_boolean | K_array | K_object

datatype stype = No_type | One kind | Several "kind list"

text \<open>\<^verbatim>\<open>RECORD_KEY\<close>: the model and the field a record is named by.\<close>

record record_key =
  rk_model :: string
  rk_field :: string

datatype schema =
  Schema (s_type: stype) (s_props: "(pystr \<times> schema) list") (s_required: "pystr list")
    (s_additional: bool) (s_items: "schema option") (s_enum: "json list option")
    (s_min: "rat option") (s_max: "rat option") (s_maxlen: "nat option") (s_record: "record_key option")

datatype place = At_key pystr | At_index nat

datatype reason =
    Wrong_type
  | Not_an_integer
  | Below_minimum
  | Above_maximum
  | Not_in_enum
  | Too_long
  | Unknown_arguments "pystr list"
  | Missing_arguments "pystr list"
  | No_such_record

type_synonym schema_error = "place list \<times> reason"

section \<open>Types\<close>

definition integral :: "rat \<Rightarrow> bool" where
  "integral q \<longleftrightarrow> of_int \<lfloor>q\<rfloor> = q"

fun is_of :: "kind \<Rightarrow> json \<Rightarrow> bool" where
  "is_of K_null v = (v = JNull)"
| "is_of K_integer (JInt _) = True"
| "is_of K_integer (JFloat (Fin q)) = integral q"
| "is_of K_integer _ = False"
| "is_of K_number (JInt _) = True"
| "is_of K_number (JFloat _) = True"
| "is_of K_number _ = False"
| "is_of K_boolean v = (\<exists>b. v = JBool b)"
| "is_of K_string v = (\<exists>s. v = JStr s)"
| "is_of K_array v = (\<exists>xs. v = JList xs)"
| "is_of K_object v = (\<exists>d. v = JObj d)"

text \<open>Python's \<^verbatim>\<open><\<close> and \<^verbatim>\<open>>\<close> between a number and a bound: a NaN is neither.\<close>

fun below :: "json \<Rightarrow> rat \<Rightarrow> bool" where
  "below (JInt i) b = (of_int i < b)"
| "below (JFloat (Fin q)) b = (q < b)"
| "below (JFloat NegInf) b = True"
| "below _ b = False"

fun above :: "json \<Rightarrow> rat \<Rightarrow> bool" where
  "above (JInt i) b = (of_int i > b)"
| "above (JFloat (Fin q)) b = (q > b)"
| "above (JFloat PosInf) b = True"
| "above _ b = False"

definition check_number :: "schema \<Rightarrow> kind \<Rightarrow> json \<Rightarrow> place list \<Rightarrow> (schema_error, json) result" where
  "check_number s k v path =
     (case (case v of
              JInt i \<Rightarrow> Inr v
            | JFloat f \<Rightarrow>
                if k \<noteq> K_integer then Inr v
                else (case f of
                        Fin q \<Rightarrow> if integral q then Inr (JInt \<lfloor>q\<rfloor>) else Inl (path, Not_an_integer)
                      | _ \<Rightarrow> Inl (path, Not_an_integer))
            | _ \<Rightarrow> Inl (path, Wrong_type)) of
        Inl e \<Rightarrow> Inl e
      | Inr x \<Rightarrow>
          if (case s_min s of None \<Rightarrow> False | Some b \<Rightarrow> below x b) then Inl (path, Below_minimum)
          else if (case s_max s of None \<Rightarrow> False | Some b \<Rightarrow> above x b) then Inl (path, Above_maximum)
          else Inr x)"

text \<open>The type a value is checked as: \<open>Inr None\<close> when null is one of the types and
  the value is null, which ends the check.\<close>

definition narrowed :: "schema \<Rightarrow> json \<Rightarrow> place list \<Rightarrow> (schema_error, kind option option) result" where
  "narrowed s v path =
     (case s_type s of
        No_type \<Rightarrow> Inr (Some None)
      | One k \<Rightarrow> Inr (Some (Some k))
      | Several ks \<Rightarrow>
          if v = JNull \<and> K_null \<in> set ks then Inr None
          else (case find (\<lambda>k. is_of k v) ks of
                  None \<Rightarrow> Inl (path, Wrong_type)
                | Some k \<Rightarrow> Inr (Some (Some k))))"

definition check_value :: "schema \<Rightarrow> kind option \<Rightarrow> json \<Rightarrow> place list \<Rightarrow> (schema_error, json) result" where
  "check_value s k v path =
     (case (if k \<in> {Some K_integer, Some K_number} then check_number s (the k) v path
            else if k \<in> {Some K_string, Some K_boolean, Some K_array, Some K_object}
            then (if is_of (the k) v then Inr v else Inl (path, Wrong_type))
            else Inr v) of
        Inl e \<Rightarrow> Inl e
      | Inr x \<Rightarrow>
          if (case s_enum s of None \<Rightarrow> False | Some es \<Rightarrow> \<not> list_ex (json_eq x) es) then Inl (path, Not_in_enum)
          else if k = Some K_string \<and>
                  (case (x, s_maxlen s) of (JStr t, Some n) \<Rightarrow> n < length t | _ \<Rightarrow> False)
          then Inl (path, Too_long)
          else Inr x)"

section \<open>Objects and lists\<close>

text \<open>The message lists the unknown keys sorted; the set is what is kept here, in the
  order of the value.\<close>

definition check_keys :: "schema \<Rightarrow> dict \<Rightarrow> place list \<Rightarrow> (schema_error, unit) result" where
  "check_keys s d path =
     (let unknown = filter (\<lambda>k. map_of (s_props s) k = None) (map fst d);
          missing = filter (\<lambda>k. map_of d k = None) (s_required s)
      in if unknown \<noteq> [] \<and> \<not> s_additional s then Inl (path, Unknown_arguments unknown)
         else if missing \<noteq> [] then Inl (path, Missing_arguments missing)
         else Inr ())"

fun all_ok :: "('e, 'a) result list \<Rightarrow> ('e, 'a list) result" where
  "all_ok [] = Inr []"
| "all_ok (r # rs) =
     (case r of Inl e \<Rightarrow> Inl e | Inr x \<Rightarrow> (case all_ok rs of Inl e \<Rightarrow> Inl e | Inr xs \<Rightarrow> Inr (x # xs)))"

lemma size_enumerate_elem: "(i, y) \<in> set (enumerate n xs) \<Longrightarrow> size y < Suc (size_list size xs)"
  by (induction xs arbitrary: n) (auto simp: less_Suc_eq_le, fastforce)

function validate :: "schema \<Rightarrow> json \<Rightarrow> place list \<Rightarrow> (schema_error, json) result" where
  "validate s v path =
     (case narrowed s v path of
        Inl e \<Rightarrow> Inl e
      | Inr None \<Rightarrow> Inr JNull
      | Inr (Some k) \<Rightarrow>
     (case check_value s k v path of
        Inl e \<Rightarrow> Inl e
      | Inr x \<Rightarrow>
          (case (k, v) of
             (Some K_object, JObj d) \<Rightarrow>
               (case check_keys s d path of
                  Inl e \<Rightarrow> Inl e
                | Inr _ \<Rightarrow>
                    map_sum id JObj (all_ok (map (\<lambda>(key, y).
                      case map_of (s_props s) key of
                        None \<Rightarrow> Inr (key, y)
                      | Some s' \<Rightarrow> map_sum id (Pair key) (validate s' y (path @ [At_key key]))) d)))
           | (Some K_array, JList xs) \<Rightarrow>
               (case s_items s of
                  None \<Rightarrow> Inr x
                | Some s' \<Rightarrow>
                    map_sum id JList (all_ok (map (\<lambda>(i, y). validate s' y (path @ [At_index i]))
                      (enumerate 0 xs))))
           | _ \<Rightarrow> Inr x)))"
  by pat_completeness auto

termination
  by (relation "measure (\<lambda>(s, v, p). size v)") (auto dest: size_obj_elem size_enumerate_elem)

declare validate.simps [simp del]

section \<open>Records named by a field\<close>

text \<open>\<^verbatim>\<open>resolve\<close>. The lookup of the caller, \<open>lookup model field value\<close>, is an
  argument: the id of the record whose field is the value, or none. The listing of
  the accepted values is wording and is left out.\<close>

type_synonym lookup = "string \<Rightarrow> string \<Rightarrow> json \<Rightarrow> int option"

function resolve :: "schema \<Rightarrow> json \<Rightarrow> lookup \<Rightarrow> place list \<Rightarrow> (schema_error, json) result" where
  "resolve s v lookup path =
     (case (s_record s, v) of
        (Some r, JInt i) \<Rightarrow>
          if lookup (rk_model r) ''id'' v = None then Inl (path, No_such_record) else Inr v
      | (Some r, x) \<Rightarrow>
          if v = JNull then Inr v
          else (case lookup (rk_model r) (rk_field r) v of
                  None \<Rightarrow> Inl (path, No_such_record)
                | Some i \<Rightarrow> Inr (JInt i))
      | (None, JObj d) \<Rightarrow>
          if s_type s \<noteq> One K_object then Inr v
          else map_sum id JObj (all_ok (map (\<lambda>(key, y).
                 case map_of (s_props s) key of
                   None \<Rightarrow> Inr (key, y)
                 | Some s' \<Rightarrow> map_sum id (Pair key) (resolve s' y lookup (path @ [At_key key]))) d))
      | (None, JList xs) \<Rightarrow>
          (case s_items s of
             None \<Rightarrow> Inr v
           | Some s' \<Rightarrow> map_sum id JList (all_ok (map (\<lambda>(i, y). resolve s' y lookup (path @ [At_index i]))
               (enumerate 0 xs))))
      | (None, _) \<Rightarrow> Inr v)"
  by pat_completeness auto

termination
  by (relation "measure (\<lambda>(s, v, l, p). size v)") (auto dest: size_obj_elem size_enumerate_elem)

declare resolve.simps [simp del]

section \<open>What a validated value is\<close>

text \<open>The value given, with some of its integral floats written as integers.\<close>

inductive same_value :: "json \<Rightarrow> json \<Rightarrow> bool" where
  same: "same_value v v"
| coerced: "integral q \<Longrightarrow> same_value (JFloat (Fin q)) (JInt \<lfloor>q\<rfloor>)"
| in_list: "list_all2 same_value xs ys \<Longrightarrow> same_value (JList xs) (JList ys)"
| in_object: "map fst d = map fst d' \<Longrightarrow> list_all2 same_value (map snd d) (map snd d') \<Longrightarrow>
    same_value (JObj d) (JObj d')"

text \<open>What a schema asks of a value, written independently of the code: a type it
  lists, its bounds, its length, its enumeration for values that are not
  composite, no key it does not know in a closed object, every required key, and
  the same of what the value holds. A schema with no type, or with the single
  type null, which the code does not check, asks only for its enumeration.\<close>

definition kinds_of :: "schema \<Rightarrow> kind list" where
  "kinds_of s = (case s_type s of No_type \<Rightarrow> [] | One k \<Rightarrow> if k = K_null then [] else [k] | Several ks \<Rightarrow> ks)"

definition typed :: "schema \<Rightarrow> bool" where
  "typed s \<longleftrightarrow> s_type s \<notin> {No_type, One K_null}"

definition keys_ok :: "schema \<Rightarrow> dict \<Rightarrow> bool" where
  "keys_ok s d \<longleftrightarrow>
     (s_additional s \<or> fst ` set d \<subseteq> fst ` set (s_props s)) \<and> set (s_required s) \<subseteq> fst ` set d"

definition scalar_ok :: "schema \<Rightarrow> json \<Rightarrow> bool" where
  "scalar_ok s v \<longleftrightarrow>
     (case s_enum s of None \<Rightarrow> True | Some es \<Rightarrow> list_ex (json_eq v) es) \<and>
     (typed s \<longrightarrow>
        \<not> (case s_min s of None \<Rightarrow> False | Some b \<Rightarrow> below v b) \<and>
        \<not> (case s_max s of None \<Rightarrow> False | Some b \<Rightarrow> above v b) \<and>
        (case (v, s_maxlen s) of (JStr t, Some n) \<Rightarrow> length t \<le> n | _ \<Rightarrow> True))"

function conforms :: "schema \<Rightarrow> json \<Rightarrow> bool" where
  "conforms s v \<longleftrightarrow>
     (v = JNull \<and> K_null \<in> set (kinds_of s)) \<or>
     ((typed s \<longrightarrow> (\<exists>k \<in> set (kinds_of s). is_of k v)) \<and>
      (case v of
         JObj d \<Rightarrow> typed s \<longrightarrow> keys_ok s d \<and>
           (\<forall>(k, x) \<in> set d. case map_of (s_props s) k of None \<Rightarrow> True | Some s' \<Rightarrow> conforms s' x)
       | JList xs \<Rightarrow> typed s \<longrightarrow>
           (case s_items s of None \<Rightarrow> True | Some s' \<Rightarrow> (\<forall>x \<in> set xs. conforms s' x))
       | _ \<Rightarrow> scalar_ok s v))"
  by pat_completeness auto

termination
  by (relation "measure (\<lambda>(s, v). size v)")
    (auto dest: size_obj_elem simp: less_Suc_eq_le size_list_estimation')

declare conforms.simps [simp del]

lemma all_ok_all: "all_ok (map Inr ys) = Inr ys"
  by (induction ys) auto

lemma all_ok_elem: "all_ok rs = Inr ys \<longleftrightarrow> rs = map Inr ys"
proof
  show "all_ok rs = Inr ys \<Longrightarrow> rs = map Inr ys"
    by (induction rs arbitrary: ys) (auto split: sum.splits)
qed (simp add: all_ok_all)

lemma narrowed_kind:
  assumes "narrowed s v path = Inr (Some k)"
  shows "typed s \<longleftrightarrow> k \<noteq> None \<and> k \<noteq> Some K_null"
    and "k = Some k' \<Longrightarrow> k' \<noteq> K_null \<Longrightarrow> k' \<in> set (kinds_of s)"
proof -
  have *: "find (\<lambda>k. is_of k v) ks = Some x \<Longrightarrow> x \<in> set ks \<and> is_of x v" for ks x
    by (auto simp: find_Some_iff)
  show "typed s \<longleftrightarrow> k \<noteq> None \<and> k \<noteq> Some K_null"
    using assms by (cases k) (auto simp: narrowed_def typed_def dest!: * split: stype.splits if_splits option.splits)
  show "k = Some k' \<Longrightarrow> k' \<noteq> K_null \<Longrightarrow> k' \<in> set (kinds_of s)"
    using assms by (auto simp: narrowed_def kinds_of_def dest!: * split: stype.splits if_splits option.splits)
qed

lemma check_number_ok:
  assumes "check_number s k v path = Inr x" "k = K_integer \<or> k = K_number"
  shows "same_value v x" "is_of k x"
    and "\<not> (case s_min s of None \<Rightarrow> False | Some b \<Rightarrow> below x b)"
    and "\<not> (case s_max s of None \<Rightarrow> False | Some b \<Rightarrow> above x b)"
  using assms unfolding check_number_def
  by (auto split: json.splits pyfloat.splits if_splits sum.splits intro: same_value.intros)

definition of_kind :: "kind option \<Rightarrow> json \<Rightarrow> bool" where
  "of_kind k v \<longleftrightarrow> (case k of None \<Rightarrow> True | Some k' \<Rightarrow> k' = K_null \<or> is_of k' v)"

definition in_range :: "schema \<Rightarrow> json \<Rightarrow> bool" where
  "in_range s v \<longleftrightarrow>
     \<not> (case s_min s of None \<Rightarrow> False | Some b \<Rightarrow> below v b) \<and>
     \<not> (case s_max s of None \<Rightarrow> False | Some b \<Rightarrow> above v b)"

lemma in_range_no_number: "(\<And>i. v \<noteq> JInt i) \<Longrightarrow> (\<And>f. v \<noteq> JFloat f) \<Longrightarrow> in_range s v"
  by (cases v) (auto simp: in_range_def split: option.splits)

lemma check_value_kind:
  assumes "(if k \<in> {Some K_integer, Some K_number} then check_number s (the k) v path
            else if k \<in> {Some K_string, Some K_boolean, Some K_array, Some K_object}
            then (if is_of (the k) v then Inr v else Inl (path, Wrong_type))
            else Inr v) = Inr x"
  shows "same_value v x \<and> of_kind k x \<and> (k \<noteq> None \<longrightarrow> k \<noteq> Some K_null \<longrightarrow> in_range s x)"
proof (cases "k \<in> {Some K_integer, Some K_number}")
  case True
  then show ?thesis
    using assms check_number_ok[of s "the k" v path x] by (auto simp: of_kind_def in_range_def)
next
  case False
  then have "x = v" and *: "k \<in> {None, Some K_null} \<or> is_of (the k) v"
    using assms by (auto split: if_splits) (metis (full_types) kind.exhaust option.exhaust)+
  moreover have "k \<in> {None, Some K_null} \<or> in_range s v"
    using False * by (cases k; cases "the k") (auto intro: in_range_no_number)
  ultimately show ?thesis
    by (auto simp: of_kind_def intro: same_value.same split: option.splits)
qed

lemma check_value_ok:
  assumes "check_value s k v path = Inr x"
  shows "same_value v x" "of_kind k x"
    and "case s_enum s of None \<Rightarrow> True | Some es \<Rightarrow> list_ex (json_eq x) es"
    and "k \<noteq> None \<Longrightarrow> k \<noteq> Some K_null \<Longrightarrow> in_range s x"
    and "k = Some K_string \<Longrightarrow> case (x, s_maxlen s) of (JStr t, Some n) \<Rightarrow> length t \<le> n | _ \<Rightarrow> True"
proof -
  let ?r = "if k \<in> {Some K_integer, Some K_number} then check_number s (the k) v path
            else if k \<in> {Some K_string, Some K_boolean, Some K_array, Some K_object}
            then (if is_of (the k) v then Inr v else Inl (path, Wrong_type))
            else Inr v"
  have r: "?r = Inr x"
    using assms unfolding check_value_def
    by (cases ?r) (simp_all split: if_splits del: insert_iff)
  show "same_value v x" "of_kind k x" "k \<noteq> None \<Longrightarrow> k \<noteq> Some K_null \<Longrightarrow> in_range s x"
    using check_value_kind[OF r] by auto
  show "case s_enum s of None \<Rightarrow> True | Some es \<Rightarrow> list_ex (json_eq x) es"
    "k = Some K_string \<Longrightarrow> case (x, s_maxlen s) of (JStr t, Some n) \<Rightarrow> length t \<le> n | _ \<Rightarrow> True"
    using assms unfolding check_value_def r
    by (auto split: if_splits option.splits json.splits)
qed

lemma checked_scalar:
  assumes "narrowed s v path = Inr (Some k)" "check_value s k v path = Inr x"
  shows "scalar_ok s x" "typed s \<longrightarrow> (\<exists>k \<in> set (kinds_of s). is_of k x)" "same_value v x"
proof -
  note n = narrowed_kind[OF assms(1)] and c = check_value_ok[OF assms(2)]
  show "typed s \<longrightarrow> (\<exists>k \<in> set (kinds_of s). is_of k x)"
    using n c(2) by (auto simp: of_kind_def split: option.splits)
  have "typed s \<Longrightarrow> x = JStr t \<Longrightarrow> k = Some K_string" for t
    using n(1) c(2) by (cases "the k") (auto simp: of_kind_def split: option.splits)
  then show "scalar_ok s x"
    using n(1) c(3-5) unfolding scalar_ok_def in_range_def by (auto split: json.splits option.splits)
qed (fact check_value_ok(1)[OF assms(2)])

lemma same_value_shape:
  "same_value v x \<Longrightarrow> (\<exists>d. v = JObj d) = (\<exists>d. x = JObj d) \<and> (\<exists>d. v = JList d) = (\<exists>d. x = JList d)"
  by (induction rule: same_value.cases) auto

lemma conforms_scalar:
  assumes "narrowed s v path = Inr (Some k)" "check_value s k v path = Inr x"
    and "\<And>d. (k, v) \<noteq> (Some K_object, JObj d)"
    and "\<And>xs. (k, v) = (Some K_array, JList xs) \<Longrightarrow> s_items s = None"
  shows "conforms s x"
proof -
  note n = narrowed_kind[OF assms(1)] and c = checked_scalar[OF assms(1,2)]
    and k = check_value_ok(2)[OF assms(2)]
  have "typed s \<Longrightarrow> x \<noteq> JObj d" for d
  proof
    assume "typed s" "x = JObj d"
    moreover from this have "k = Some K_object"
      using n(1) k by (cases "the k") (auto simp: of_kind_def split: option.splits)
    ultimately show False
      using assms(3) same_value_shape[OF c(3)] by auto
  qed
  moreover have "typed s \<Longrightarrow> x = JList ys \<Longrightarrow> s_items s = None" for ys
  proof -
    assume "typed s" "x = JList ys"
    moreover from this have "k = Some K_array"
      using n(1) k by (cases "the k") (auto simp: of_kind_def split: option.splits)
    ultimately show ?thesis
      using assms(4) same_value_shape[OF c(3)] by auto
  qed
  ultimately show ?thesis
    using c unfolding conforms.simps[of s x] by (auto split: json.splits)
qed

lemma conforms_object:
  assumes "narrowed s (JObj d) path = Inr (Some (Some K_object))" "check_keys s d path = Inr u"
    and keys: "map fst d' = map fst d"
    and each: "\<And>k x s'. (k, x) \<in> set d' \<Longrightarrow> map_of (s_props s) k = Some s' \<Longrightarrow> conforms s' x"
  shows "conforms s (JObj d')"
proof -
  have "fst ` set d' = fst ` set d"
    using keys by (metis set_map)
  then have "keys_ok s d'"
    using assms(2)
    by (auto simp: check_keys_def keys_ok_def Let_def filter_empty_conv map_of_eq_None_iff split: if_splits)
  moreover have "K_object \<in> set (kinds_of s)"
    using narrowed_kind(2)[OF assms(1)] by simp
  ultimately show ?thesis
    using each unfolding conforms.simps[of s "JObj d'"] by (force split: option.splits)
qed

lemma conforms_list:
  assumes "narrowed s (JList xs) path = Inr (Some (Some K_array))" "s_items s = Some s'"
    and "\<And>y. y \<in> set ys \<Longrightarrow> conforms s' y"
  shows "conforms s (JList ys)"
  using narrowed_kind(2)[OF assms(1)] assms(2,3) unfolding conforms.simps[of s "JList ys"] by force

lemma map_Inr_list_all2: "map f xs = map Inr ys \<longleftrightarrow> list_all2 (\<lambda>x y. f x = Inr y) xs ys"
  by (simp add: list_all2_conv_all_nth list_eq_iff_nth_eq) (metis nth_map)

lemma list_all2_right: "list_all2 P xs ys \<Longrightarrow> y \<in> set ys \<Longrightarrow> \<exists>x \<in> set xs. P x y"
  by (induction rule: list_all2_induct) auto

lemma map_sum_Inr: "map_sum f g r = Inr y \<longleftrightarrow> (\<exists>x. r = Inr x \<and> y = g x)"
  by (cases r) auto

lemma validated_object:
  assumes ok: "validate s (JObj d) path = Inr v'"
    and n: "narrowed s (JObj d) path = Inr (Some (Some K_object))"
    and IH: "\<And>k y s' w. (k, y) \<in> set d \<Longrightarrow> map_of (s_props s) k = Some s' \<Longrightarrow>
      validate s' y (path @ [At_key k]) = Inr w \<Longrightarrow> conforms s' w \<and> same_value y w"
  shows "conforms s v' \<and> same_value (JObj d) v'"
proof -
  let ?f = "\<lambda>(k, y). case map_of (s_props s) k of None \<Rightarrow> Inr (k, y)
    | Some s' \<Rightarrow> map_sum id (Pair k) (validate s' y (path @ [At_key k]))"
  obtain u d' where u: "check_keys s d path = Inr u" and d': "all_ok (map ?f d) = Inr d'" "v' = JObj d'"
    using ok n by (simp add: validate.simps[of s "JObj d"] split: sum.splits)
      (cases "all_ok (map ?f d)", auto)
  have all: "list_all2 (\<lambda>e e'. ?f e = Inr e') d d'"
    using d'(1) by (simp add: all_ok_elem map_Inr_list_all2)
  have rel: "list_all2 (\<lambda>e e'. fst e' = fst e \<and> same_value (snd e) (snd e') \<and>
      (\<forall>s'. map_of (s_props s) (fst e) = Some s' \<longrightarrow> conforms s' (snd e'))) d d'"
    by (rule list.rel_mono_strong[OF all])
      (use IH in \<open>auto simp: split_beta map_sum_Inr intro: same_value.same split: option.splits\<close>)
  then have keys: "map fst d' = map fst d" and vals: "list_all2 same_value (map snd d) (map snd d')"
    by (auto simp: list_all2_conv_all_nth list_eq_iff_nth_eq)
  have "conforms s' x" if "(k, x) \<in> set d'" "map_of (s_props s) k = Some s'" for k x s'
    using list_all2_right[OF rel that(1)] that(2) by auto
  then show ?thesis
    using conforms_object[OF n u keys] same_value.in_object[OF keys[symmetric] vals] d'(2) by blast
qed

lemma validated_list:
  assumes ok: "validate s (JList xs) path = Inr v'" and items: "s_items s = Some s'"
    and n: "narrowed s (JList xs) path = Inr (Some (Some K_array))"
    and IH: "\<And>i y w. (i, y) \<in> set (enumerate 0 xs) \<Longrightarrow>
      validate s' y (path @ [At_index i]) = Inr w \<Longrightarrow> conforms s' w \<and> same_value y w"
  shows "conforms s v' \<and> same_value (JList xs) v'"
proof -
  let ?f = "\<lambda>(i, y). validate s' y (path @ [At_index i])"
  obtain ys where ys: "all_ok (map ?f (enumerate 0 xs)) = Inr ys" "v' = JList ys"
    using ok n items by (simp add: validate.simps[of s "JList xs"] split: sum.splits)
      (cases "all_ok (map ?f (enumerate 0 xs))", auto)
  have all: "list_all2 (\<lambda>e y. ?f e = Inr y) (enumerate 0 xs) ys"
    using ys(1) by (simp add: all_ok_elem map_Inr_list_all2)
  have "list_all2 (\<lambda>e y. conforms s' y \<and> same_value (snd e) y) (enumerate 0 xs) ys"
    by (rule list.rel_mono_strong[OF all]) (use IH in \<open>auto simp: split_beta\<close>)
  then have "list_all2 same_value xs ys" "\<And>y. y \<in> set ys \<Longrightarrow> conforms s' y"
    by (auto simp: list_all2_conv_all_nth in_set_conv_nth nth_enumerate_eq)
  then show ?thesis
    using conforms_list[OF n items] same_value.in_list ys(2) by blast
qed

text \<open>C40. What a tool's handler receives is what its input schema describes: a value
  the check accepts has, at every depth, a type its schema lists, lies in its range,
  is one of its enumerated values, is no longer than it allows, has no key a closed
  object does not know and every key required; and it is the value the caller sent,
  but for integral floats written as integers.\<close>

theorem validated_value_conforms:
  assumes "validate s v path = Inr v'"
  shows "conforms s v' \<and> same_value v v'"
  using assms
proof (induction s v path arbitrary: v' rule: validate.induct)
  case (1 s v path)
  show ?case
  proof (cases "narrowed s v path")
    case (Inr n)
    show ?thesis
    proof (cases n)
      case None
      then have "v = JNull" "K_null \<in> set (kinds_of s)" "v' = JNull"
        using Inr 1(3) by (auto simp: narrowed_def kinds_of_def validate.simps[of s v] split: stype.splits if_splits option.splits)
      then show ?thesis
        by (auto simp: conforms.simps intro: same_value.same)
    next
      case (Some k)
      then obtain x where x: "check_value s k v path = Inr x"
        using 1(3) Inr by (auto simp: validate.simps[of s v] split: sum.splits)
      note n = Inr[unfolded Some]
      consider (obj) d where "k = Some K_object" "v = JObj d"
        | (arr) xs s' where "k = Some K_array" "v = JList xs" "s_items s = Some s'"
        | (other) "\<And>d. (k, v) \<noteq> (Some K_object, JObj d)"
            "\<And>xs. (k, v) = (Some K_array, JList xs) \<Longrightarrow> s_items s = None"
        by (cases "s_items s") auto
      then show ?thesis
      proof cases
        case obj
        then obtain u where u: "check_keys s d path = Inr u"
          using 1(3) n x by (auto simp: validate.simps[of s "JObj d"] split: sum.splits)
        show ?thesis
          using 1(3) n unfolding obj
          by (rule validated_object) (rule 1(2)[OF n refl x refl obj(1) refl obj(2) u _ refl])
      next
        case arr
        show ?thesis
          using 1(3) arr(3) n unfolding arr(1,2)
          by (rule validated_list) (rule 1(1)[OF n refl x refl arr(1) refl arr(2,3) _ refl])
      next
        case other
        then have "v' = x"
          using 1(3) n x by (auto simp: validate.simps[of s v] split: option.splits kind.splits json.splits)
        then show ?thesis
          using conforms_scalar[OF n x other] checked_scalar(3)[OF n x] by simp
      qed
    qed
  qed (use 1(3) in \<open>simp add: validate.simps[of s v]\<close>)
qed

definition page_schema :: schema where
  "page_schema = Schema (One K_object)
     [(lit ''limit'', Schema (Several [K_integer, K_null]) [] [] False None None (Some 1) (Some 100) None None)]
     [lit ''limit''] False None None None None None None"

theorem validated_value_conforms_witness:
  "conforms page_schema (JObj [(lit ''limit'', JInt 3)]) \<and>
   same_value (JObj [(lit ''limit'', JFloat (Fin 3))]) (JObj [(lit ''limit'', JInt 3)])"
proof -
  have "validate page_schema (JObj [(lit ''limit'', JFloat (Fin 3))]) [] = Inr (JObj [(lit ''limit'', JInt 3)])"
    by (simp add: validate.simps page_schema_def narrowed_def check_value_def check_number_def check_keys_def integral_def lit_def)
  then show ?thesis
    by (rule validated_value_conforms)
qed

end
