(* ===== verification/Mcp_Approval.thy ===== *)
theory Mcp_Approval
  imports Json
begin

text \<open>
  The approval of agents' sensitive actions
  (\<^verbatim>\<open>incubacloud_mcp/models/mcp_confirm.py\<close>, \<^verbatim>\<open>models/mcp_approval.py\<close>, the page of
  \<^verbatim>\<open>controllers/approve.py\<close>, \<^verbatim>\<open>_confirmation\<close> of \<^verbatim>\<open>models/mcp_tools.py\<close>): asking for an
  approval through the channel the client has, the decision on the page, the retry that
  brings the signed state back, and its single use. The signature
  (\<^verbatim>\<open>protocol/signing.py\<close>, an HMAC) is an argument, \<open>verify\<close>, and so are the digest of
  the arguments, the hash and the token of a page, the clock, and whether another
  transaction wins the row. Wording is left out but for the message a person approves.
\<close>

section \<open>Approvals\<close>

datatype channel = Mrtr_form | Mrtr_url | Url_error | In_text

datatype ap_state = Ap_pending | Ap_approved | Ap_used | Ap_cancelled

record approval =
  ap_id :: nat
  ap_user :: int
  ap_tool :: pystr
  ap_hash :: pystr
  ap_message :: pystr
  ap_channel :: channel
  ap_token :: pystr
  ap_state :: ap_state
  ap_expires :: int
  ap_credential :: pystr

text \<open>The approvals, and the states signed and handed to clients.\<close>

record desk =
  rows :: "approval list"
  next_row :: nat
  issued :: "dict list"

definition APPROVAL_TTL :: int where
  "APPROVAL_TTL = 10 * 60"

definition KEEP_EXPIRED :: int where
  "KEEP_EXPIRED = 24 * 60 * 60"

definition open_approval ::
  "int \<Rightarrow> pystr \<Rightarrow> pystr \<Rightarrow> pystr \<Rightarrow> channel \<Rightarrow> pystr \<Rightarrow> pystr \<Rightarrow> int \<Rightarrow> desk \<Rightarrow> approval \<times> desk" where
  "open_approval user tool digest message chan token_hash credential now d =
     (let a = \<lparr>ap_id = next_row d, ap_user = user, ap_tool = tool, ap_hash = digest, ap_message = message,
               ap_channel = chan, ap_token = token_hash, ap_state = Ap_pending,
               ap_expires = now + APPROVAL_TTL, ap_credential = credential\<rparr>
      in (a, d\<lparr>rows := rows d @ [a], next_row := Suc (next_row d)\<rparr>))"

text \<open>The newest first, as the model orders them.\<close>

definition find_approved :: "int \<Rightarrow> pystr \<Rightarrow> pystr \<Rightarrow> pystr \<Rightarrow> int \<Rightarrow> desk \<Rightarrow> approval option" where
  "find_approved user tool digest credential now d =
     find (\<lambda>a. ap_user a = user \<and> ap_credential a = credential \<and> ap_tool a = tool \<and> ap_hash a = digest \<and>
               ap_state a = Ap_approved \<and> now < ap_expires a) (rev (rows d))"

definition by_token :: "pystr \<Rightarrow> desk \<Rightarrow> approval option" where
  "by_token token_hash d = find (\<lambda>a. ap_token a = token_hash) (rev (rows d))"

definition row :: "nat \<Rightarrow> desk \<Rightarrow> approval option" where
  "row i d = find (\<lambda>a. ap_id a = i) (rows d)"

text \<open>\<^verbatim>\<open>_transition\<close>: the one \<^verbatim>\<open>UPDATE ... WHERE state = ... AND expires_at > now()\<close>.\<close>

definition transition :: "nat \<Rightarrow> ap_state \<Rightarrow> ap_state \<Rightarrow> int \<Rightarrow> desk \<Rightarrow> bool \<times> desk" where
  "transition i from to now d =
     (let hit = (\<lambda>a. ap_id a = i \<and> ap_state a = from \<and> now < ap_expires a)
      in (list_ex hit (rows d),
          d\<lparr>rows := map (\<lambda>a. if hit a then a\<lparr>ap_state := to\<rparr> else a) (rows d)\<rparr>))"

definition consume :: "bool \<Rightarrow> nat \<Rightarrow> ap_state \<Rightarrow> int \<Rightarrow> desk \<Rightarrow> bool \<times> desk" where
  "consume raced i from now d = (if raced then (False, d) else transition i from Ap_used now d)"

definition decide :: "nat \<Rightarrow> bool \<Rightarrow> int \<Rightarrow> desk \<Rightarrow> bool \<times> desk" where
  "decide i approve now d = transition i Ap_pending (if approve then Ap_approved else Ap_cancelled) now d"

definition withdraw :: "nat \<Rightarrow> int \<Rightarrow> desk \<Rightarrow> bool \<times> desk" where
  "withdraw i now d =
     (case transition i Ap_pending Ap_cancelled now d of
        (True, d') \<Rightarrow> (True, d')
      | (False, d') \<Rightarrow> transition i Ap_approved Ap_cancelled now d')"

definition gc_expired :: "int \<Rightarrow> desk \<Rightarrow> desk" where
  "gc_expired now d = d\<lparr>rows := filter (\<lambda>a. \<not> ap_expires a < now - KEEP_EXPIRED) (rows d)\<rparr>"

section \<open>The page\<close>

datatype page = Not_found | Missing | Other_user | Shows bool | Bad_decision bool | Decided bool | Closed

definition approve_page ::
  "bool \<Rightarrow> int \<Rightarrow> pystr \<Rightarrow> bool \<Rightarrow> pystr option \<Rightarrow> int \<Rightarrow> desk \<Rightarrow> page \<times> desk" where
  "approve_page internal user token_hash post decision now d =
     (if \<not> internal then (Not_found, d)
      else case by_token token_hash d of
             None \<Rightarrow> (Missing, d)
           | Some a \<Rightarrow>
               if ap_user a \<noteq> user then (Other_user, d)
               else
                 let live = (ap_state a = Ap_pending \<and> now < ap_expires a)
                 in if post then
                      (if decision \<noteq> Some (lit ''approve'') \<and> decision \<noteq> Some (lit ''cancel'') then (Bad_decision live, d)
                       else
                         let yes = (decision = Some (lit ''approve''))
                         in case decide (ap_id a) yes now d of
                              (True, d') \<Rightarrow> (Decided yes, d')
                            | (False, d') \<Rightarrow> (Closed, d'))
                    else (Shows live, d))"

section \<open>Asking\<close>

datatype confirm_mode = Never | Always | Conditional

text \<open>\<^verbatim>\<open>_confirmation\<close>: \<open>said\<close> is what the tool's \<^verbatim>\<open>_confirm_\<close> method says of these
  arguments, if it has one.\<close>

definition confirmation :: "confirm_mode \<Rightarrow> pystr \<Rightarrow> pystr option option \<Rightarrow> pystr option" where
  "confirmation mode default_message said =
     (if mode = Never then None
      else
        let text = (case said of Some (Some t) \<Rightarrow> if t = [] then None else Some t | _ \<Rightarrow> None)
        in if text \<noteq> None \<or> (said \<noteq> None \<and> mode = Conditional) then text
           else Some default_message)"

definition elicitation_modes :: "json \<Rightarrow> bool \<times> bool" where
  "elicitation_modes capabilities =
     (case capabilities of
        JObj d \<Rightarrow>
          (case dget d ''elicitation'' of
             JObj el \<Rightarrow> (map_of el (lit ''form'') \<noteq> None \<or> el = [], map_of el (lit ''url'') \<noteq> None)
           | _ \<Rightarrow> (False, False))
      | _ \<Rightarrow> (False, False))"

record call_context =
  version :: pystr
  modern :: bool
  capabilities :: json
  principal_uid :: int
  principal_client :: pystr

definition channel_of :: "call_context \<Rightarrow> channel" where
  "channel_of ctx =
     (let (form, url) = elicitation_modes (capabilities ctx)
      in if modern ctx \<and> form then Mrtr_form
         else if modern ctx \<and> url then Mrtr_url
         else if \<not> modern ctx \<and> url \<and> version ctx = lit ''2025-11-25'' then Url_error
         else In_text)"

text \<open>The payload of a \<^verbatim>\<open>requestState\<close>.\<close>

definition state_payload :: "nat \<Rightarrow> pystr \<Rightarrow> pystr \<Rightarrow> pystr \<Rightarrow> call_context \<Rightarrow> pystr \<Rightarrow> pystr \<Rightarrow> int \<Rightarrow> dict" where
  "state_payload i nonce tool digest ctx mode link now =
     [(lit ''a'', JInt (int i)), (lit ''n'', JStr nonce), (lit ''u'', JInt (principal_uid ctx)),
      (lit ''c'', JStr (principal_client ctx)), (lit ''t'', JStr tool), (lit ''h'', JStr digest),
      (lit ''e'', JInt (now + APPROVAL_TTL)), (lit ''m'', JStr mode), (lit ''l'', JStr link)]"

datatype refusal = Not_valid | Another_action | Expired | Cancelled_by_user | Already_used | Needs_approval

datatype request = Form_request pystr | Url_request json pystr

text \<open>What the gate answers: the call runs, with the approval it used if it needed one;
  an error; an \<^verbatim>\<open>input_required\<close> with its request and its state; the error -32042.\<close>

datatype gate = Runs "nat option" | Refuses refusal | Asks request json | Raises_url nat pystr pystr

text \<open>What a request brings that the model does not compute: the page's hashed token and
  link, the nonce, the text of a signed state.\<close>

record fresh_values =
  fv_token_hash :: pystr
  fv_link :: pystr
  fv_nonce :: pystr
  fv_signed :: "dict \<Rightarrow> json"

definition ask ::
  "fresh_values \<Rightarrow> (pystr \<Rightarrow> pystr) \<Rightarrow> pystr \<Rightarrow> pystr \<Rightarrow> pystr \<Rightarrow> call_context \<Rightarrow> int \<Rightarrow> desk \<Rightarrow> gate \<times> desk" where
  "ask fv scrub tool digest message0 ctx now d =
     (let message = scrub message0;
          chan = channel_of ctx;
          (a, d1) = open_approval (principal_uid ctx) tool digest message chan (fv_token_hash fv)
                      (principal_client ctx) now d;
          payload = (\<lambda>mode link. state_payload (ap_id a) (fv_nonce fv) tool digest ctx mode link now);
          link = fv_link fv
      in case chan of
           Mrtr_form \<Rightarrow>
             (Asks (Form_request message) (fv_signed fv (payload (lit ''form'') [])),
              d1\<lparr>issued := payload (lit ''form'') [] # issued d1\<rparr>)
         | Mrtr_url \<Rightarrow>
             (Asks (Url_request (JStr link) message) (fv_signed fv (payload (lit ''url'') link)),
              d1\<lparr>issued := payload (lit ''url'') link # issued d1\<rparr>)
         | Url_error \<Rightarrow> (Raises_url (ap_id a) link message, d1)
         | In_text \<Rightarrow> (Refuses Needs_approval, d1))"

section \<open>The gate\<close>

definition reask :: "approval \<Rightarrow> dict \<Rightarrow> json \<Rightarrow> gate" where
  "reask a st token =
     (if dget st ''m'' = JStr (lit ''form'') then Asks (Form_request (ap_message a)) token
      else Asks (Url_request (dget st ''l'') (ap_message a)) token)"

text \<open>The answer of the client, from \<^verbatim>\<open>inputResponses\<close>.\<close>

definition answer_of :: "json \<Rightarrow> dict option" where
  "answer_of responses =
     (case responses of
        JObj r \<Rightarrow> (case dget r ''confirm'' of JObj a \<Rightarrow> Some a | _ \<Rightarrow> None)
      | _ \<Rightarrow> None)"

definition says :: "dict option \<Rightarrow> string \<Rightarrow> bool" where
  "says answer what = (case answer of None \<Rightarrow> False | Some a \<Rightarrow> dget a ''action'' = JStr (lit what))"

definition confirms_form :: "dict option \<Rightarrow> bool" where
  "confirms_form answer =
     (case answer of
        None \<Rightarrow> False
      | Some a \<Rightarrow> (case dget a ''content'' of JObj c \<Rightarrow> dget c ''confirm'' = JBool True | _ \<Rightarrow> False))"

definition state_matches :: "dict \<Rightarrow> pystr \<Rightarrow> pystr \<Rightarrow> call_context \<Rightarrow> bool" where
  "state_matches st tool digest ctx \<longleftrightarrow>
     json_eq (dget st ''u'') (JInt (principal_uid ctx)) \<and>
     dget st ''c'' = JStr (principal_client ctx) \<and>
     dget st ''t'' = JStr tool \<and> dget st ''h'' = JStr digest"

definition approval_of_state :: "dict \<Rightarrow> desk \<Rightarrow> approval option" where
  "approval_of_state st d =
     (case dget st ''a'' of JInt i \<Rightarrow> if i < 0 then None else row (nat i) d | _ \<Rightarrow> None)"

definition expired_state :: "dict \<Rightarrow> int \<Rightarrow> bool" where
  "expired_state st now =
     (case dget st ''e'' of JInt e \<Rightarrow> e < now | JBool b \<Rightarrow> of_bool b < now | _ \<Rightarrow> True)"

definition resume ::
  "(json \<Rightarrow> dict option) \<Rightarrow> bool \<Rightarrow> pystr \<Rightarrow> pystr \<Rightarrow> call_context \<Rightarrow> json \<Rightarrow> json \<Rightarrow> int \<Rightarrow> desk \<Rightarrow> gate \<times> desk" where
  "resume verify raced tool digest ctx token responses now d =
     (case verify token of
        None \<Rightarrow> (Refuses Not_valid, d)
      | Some st \<Rightarrow>
     if st = [] then (Refuses Not_valid, d)
     else if \<not> state_matches st tool digest ctx then (Refuses Another_action, d)
     else case approval_of_state st d of
            None \<Rightarrow> (Refuses Expired, d)
          | Some a \<Rightarrow>
     if ap_user a \<noteq> principal_uid ctx \<or> ap_credential a \<noteq> principal_client ctx \<or> ap_tool a \<noteq> tool \<or>
        ap_hash a \<noteq> digest \<or> expired_state st now then (Refuses Expired, d)
     else
       let answer = answer_of responses; i = ap_id a
       in if says answer ''decline'' \<or> says answer ''cancel'' then (Refuses Cancelled_by_user, snd (withdraw i now d))
          else if \<not> says answer ''accept'' then (reask a st token, d)
          else if dget st ''m'' = JStr (lit ''form'') then
            (if \<not> confirms_form answer then (Refuses Cancelled_by_user, snd (withdraw i now d))
             else case consume raced i Ap_pending now d of
                    (True, d') \<Rightarrow> (Runs (Some i), d')
                  | (False, d') \<Rightarrow> (Refuses Already_used, d'))
          else case consume raced i Ap_approved now d of
                 (True, d') \<Rightarrow> (Runs (Some i), d')
               | (False, d') \<Rightarrow>
                   (if map_option ap_state (row i d') = Some Ap_pending then (reask a st token, d')
                    else (Refuses Already_used, d')))"

definition gate ::
  "(json \<Rightarrow> dict option) \<Rightarrow> bool \<Rightarrow> fresh_values \<Rightarrow> (pystr \<Rightarrow> pystr) \<Rightarrow> pystr \<Rightarrow> confirm_mode \<Rightarrow>
   pystr \<Rightarrow> pystr option option \<Rightarrow> pystr \<Rightarrow> call_context \<Rightarrow> json \<Rightarrow> json \<Rightarrow> int \<Rightarrow> desk \<Rightarrow> gate \<times> desk" where
  "gate verify raced fv scrub tool mode default_message said digest ctx token responses now d =
     (case confirmation mode default_message said of
        None \<Rightarrow> (Runs None, d)
      | Some message \<Rightarrow>
     if message = [] then (Runs None, d)
     else if modern ctx \<and> truthy token then resume verify raced tool digest ctx token responses now d
     else case find_approved (principal_uid ctx) tool digest (principal_client ctx) now d of
            None \<Rightarrow> ask fv scrub tool digest message ctx now d
          | Some a \<Rightarrow>
              (case consume raced (ap_id a) Ap_approved now d of
                 (True, d') \<Rightarrow> (Runs (Some (ap_id a)), d')
               | (False, d') \<Rightarrow> ask fv scrub tool digest message ctx now d'))"

section \<open>What happens at the desk\<close>

text \<open>What an observer writes down, newest first: an approval asked for, by whom, for
  what, how and until when; the yes of a user on the page; the end of an approval; a call
  that ran with one, when, and whether the client sent the form's yes with it.\<close>

datatype ap_event =
    Asked int pystr pystr pystr channel nat int
  | Said_yes int nat
  | Ended nat
  | Ran int pystr pystr pystr nat int bool

definition newly :: "ap_state \<Rightarrow> desk \<Rightarrow> desk \<Rightarrow> nat list" where
  "newly s d d' =
     map ap_id (filter (\<lambda>a. ap_state a = s \<and> list_ex (\<lambda>b. ap_id b = ap_id a \<and> ap_state b \<noteq> s) (rows d)) (rows d'))"

definition asked :: "approval \<Rightarrow> ap_event" where
  "asked a = Asked (ap_user a) (ap_credential a) (ap_tool a) (ap_hash a) (ap_channel a) (ap_id a) (ap_expires a)"

definition call_events :: "call_context \<Rightarrow> pystr \<Rightarrow> pystr \<Rightarrow> json \<Rightarrow> int \<Rightarrow> gate \<Rightarrow> desk \<Rightarrow> desk \<Rightarrow> ap_event list" where
  "call_events ctx tool digest responses now r d d' =
     (case r of
        Runs (Some i) \<Rightarrow>
          [Ran (principal_uid ctx) (principal_client ctx) tool digest i now
             (says (answer_of responses) ''accept'' \<and> confirms_form (answer_of responses))]
      | _ \<Rightarrow> []) @
     map Ended (newly Ap_cancelled d d') @
     map asked (filter (\<lambda>a. next_row d \<le> ap_id a) (rows d'))"

definition page_events :: "int \<Rightarrow> desk \<Rightarrow> desk \<Rightarrow> ap_event list" where
  "page_events user d d' =
     map (Said_yes user) (newly Ap_approved d d') @ map Ended (newly Ap_cancelled d d')"

text \<open>Whoever calls may send any token and any answer; a state that verifies is one that
  was handed out.\<close>

inductive desk_history :: "desk \<Rightarrow> ap_event list \<Rightarrow> bool" where
  opens: "desk_history \<lparr>rows = [], next_row = n, issued = []\<rparr> []"
| calls: "desk_history d es \<Longrightarrow> (\<And>st. verify token = Some st \<Longrightarrow> st \<in> set (issued d)) \<Longrightarrow>
    gate verify raced fv scrub tool mode default_message said digest ctx token responses now d = (r, d') \<Longrightarrow>
    desk_history d' (call_events ctx tool digest responses now r d d' @ es)"
| decides: "desk_history d es \<Longrightarrow> approve_page internal user token_hash post decision now d = (p, d') \<Longrightarrow>
    desk_history d' (page_events user d d' @ es)"
| sweeps: "desk_history d es \<Longrightarrow> desk_history (gc_expired now d) es"

text \<open>A call that ran was asked for before by the same user with the same credential, for
  the same tool and arguments, ran before the approval expired, and had not run and not
  been called off before; either it was asked for with a form and the client sent its
  yes, or that user had said yes on the page.\<close>

fun justified :: "ap_event list \<Rightarrow> bool" where
  "justified [] = True"
| "justified (e # es) =
     ((case e of
         Ran u c t h i now form_yes \<Rightarrow>
           (\<exists>chan expires. Asked u c t h chan i expires \<in> set es \<and> now < expires \<and>
              (chan = Mrtr_form \<and> form_yes \<or> Said_yes u i \<in> set es)) \<and>
           Ended i \<notin> set es \<and> (\<forall>u' c' t' h' now' yes'. Ran u' c' t' h' i now' yes' \<notin> set es)
       | _ \<Rightarrow> True) \<and> justified es)"

definition set_state :: "nat \<Rightarrow> ap_state \<Rightarrow> desk \<Rightarrow> desk" where
  "set_state i s d = d\<lparr>rows := map (\<lambda>a. if ap_id a = i then a\<lparr>ap_state := s\<rparr> else a) (rows d)\<rparr>"

definition wf_desk :: "desk \<Rightarrow> bool" where
  "wf_desk d \<longleftrightarrow> distinct (map ap_id (rows d)) \<and> (\<forall>a \<in> set (rows d). ap_id a < next_row d)"

definition form_states_ok :: "desk \<Rightarrow> bool" where
  "form_states_ok d \<longleftrightarrow>
     (\<forall>st \<in> set (issued d). \<exists>i < next_row d. dget st ''a'' = JInt (int i) \<and>
        (dget st ''m'' = JStr (lit ''form'') \<longrightarrow> (\<forall>a \<in> set (rows d). ap_id a = i \<longrightarrow> ap_channel a = Mrtr_form)))"

definition in_order :: "desk \<Rightarrow> ap_event list \<Rightarrow> bool" where
  "in_order d es \<longleftrightarrow>
     wf_desk d \<and> form_states_ok d \<and> justified es \<and>
     (\<forall>a \<in> set (rows d). asked a \<in> set es \<and> (ap_state a = Ap_approved \<longrightarrow> Said_yes (ap_user a) (ap_id a) \<in> set es)) \<and>
     (\<forall>i. Ended i \<in> set es \<longrightarrow> i < next_row d \<and> (\<forall>a \<in> set (rows d). ap_id a = i \<longrightarrow> ap_state a = Ap_cancelled)) \<and>
     (\<forall>u c t h i now yes. Ran u c t h i now yes \<in> set es \<longrightarrow>
        i < next_row d \<and> (\<forall>a \<in> set (rows d). ap_id a = i \<longrightarrow> ap_state a = Ap_used))"

lemma transition_cases:
  assumes "wf_desk d" "transition i from to now d = (moved, d')"
  shows "\<not> moved \<and> d' = d \<or>
    moved \<and> d' = set_state i to d \<and> (\<exists>a \<in> set (rows d). ap_id a = i \<and> ap_state a = from \<and> now < ap_expires a)"
proof (cases "\<exists>a \<in> set (rows d). ap_id a = i \<and> ap_state a = from \<and> now < ap_expires a")
  case True
  then obtain a where a: "a \<in> set (rows d)" "ap_id a = i" "ap_state a = from" "now < ap_expires a"
    by blast
  have "x = a" if "x \<in> set (rows d)" "ap_id x = i" for x
    using that a assms(1) by (auto simp: wf_desk_def distinct_map inj_on_def)
  then have "ap_id x = i \<and> ap_state x = from \<and> now < ap_expires x \<longleftrightarrow> ap_id x = i" if "x \<in> set (rows d)" for x
    using that a by blast
  then have eq: "map (\<lambda>x. if ap_id x = i \<and> ap_state x = from \<and> now < ap_expires x then x\<lparr>ap_state := to\<rparr> else x) (rows d) =
      map (\<lambda>x. if ap_id x = i then x\<lparr>ap_state := to\<rparr> else x) (rows d)"
    by (intro map_cong) auto
  have "d' = set_state i to d"
    unfolding set_state_def eq[symmetric] using assms(2) by (simp add: transition_def Let_def)
  moreover have "moved"
    using assms(2) True by (auto simp: transition_def Let_def list_ex_iff)
  ultimately show ?thesis using True by blast
next
  case False
  then have "map (\<lambda>x. if ap_id x = i \<and> ap_state x = from \<and> now < ap_expires x then x\<lparr>ap_state := to\<rparr> else x) (rows d) = rows d"
    by (intro map_idI) auto
  then show ?thesis
    using assms(2) False by (auto simp: transition_def Let_def list_ex_iff)
qed

lemma one_row: "wf_desk d \<Longrightarrow> a \<in> set (rows d) \<Longrightarrow> b \<in> set (rows d) \<Longrightarrow> ap_id a = ap_id b \<Longrightarrow> a = b"
  by (auto simp: wf_desk_def distinct_map inj_on_def)

lemma rows_set_state:
  "a' \<in> set (rows (set_state i s d)) \<longleftrightarrow>
     (\<exists>a \<in> set (rows d). a' = (if ap_id a = i then a\<lparr>ap_state := s\<rparr> else a))"
  by (force simp: set_state_def)

lemma set_state_simps [simp]:
  "next_row (set_state i s d) = next_row d" "issued (set_state i s d) = issued d"
  "map ap_id (rows (set_state i s d)) = map ap_id (rows d)"
  by (auto simp: set_state_def)

lemma wf_set_state [simp]: "wf_desk (set_state i s d) \<longleftrightarrow> wf_desk d"
proof -
  have ids: "ap_id ` set (rows (set_state i s d)) = ap_id ` set (rows d)"
    by (metis set_map set_state_simps(3))
  have "wf_desk x \<longleftrightarrow> distinct (map ap_id (rows x)) \<and> (\<forall>j \<in> ap_id ` set (rows x). j < next_row x)" for x
    by (auto simp: wf_desk_def)
  then show ?thesis
    by (simp only: ids set_state_simps)
qed

lemma newly_elem:
  "i \<in> set (newly s d d') \<longleftrightarrow>
     (\<exists>a \<in> set (rows d'). ap_id a = i \<and> ap_state a = s \<and> (\<exists>b \<in> set (rows d). ap_id b = i \<and> ap_state b \<noteq> s))"
  by (auto simp: newly_def list_ex_iff)

lemma newly_same: "wf_desk d \<Longrightarrow> rows d' = rows d \<Longrightarrow> newly s d d' = []"
proof -
  assume d: "wf_desk d" "rows d' = rows d"
  have "i \<notin> set (newly s d d')" for i
  proof
    assume "i \<in> set (newly s d d')"
    then obtain a b where "a \<in> set (rows d)" "b \<in> set (rows d)" "ap_id a = ap_id b" "ap_state a \<noteq> ap_state b"
      unfolding newly_elem d(2) by auto
    then show False using one_row[OF d(1)] by blast
  qed
  then show ?thesis by (cases "newly s d d'") auto
qed

lemma newly_set_state:
  assumes "wf_desk d" "a \<in> set (rows d)" "ap_id a = i" "ap_state a \<noteq> s"
  shows "set (newly t d (set_state i s d)) = (if t = s then {i} else {})"
proof (intro set_eqI iffI)
  fix j assume "j \<in> set (newly t d (set_state i s d))"
  then obtain x b where x: "x \<in> set (rows d)" "ap_id x = j" "ap_state (if ap_id x = i then x\<lparr>ap_state := s\<rparr> else x) = t"
    and b: "b \<in> set (rows d)" "ap_id b = j" "ap_state b \<noteq> t"
    by (auto simp: newly_elem rows_set_state split: if_splits)
  then show "j \<in> (if t = s then {i} else {})"
    using one_row[OF assms(1) x(1) b(1)] by (auto split: if_splits)
next
  fix j assume "j \<in> (if t = s then {i} else {})"
  then have j: "j = i" "t = s" by (auto split: if_splits)
  have "a\<lparr>ap_state := s\<rparr> \<in> set (rows (set_state i s d))"
    unfolding rows_set_state using assms(2,3) by (intro bexI[of _ a]) simp_all
  then show "j \<in> set (newly t d (set_state i s d))"
    unfolding newly_elem j using assms(2-4) by (intro bexI[of _ "a\<lparr>ap_state := s\<rparr>"]) auto
qed

fun is_ran :: "ap_event \<Rightarrow> bool" where
  "is_ran (Ran u c t h i now yes) = True"
| "is_ran _ = False"

lemma justified_other: "list_all (\<lambda>e. \<not> is_ran e) xs \<Longrightarrow> justified (xs @ es) = justified es"
proof (induction xs)
  case (Cons e xs)
  then show ?case by (cases e) simp_all
qed simp

lemma in_orderD:
  assumes "in_order d es"
  shows "wf_desk d" "form_states_ok d" "justified es"
    and "a \<in> set (rows d) \<Longrightarrow> asked a \<in> set es"
    and "a \<in> set (rows d) \<Longrightarrow> ap_state a = Ap_approved \<Longrightarrow> Said_yes (ap_user a) (ap_id a) \<in> set es"
    and "Ended i \<in> set es \<Longrightarrow> i < next_row d"
    and "Ended i \<in> set es \<Longrightarrow> a \<in> set (rows d) \<Longrightarrow> ap_id a = i \<Longrightarrow> ap_state a = Ap_cancelled"
    and "Ran u c t h i now yes \<in> set es \<Longrightarrow> i < next_row d"
    and "Ran u c t h i now yes \<in> set es \<Longrightarrow> a \<in> set (rows d) \<Longrightarrow> ap_id a = i \<Longrightarrow> ap_state a = Ap_used"
  using assms unfolding in_order_def by blast+

text \<open>A live approval moves to another state, and what it says is written down.\<close>

lemma in_order_set_state:
  assumes ord: "in_order d es" and a: "a \<in> set (rows d)" "ap_id a = i" "ap_state a = Ap_pending \<or> ap_state a = Ap_approved"
    and just: "justified (xs @ es)"
    and yes: "s = Ap_approved \<Longrightarrow> Said_yes (ap_user a) i \<in> set xs"
    and ended: "\<And>j. Ended j \<in> set xs \<Longrightarrow> j = i \<and> s = Ap_cancelled"
    and ran: "\<And>u c t h j now yes. Ran u c t h j now yes \<in> set xs \<Longrightarrow> j = i \<and> s = Ap_used"
  shows "in_order (set_state i s d) (xs @ es)"
proof -
  note o = in_orderD[OF ord]
  have other: "Ended i \<notin> set es" "Ran u c t h i now yes \<notin> set es" for u c t h now yes
    using o(7)[of i a] o(9)[of _ _ _ _ i _ _ a] a by auto
  have i: "i < next_row d" using o(1) a by (auto simp: wf_desk_def)
  have row: "\<exists>y \<in> set (rows d). ap_id x = ap_id y \<and> ap_user x = ap_user y \<and> asked x = asked y \<and> ap_channel x = ap_channel y \<and>
      (if ap_id y = i then y = a \<and> ap_state x = s else x = y)" if "x \<in> set (rows (set_state i s d))" for x
    using that one_row[OF o(1) _ a(1)] a(2) by (force simp: rows_set_state asked_def)
  have "form_states_ok (set_state i s d)"
    using o(2) row unfolding form_states_ok_def by simp metis
  moreover have "asked x \<in> set (xs @ es) \<and> (ap_state x = Ap_approved \<longrightarrow> Said_yes (ap_user x) (ap_id x) \<in> set (xs @ es))"
    if "x \<in> set (rows (set_state i s d))" for x
    using row[OF that] o(4,5) yes a(2) by (auto split: if_splits)
  moreover have "j < next_row d \<and> (\<forall>x \<in> set (rows (set_state i s d)). ap_id x = j \<longrightarrow> ap_state x = Ap_cancelled)"
    if "Ended j \<in> set (xs @ es)" for j
  proof (cases "Ended j \<in> set es")
    case True
    then have "j \<noteq> i" using other(1) by blast
    then show ?thesis using True row o(6,7) by (metis (full_types))
  next
    case False
    then show ?thesis using that ended row i by (metis Un_iff set_append)
  qed
  moreover have "j < next_row d \<and> (\<forall>x \<in> set (rows (set_state i s d)). ap_id x = j \<longrightarrow> ap_state x = Ap_used)"
    if "Ran u c t h j now yes \<in> set (xs @ es)" for u c t h j now yes
  proof (cases "Ran u c t h j now yes \<in> set es")
    case True
    then have "j \<noteq> i" using other(2) by blast
    then show ?thesis using True row o(8,9) by (metis (full_types))
  next
    case False
    then show ?thesis using that ran row i by (metis Un_iff set_append)
  qed
  ultimately show ?thesis
    using just o(1) unfolding in_order_def by simp
qed

lemma in_order_open:
  assumes ord: "in_order d es" and a: "open_approval user tool digest message chan th cred now d = (a, d')"
  shows "in_order d' (asked a # es)" "newly s d d' = []" "filter (\<lambda>a. next_row d \<le> ap_id a) (rows d') = [a]"
    and "ap_id a = next_row d" "ap_channel a = chan" "next_row d' = Suc (next_row d)" "a \<in> set (rows d')"
proof -
  note o = in_orderD[OF ord]
  have d': "rows d' = rows d @ [a]" "next_row d' = Suc (next_row d)" "issued d' = issued d"
    and id: "ap_id a = next_row d" "ap_state a = Ap_pending" "ap_channel a = chan"
    using a by (auto simp: open_approval_def Let_def)
  then show "ap_id a = next_row d" "ap_channel a = chan" "next_row d' = Suc (next_row d)" "a \<in> set (rows d')"
    by auto
  have old: "ap_id x < next_row d" if "x \<in> set (rows d)" for x
    using o(1) that by (auto simp: wf_desk_def)
  then show "filter (\<lambda>a. next_row d \<le> ap_id a) (rows d') = [a]"
    using d'(1) id(1) by (fastforce simp: filter_empty_conv)
  have "\<not> list_ex (\<lambda>b. ap_id b = ap_id a \<and> ap_state b \<noteq> s) (rows d)"
    using old id(1) by (fastforce simp: list_ex_iff)
  then show "newly s d d' = []"
    using newly_same[OF o(1) refl, of s] d'(1) by (simp add: newly_def)
  have wf: "wf_desk d'"
    using o(1) old d' id(1) by (fastforce simp: wf_desk_def less_Suc_eq)
  have forms: "form_states_ok d'"
    using o(2) d' id(1) unfolding form_states_ok_def by (fastforce simp: less_Suc_eq)
  show "in_order d' (asked a # es)"
    unfolding in_order_def using wf forms o(3) o(4-5) o(6-9) d' id
    by (auto simp: asked_def less_SucI) (metis nat_neq_iff)+
qed

lemma in_order_issued:
  assumes "in_order d es" "a \<in> set (rows d)" "dget p ''a'' = JInt (int (ap_id a))"
    and "dget p ''m'' = JStr (lit ''form'') \<Longrightarrow> ap_channel a = Mrtr_form"
  shows "in_order (d\<lparr>issued := p # issued d\<rparr>) es"
proof -
  note o = in_orderD[OF assms(1)]
  have "ap_id a < next_row d" using o(1) assms(2) by (auto simp: wf_desk_def)
  moreover have "x = a" if "x \<in> set (rows d)" "ap_id x = ap_id a" for x
    using one_row[OF o(1) that(1) assms(2) that(2)] .
  ultimately have "form_states_ok (d\<lparr>issued := p # issued d\<rparr>)"
    using o(2) assms(3,4) unfolding form_states_ok_def by auto
  then show ?thesis
    using assms(1) by (simp add: in_order_def wf_desk_def)
qed

lemma ask_in_order:
  assumes ord: "in_order d es" and ask: "ask fv scrub tool digest message ctx now d = (r, d')"
  shows "in_order d' (call_events ctx tool digest responses now r d d' @ es)"
proof -
  obtain a d1 where a: "open_approval (principal_uid ctx) tool digest (scrub message) (channel_of ctx) (fv_token_hash fv)
      (principal_client ctx) now d = (a, d1)"
    by fastforce
  note o = in_order_open[OF ord a]
  let ?p = "\<lambda>mode link. state_payload (ap_id a) (fv_nonce fv) tool digest ctx mode link now"
  have p: "dget (?p mode link) ''a'' = JInt (int (ap_id a))" "dget (?p mode link) ''m'' = JStr mode" for mode link
    by (simp_all add: state_payload_def dget_def lit_eq)
  have r: "r \<noteq> Runs i" for i
    using ask a by (auto simp: ask_def Let_def split: channel.splits)
  have d': "d' = d1 \<or> (\<exists>mode link. d' = d1\<lparr>issued := ?p mode link # issued d1\<rparr> \<and>
      (mode = lit ''form'' \<longrightarrow> channel_of ctx = Mrtr_form))"
    using ask a by (auto simp: ask_def Let_def lit_eq split: channel.splits)
  then have "in_order d' (asked a # es)"
    using o(1) in_order_issued[OF o(1,7) p(1)] p(2) o(5) by auto
  moreover have "rows d' = rows d1" using d' by auto
  then have "call_events ctx tool digest responses now r d d' = [asked a]"
    using r o(2,3) by (auto simp: call_events_def newly_def split: gate.splits option.splits)
  ultimately show ?thesis by simp
qed

lemma no_new_rows: "wf_desk d \<Longrightarrow> filter (\<lambda>a. next_row d \<le> ap_id a) (rows (set_state i s d)) = []"
  by (fastforce simp: filter_empty_conv rows_set_state wf_desk_def not_le split: if_splits)

lemma no_new_rows_same: "wf_desk d \<Longrightarrow> filter (\<lambda>a. next_row d \<le> ap_id a) (rows d) = []"
  by (fastforce simp: filter_empty_conv wf_desk_def)

text \<open>A call that moves no approval leaves no trace.\<close>

lemma still_in_order:
  assumes "in_order d es" "\<And>i. r \<noteq> Runs (Some i)"
  shows "in_order d (call_events ctx tool digest responses now r d d @ es)"
proof -
  have "call_events ctx tool digest responses now r d d = []"
    using assms newly_same[OF in_orderD(1)[OF assms(1)] refl] no_new_rows_same[OF in_orderD(1)[OF assms(1)]]
    by (auto simp: call_events_def split: gate.splits option.splits)
  then show ?thesis using assms(1) by simp
qed

lemma withdraw_in_order:
  assumes ord: "in_order d es" and r: "\<And>i. r \<noteq> Runs (Some i)"
  shows "in_order (snd (withdraw i now d)) (call_events ctx tool digest responses now r d (snd (withdraw i now d)) @ es)"
proof -
  note o = in_orderD[OF ord]
  consider "snd (withdraw i now d) = d"
    | a where "snd (withdraw i now d) = set_state i Ap_cancelled d" "a \<in> set (rows d)" "ap_id a = i"
        "ap_state a = Ap_pending \<or> ap_state a = Ap_approved"
  proof -
    obtain m1 d1 m2 d2 where t: "transition i Ap_pending Ap_cancelled now d = (m1, d1)"
      "transition i Ap_approved Ap_cancelled now d = (m2, d2)"
      by fastforce
    then show thesis
      using that transition_cases[OF o(1) t(1)] transition_cases[OF o(1) t(2)]
      by (auto simp: withdraw_def split: bool.splits)
  qed
  then show ?thesis
  proof cases
    case 1
    then show ?thesis using still_in_order[OF ord r] by simp
  next
    case (2 a)
    let ?d = "set_state i Ap_cancelled d"
    let ?xs = "call_events ctx tool digest responses now r d ?d"
    have xs: "?xs = map Ended (newly Ap_cancelled d ?d)"
      using r no_new_rows[OF o(1)] by (auto simp: call_events_def split: gate.splits option.splits)
    have "set (newly Ap_cancelled d ?d) = {i}"
      using newly_set_state[OF o(1) 2(2,3), of Ap_cancelled Ap_cancelled] 2(4) by auto
    then have "in_order ?d (?xs @ es)"
      unfolding xs by (intro in_order_set_state[OF ord 2(2-4)]) (auto simp: justified_other o(3) list_all_iff)
    then show ?thesis using 2(1) by simp
  qed
qed

text \<open>An approval used: what the user, the credential, the tool and the digest of the call
  must be, and where its yes came from.\<close>

definition call_of :: "approval \<Rightarrow> call_context \<Rightarrow> pystr \<Rightarrow> pystr \<Rightarrow> bool" where
  "call_of a ctx tool digest \<longleftrightarrow>
     ap_user a = principal_uid ctx \<and> ap_credential a = principal_client ctx \<and> ap_tool a = tool \<and> ap_hash a = digest"

lemma consumed_in_order:
  assumes ord: "in_order d es" and a: "a \<in> set (rows d)" "ap_id a = i" "call_of a ctx tool digest" "now < ap_expires a"
    and yes: "ap_state a = Ap_approved \<or> ap_state a = Ap_pending \<and> ap_channel a = Mrtr_form \<and>
      says (answer_of responses) ''accept'' \<and> confirms_form (answer_of responses)"
  shows "in_order (set_state i Ap_used d) (call_events ctx tool digest responses now (Runs (Some i)) d (set_state i Ap_used d) @ es)"
proof -
  note o = in_orderD[OF ord]
  let ?d = "set_state i Ap_used d"
  let ?e = "Ran (principal_uid ctx) (principal_client ctx) tool digest i now
    (says (answer_of responses) ''accept'' \<and> confirms_form (answer_of responses))"
  have "set (newly Ap_cancelled d ?d) = {}"
    using newly_set_state[OF o(1) a(1,2), of Ap_used Ap_cancelled] yes by auto
  then have xs: "call_events ctx tool digest responses now (Runs (Some i)) d ?d = [?e]"
    using no_new_rows[OF o(1)] by (simp add: call_events_def)
  have "Ended i \<notin> set es" "Ran u c t h i now' y \<notin> set es" for u c t h now' y
    using o(7)[of i a] o(9)[of u c t h i now' y a] a(1,2) yes by auto
  moreover have "Asked (principal_uid ctx) (principal_client ctx) tool digest (ap_channel a) i (ap_expires a) \<in> set es"
    using o(4)[OF a(1)] a(2,3) by (simp add: asked_def call_of_def)
  moreover have "ap_state a = Ap_approved \<Longrightarrow> Said_yes (principal_uid ctx) i \<in> set es"
    using o(5)[OF a(1)] a(2,3) by (simp add: call_of_def)
  ultimately have "justified ([?e] @ es)"
    using o(3) a(4) yes by auto
  then show ?thesis
    unfolding xs using yes by (intro in_order_set_state[OF ord a(1,2)]) auto
qed

lemma consume_in_order:
  assumes ord: "in_order d es" and a: "a \<in> set (rows d)" "call_of a ctx tool digest"
    and src: "from = Ap_approved \<or> from = Ap_pending \<and> ap_channel a = Mrtr_form \<and>
      says (answer_of responses) ''accept'' \<and> confirms_form (answer_of responses)"
    and c: "consume raced (ap_id a) from now d = (moved, d')"
  shows "if moved then in_order d' (call_events ctx tool digest responses now (Runs (Some (ap_id a))) d d' @ es) else d' = d"
proof (cases moved)
  case True
  then have t: "transition (ap_id a) from Ap_used now d = (True, d')"
    using c by (auto simp: consume_def split: if_splits)
  then obtain b where b: "d' = set_state (ap_id a) Ap_used d" "b \<in> set (rows d)" "ap_id b = ap_id a" "ap_state b = from" "now < ap_expires b"
    using transition_cases[OF in_orderD(1)[OF ord] t] by auto
  moreover have "b = a" using one_row[OF in_orderD(1)[OF ord] b(2) a(1) b(3)] .
  ultimately show ?thesis
    using True consumed_in_order[OF ord a(1) refl a(2), of now responses] src by auto
next
  case False
  then show ?thesis
    using c transition_cases[OF in_orderD(1)[OF ord], of "ap_id a" "from" Ap_used now] by (auto simp: consume_def split: if_splits)
qed

lemma row_mem: "row i d = Some a \<Longrightarrow> a \<in> set (rows d) \<and> ap_id a = i"
  by (auto simp: row_def find_Some_iff)

lemma approval_of_state_mem:
  "approval_of_state st d = Some a \<Longrightarrow> a \<in> set (rows d) \<and> dget st ''a'' = JInt (int (ap_id a))"
  by (auto simp: approval_of_state_def dest!: row_mem split: json.splits if_splits)

lemma form_state_channel:
  assumes "form_states_ok d" "st \<in> set (issued d)" "a \<in> set (rows d)" "dget st ''a'' = JInt (int (ap_id a))"
    and "dget st ''m'' = JStr (lit ''form'')"
  shows "ap_channel a = Mrtr_form"
  using assms unfolding form_states_ok_def by fastforce

lemma reask_asks: "reask a st token \<noteq> Runs i"
  by (simp add: reask_def)

lemma resume_in_order:
  assumes ord: "in_order d es" and signed: "\<And>st. verify token = Some st \<Longrightarrow> st \<in> set (issued d)"
    and r: "resume verify raced tool digest ctx token responses now d = (r, d')"
  shows "in_order d' (call_events ctx tool digest responses now r d d' @ es)"
proof (cases "verify token")
  case verified: (Some st)
  note st = signed[OF verified]
  note quiet = still_in_order[OF ord] and wd = withdraw_in_order[OF ord]
  show ?thesis
  proof (cases "approval_of_state st d")
    case None
    then show ?thesis using r verified quiet by (auto simp: resume_def split: if_splits)
  next
    case (Some a)
    note a = approval_of_state_mem[OF Some]
    have form: "dget st ''m'' = JStr (lit ''form'') \<Longrightarrow> ap_channel a = Mrtr_form"
      using form_state_channel[OF in_orderD(2)[OF ord] st] a by blast
    obtain m1 d1 where m1: "consume raced (ap_id a) Ap_pending now d = (m1, d1)" by fastforce
    obtain m2 d2 where m2: "consume raced (ap_id a) Ap_approved now d = (m2, d2)" by fastforce
    show ?thesis
    proof (cases "state_matches st tool digest ctx \<and> call_of a ctx tool digest \<and> \<not> expired_state st now \<and> st \<noteq> [] \<and>
        says (answer_of responses) ''accept'' \<and> \<not> says (answer_of responses) ''decline'' \<and> \<not> says (answer_of responses) ''cancel''")
      case False
      then show ?thesis
        using r verified Some wd[where i = "ap_id a"] quiet reask_asks
        by (auto simp: resume_def Let_def call_of_def split: if_splits)
    next
      case accepted: True
      show ?thesis
      proof (cases "dget st ''m'' = JStr (lit ''form'')")
        case True
        then show ?thesis
          using r verified Some accepted form m1 wd[where i = "ap_id a"] quiet
            consume_in_order[OF ord _ _ _ m1, of ctx tool digest responses] a
          by (auto simp: resume_def Let_def call_of_def split: if_splits bool.splits)
      next
        case False
        then show ?thesis
          using r verified Some accepted m2 quiet reask_asks
            consume_in_order[OF ord _ _ _ m2, of ctx tool digest responses] a
          by (auto simp: resume_def Let_def call_of_def split: if_splits bool.splits)
      qed
    qed
  qed
qed (use r still_in_order[OF ord] in \<open>auto simp: resume_def\<close>)

lemma find_approved_mem:
  "find_approved u tool digest c now d = Some a \<Longrightarrow>
   a \<in> set (rows d) \<and> ap_user a = u \<and> ap_credential a = c \<and> ap_tool a = tool \<and> ap_hash a = digest"
  by (auto simp: find_approved_def dest!: find_Some_iff[THEN iffD1]) (metis length_rev nth_mem set_rev)

lemma gate_in_order:
  assumes ord: "in_order d es" and signed: "\<And>st. verify token = Some st \<Longrightarrow> st \<in> set (issued d)"
    and g: "gate verify raced fv scrub tool mode default_message said digest ctx token responses now d = (r, d')"
  shows "in_order d' (call_events ctx tool digest responses now r d d' @ es)"
proof (cases "confirmation mode default_message said")
  case None
  then show ?thesis using g still_in_order[OF ord, of "Runs None"] by (auto simp: gate_def)
next
  case (Some message)
  consider "message = []" | "message \<noteq> []" "modern ctx \<and> truthy token" | "message \<noteq> []" "\<not> (modern ctx \<and> truthy token)"
    by blast
  then show ?thesis
  proof cases
    case 1
    then show ?thesis using g Some still_in_order[OF ord, of "Runs None"] by (auto simp: gate_def)
  next
    case 2
    then show ?thesis using g Some resume_in_order[OF ord signed] by (auto simp: gate_def)
  next
    case 3
    show ?thesis
    proof (cases "find_approved (principal_uid ctx) tool digest (principal_client ctx) now d")
      case None
      then show ?thesis using g Some 3 ask_in_order[OF ord] by (auto simp: gate_def)
    next
      case found: (Some a)
      obtain moved d1 where c: "consume raced (ap_id a) Ap_approved now d = (moved, d1)" by fastforce
      note step = consume_in_order[OF ord _ _ _ c, of ctx tool digest responses]
      show ?thesis
        using g Some 3 found c step find_approved_mem[OF found] ask_in_order[OF ord]
        by (cases moved) (auto simp: gate_def call_of_def)
    qed
  qed
qed

lemma decide_in_order:
  assumes ord: "in_order d es" and a: "a \<in> set (rows d)" and t: "decide (ap_id a) yes now d = (moved, d')"
  shows "in_order d' (page_events (ap_user a) d d' @ es)"
proof -
  note o = in_orderD[OF ord]
  let ?s = "if yes then Ap_approved else Ap_cancelled"
  from transition_cases[OF o(1) t[unfolded decide_def]] consider "d' = d"
    | b where "d' = set_state (ap_id a) ?s d" "b \<in> set (rows d)" "ap_id b = ap_id a" "ap_state b = Ap_pending"
    by auto
  then show ?thesis
  proof cases
    case 1
    then show ?thesis using ord newly_same[OF o(1) refl] by (simp add: page_events_def)
  next
    case (2 b)
    have b: "b = a" using one_row[OF o(1) 2(2) a 2(3)] .
    have new: "set (newly s d d') = (if s = ?s then {ap_id a} else {})" for s
      unfolding 2(1) by (rule newly_set_state[OF o(1) a refl]) (use b 2(4) in auto)
    have "justified (page_events (ap_user a) d d' @ es)"
      by (subst justified_other) (auto simp: page_events_def list_all_iff o(3))
    then show ?thesis
      unfolding 2(1) using b 2(4) new[unfolded 2(1)]
      by (intro in_order_set_state[OF ord a refl]) (auto simp: page_events_def split: if_splits)
  qed
qed

lemma page_in_order:
  assumes ord: "in_order d es" and p: "approve_page internal user token_hash post decision now d = (p, d')"
  shows "in_order d' (page_events user d d' @ es)"
proof -
  have quiet: "in_order d (page_events user d d @ es)"
    using ord newly_same[OF in_orderD(1)[OF ord] refl] by (simp add: page_events_def)
  show ?thesis
  proof (cases "by_token token_hash d")
    case (Some a)
    have a: "a \<in> set (rows d)"
      using Some by (auto simp: by_token_def dest!: find_Some_iff[THEN iffD1]) (metis length_rev nth_mem set_rev)
    have step: "in_order (snd (decide (ap_id a) yes now d)) (page_events (ap_user a) d (snd (decide (ap_id a) yes now d)) @ es)" for yes
      using decide_in_order[OF ord a] by (metis prod.collapse)
    have "d' = d \<or> ap_user a = user \<and> (\<exists>yes. d' = snd (decide (ap_id a) yes now d))"
      using p Some by (auto simp: approve_page_def Let_def split: if_splits prod.splits bool.splits) (metis snd_conv)+
    then show ?thesis using quiet step by auto
  qed (use p quiet in \<open>auto simp: approve_page_def split: if_splits\<close>)
qed

lemma swept_in_order: "in_order d es \<Longrightarrow> in_order (gc_expired now d) es"
  unfolding in_order_def by (auto simp: gc_expired_def wf_desk_def form_states_ok_def distinct_map_filter)

lemma history_in_order: "desk_history d es \<Longrightarrow> in_order d es"
proof (induction rule: desk_history.induct)
  case (opens n)
  then show ?case by (simp add: in_order_def wf_desk_def form_states_ok_def)
next
  case (calls d es verify token raced fv scrub tool mode default_message said digest ctx responses now r d')
  then show ?case using gate_in_order by blast
next
  case (decides d es internal user token_hash post decision now p d')
  then show ?case using page_in_order by blast
next
  case (sweeps d es now)
  then show ?case by (simp add: swept_in_order)
qed

text \<open>C2. No sensitive action of an agent runs without the approval it needs, and an
  approval is good for one run. Whatever calls with whatever tokens and answers, page
  visits and sweeps follow one another: every call that ran on an approval had been asked
  for by the same user with the same credential, for the same tool and the same digest of
  the arguments; it ran before the approval expired; no call had used the approval
  before, and neither the client nor the user had called it off; and the yes was the form
  the client sent with the call, for an approval asked for by form, or else that user's on
  the page. A state the server accepts as signed is one it handed out.\<close>

theorem sensitive_calls_were_approved:
  assumes "desk_history d es"
  shows "justified es"
  using in_orderD(3)[OF history_in_order[OF assms]] .

definition agent :: call_context where
  "agent = \<lparr>version = lit ''2025-06-18'', modern = False, capabilities = JObj [], principal_uid = 7, principal_client = lit ''key-1''\<rparr>"

definition first_values :: fresh_values where
  "first_values = \<lparr>fv_token_hash = lit ''t'', fv_link = lit ''l'', fv_nonce = lit ''n'', fv_signed = JObj\<rparr>"

definition the_gate :: "int \<Rightarrow> desk \<Rightarrow> gate \<times> desk" where
  "the_gate now d = gate (\<lambda>_. None) False first_values id (lit ''delete_instance'') Always (lit ''Delete?'') None
     (lit ''h'') agent JNull JNull now d"

definition asked_desk :: desk where
  "asked_desk = snd (the_gate 0 \<lparr>rows = [], next_row = 1, issued = []\<rparr>)"

definition approved_desk :: desk where
  "approved_desk = snd (approve_page True 7 (lit ''t'') True (Some (lit ''approve'')) 60 asked_desk)"

theorem sensitive_calls_were_approved_witness:
  "justified [Ran 7 (lit ''key-1'') (lit ''delete_instance'') (lit ''h'') 1 90 False, Said_yes 7 1,
     Asked 7 (lit ''key-1'') (lit ''delete_instance'') (lit ''h'') In_text 1 600]"
proof -
  let ?d0 = "\<lparr>rows = [], next_row = 1, issued = []\<rparr>"
  let ?ev = "call_events agent (lit ''delete_instance'') (lit ''h'') JNull"
  have 1: "desk_history asked_desk (?ev 0 (fst (the_gate 0 ?d0)) ?d0 asked_desk @ [])"
    by (rule desk_history.calls[OF desk_history.opens]) (simp_all add: asked_desk_def the_gate_def)
  have 2: "desk_history approved_desk (page_events 7 asked_desk approved_desk @ ?ev 0 (fst (the_gate 0 ?d0)) ?d0 asked_desk @ [])"
    by (rule desk_history.decides[OF 1, of True 7 "lit ''t''" True "Some (lit ''approve'')" 60 "Decided True"]) code_simp
  have 3: "desk_history (snd (the_gate 90 approved_desk))
     (?ev 90 (fst (the_gate 90 approved_desk)) approved_desk (snd (the_gate 90 approved_desk)) @
      page_events 7 asked_desk approved_desk @ ?ev 0 (fst (the_gate 0 ?d0)) ?d0 asked_desk @ [])"
    by (rule desk_history.calls[OF 2]) (simp_all add: the_gate_def)
  have "?ev 90 (fst (the_gate 90 approved_desk)) approved_desk (snd (the_gate 90 approved_desk)) @
      page_events 7 asked_desk approved_desk @ ?ev 0 (fst (the_gate 0 ?d0)) ?d0 asked_desk @ [] =
     [Ran 7 (lit ''key-1'') (lit ''delete_instance'') (lit ''h'') 1 90 False, Said_yes 7 1,
      Asked 7 (lit ''key-1'') (lit ''delete_instance'') (lit ''h'') In_text 1 600]"
    by code_simp
  then show ?thesis using sensitive_calls_were_approved[OF 3] by metis
qed

end
