(* ===== verification/Mcp_Redact.thy ===== *)
theory Mcp_Redact
  imports Mcp_Answer "HOL-Library.Sublist" "HOL-Library.List_Lexorder" "HOL-Library.Product_Lexorder"
begin

text \<open>
  What leaves the panel through an agent (\<^verbatim>\<open>incubacloud_mcp/protocol/redact.py\<close>): the
  pieces a stored secret hides, the forms a secret may take, the pattern they are found
  with, a prefix tree compiled to a regular expression, the scrubber and the walkers
  over an answer. A regular expression is its syntax tree, matched as Python documents it:
  alternatives from left to right, an optional part first taken. The parser of JSON
  documents and Unicode's table of letters and digits are arguments.
\<close>

section \<open>The forms of a secret\<close>

definition MASK :: pystr where
  "MASK = lit ''[secreto]''"

definition MIN_SECRET_LEN :: nat where
  "MIN_SECRET_LEN = 8"

definition LONG_SECRET_CHARS :: nat where
  "LONG_SECRET_CHARS = 4096"

definition MAX_PARTS :: nat where
  "MAX_PARTS = 256"

definition surrogate :: "nat \<Rightarrow> bool" where
  "surrogate c \<longleftrightarrow> 0xD800 \<le> c \<and> c \<le> 0xDFFF"

definition utf8_char :: "nat \<Rightarrow> nat list" where
  "utf8_char c =
     (if c < 0x80 then [c]
      else if c < 0x800 then [0xC0 + c div 64, 0x80 + c mod 64]
      else if c < 0x10000 then [0xE0 + c div 4096, 0x80 + c div 64 mod 64, 0x80 + c mod 64]
      else [0xF0 + c div 262144, 0x80 + c div 4096 mod 64, 0x80 + c div 64 mod 64, 0x80 + c mod 64])"

text \<open>\<^verbatim>\<open>str.encode()\<close>: a lone surrogate raises.\<close>

definition encode :: "pystr \<Rightarrow> nat list option" where
  "encode s = (if list_ex surrogate s then None else Some (concat (map utf8_char s)))"

text \<open>\<^verbatim>\<open>urllib.parse.quote(value, safe="")\<close>.\<close>

definition unreserved :: "nat \<Rightarrow> bool" where
  "unreserved b \<longleftrightarrow> 48 \<le> b \<and> b \<le> 57 \<or> 65 \<le> b \<and> b \<le> 90 \<or> 97 \<le> b \<and> b \<le> 122 \<or> b \<in> {45, 46, 95, 126}"

definition upper_hex :: "nat \<Rightarrow> nat" where
  "upper_hex n = (if n < 10 then 48 + n else 55 + n)"

definition quote_byte :: "nat \<Rightarrow> pystr" where
  "quote_byte b = (if unreserved b then [b] else [37, upper_hex (b div 16 mod 16), upper_hex (b mod 16)])"

text \<open>\<^verbatim>\<open>base64.b64encode\<close>.\<close>

definition b64_char :: "nat \<Rightarrow> nat" where
  "b64_char n = (if n < 26 then 65 + n else if n < 52 then 71 + n else if n < 62 then n - 4 else if n = 62 then 43 else 47)"

fun b64 :: "nat list \<Rightarrow> pystr" where
  "b64 [] = []"
| "b64 [a] = [b64_char (a div 4 mod 64), b64_char (a mod 4 * 16), 61, 61]"
| "b64 [a, b] = [b64_char (a div 4 mod 64), b64_char (a mod 4 * 16 + b div 16 mod 16), b64_char (b mod 16 * 4), 61]"
| "b64 (a # b # c # bs) =
     b64_char (a div 4 mod 64) # b64_char (a mod 4 * 16 + b div 16 mod 16) # b64_char (b mod 16 * 4 + c div 64 mod 4) #
       b64_char (c mod 64) # b64 bs"

text \<open>\<open>None\<close> is the encoding error of a lone surrogate.\<close>

definition secret_variants :: "pystr \<Rightarrow> pystr list option" where
  "secret_variants v =
     (if length v < MIN_SECRET_LEN then Some []
      else map_option (\<lambda>bytes. [v, concat (map quote_byte bytes), b64 bytes]) (encode v))"

section \<open>The pattern\<close>

text \<open>A node of the prefix tree, whether a word ends there, and its branches.\<close>

datatype trie = Node bool "(nat \<times> trie) list"

fun on_branch :: "nat \<Rightarrow> (trie \<Rightarrow> trie) \<Rightarrow> (nat \<times> trie) list \<Rightarrow> (nat \<times> trie) list" where
  "on_branch c f [] = [(c, f (Node False []))]"
| "on_branch c f ((k, t) # ch) = (if k = c then (k, f t) # ch else (k, t) # on_branch c f ch)"

fun add_word :: "pystr \<Rightarrow> trie \<Rightarrow> trie" where
  "add_word [] (Node e ch) = Node True ch"
| "add_word (c # w) (Node e ch) = Node e (on_branch c (add_word w) ch)"

definition trie_of :: "pystr list \<Rightarrow> trie" where
  "trie_of ws = fold add_word ws (Node False [])"

text \<open>The expressions the tree compiles to: nothing, a character and what follows it, or a
  group of alternatives, optional or not.\<close>

datatype rx = Rx_empty | Rx_char nat rx | Rx_group "rx list" bool

fun trie_pattern :: "trie \<Rightarrow> rx" where
  "trie_pattern (Node e ch) =
     (let branches = map snd (sort_key fst (map (\<lambda>(c, t). (c, Rx_char c (trie_pattern t))) ch))
      in case branches of
           [] \<Rightarrow> Rx_empty
         | [b] \<Rightarrow> if e then Rx_group [b] True else b
         | _ \<Rightarrow> Rx_group branches e)"

fun word_rx :: "pystr \<Rightarrow> rx" where
  "word_rx [] = Rx_empty"
| "word_rx (c # w) = Rx_char c (word_rx w)"

text \<open>The fallback: the words one after another, longest first.\<close>

definition by_length :: "pystr list \<Rightarrow> pystr list" where
  "by_length ws = sort_key (\<lambda>v. (- int (length v), v)) ws"

definition flat_pattern :: "pystr list \<Rightarrow> rx" where
  "flat_pattern ws = Rx_group (map word_rx (by_length ws)) False"

text \<open>What is left of a text after each way an expression matches its start, the one
  preferred first.\<close>

fun rx_matches :: "rx \<Rightarrow> pystr \<Rightarrow> pystr list" where
  "rx_matches Rx_empty s = [s]"
| "rx_matches (Rx_char c r) s = (case s of [] \<Rightarrow> [] | x # s' \<Rightarrow> if x = c then rx_matches r s' else [])"
| "rx_matches (Rx_group rs opt) s = concat (map (\<lambda>r. rx_matches r s) rs) @ (if opt then [s] else [])"

definition rx_match :: "rx \<Rightarrow> pystr \<Rightarrow> pystr option" where
  "rx_match r s = (case rx_matches r s of [] \<Rightarrow> None | rest # _ \<Rightarrow> Some rest)"

text \<open>\<^verbatim>\<open>pattern.sub\<close>, for a pattern that matches at least one character; \<open>m\<close> gives what is left
  after a match, and what takes its place.\<close>

function sub_with :: "(pystr \<Rightarrow> (pystr \<times> pystr) option) \<Rightarrow> pystr \<Rightarrow> pystr" where
  "sub_with m [] = []"
| "sub_with m (c # s) =
     (case m (c # s) of
        None \<Rightarrow> c # sub_with m s
      | Some (new, rest) \<Rightarrow> if length rest \<le> length s then new @ sub_with m rest else c # sub_with m s)"
  by pat_completeness auto

termination
  by (relation "measure (\<lambda>(m, s). length s)") auto

definition mask_match :: "rx \<Rightarrow> pystr \<Rightarrow> (pystr \<times> pystr) option" where
  "mask_match r s = map_option (Pair MASK) (rx_match r s)"

text \<open>\<^verbatim>\<open>str.replace(variant, MASK)\<close>.\<close>

definition replace_match :: "pystr \<Rightarrow> pystr \<Rightarrow> (pystr \<times> pystr) option" where
  "replace_match v s = (if v \<noteq> [] \<and> prefix v s then Some (MASK, drop (length v) s) else None)"

text \<open>\<open>too_deep\<close>: the expression of the tree nests too deep for the compiler.\<close>

definition compiled :: "(pystr list \<Rightarrow> bool) \<Rightarrow> pystr list \<Rightarrow> rx option" where
  "compiled too_deep ws =
     (if ws = [] then None else Some (if too_deep ws then flat_pattern ws else trie_pattern (trie_of ws)))"

section \<open>Credentials and one-time links\<close>

text \<open>A lower-case ASCII letter of a pattern that ignores case: Unicode folds four more
  letters onto i, k and s.\<close>

definition folds_to :: "nat \<Rightarrow> nat \<Rightarrow> bool" where
  "folds_to p c \<longleftrightarrow> c = p \<or> (97 \<le> p \<and> p \<le> 122 \<and> c + 32 = p) \<or> (p = 105 \<and> c \<in> {0x130, 0x131}) \<or>
     (p = 107 \<and> c = 0x212A) \<or> (p = 115 \<and> c = 0x17F)"

definition any_letter :: "nat \<Rightarrow> bool" where
  "any_letter c \<longleftrightarrow> 97 \<le> c \<and> c \<le> 122 \<or> 65 \<le> c \<and> c \<le> 90 \<or> c \<in> {0x130, 0x131, 0x17F, 0x212A}"

fun starts_folded :: "pystr \<Rightarrow> pystr \<Rightarrow> bool" where
  "starts_folded [] s = True"
| "starts_folded (p # ps) [] = False"
| "starts_folded (p # ps) (c # s) = (folds_to p c \<and> starts_folded ps s)"

definition scheme_char :: "nat \<Rightarrow> bool" where
  "scheme_char c \<longleftrightarrow> any_letter c \<or> 48 \<le> c \<and> c \<le> 57 \<or> c \<in> {43, 45, 46}"

definition userinfo_char :: "nat \<Rightarrow> bool" where
  "userinfo_char c \<longleftrightarrow> \<not> py_space c \<and> c \<notin> {47, 63, 35, 64}"

text \<open>The match of \<^verbatim>\<open>\b([a-z][a-z0-9+.-]{0,31}://)[^/?#\s@]+@\<close> at a place whose character
  before is \<open>before\<close>: the scheme with its separator, and what is left after the at sign.
  No character may be in two of its parts, so there is one way to match. \<open>alnum\<close> is
  Unicode's table.\<close>

definition url_credential :: "(nat \<Rightarrow> bool) \<Rightarrow> nat option \<Rightarrow> pystr \<Rightarrow> (pystr \<times> pystr) option" where
  "url_credential alnum before s =
     (let word = (\<lambda>c. alnum c \<or> c = 95);
          scheme = takeWhile scheme_char s; after = drop (length scheme) s;
          info = takeWhile userinfo_char (drop 3 after); rest = drop (3 + length info) after
      in if (case before of None \<Rightarrow> True | Some c \<Rightarrow> \<not> word c) \<and> scheme \<noteq> [] \<and> any_letter (hd scheme) \<and>
            length scheme \<le> 32 \<and> take 3 after = lit ''://'' \<and> info \<noteq> [] \<and> rest \<noteq> [] \<and> hd rest = 64
         then Some (scheme @ lit ''://'' @ MASK @ [64], tl rest) else None)"

text \<open>\<^verbatim>\<open>sub\<close> with what is before each place.\<close>

function mask_credentials :: "(nat \<Rightarrow> bool) \<Rightarrow> nat option \<Rightarrow> pystr \<Rightarrow> pystr" where
  "mask_credentials alnum before [] = []"
| "mask_credentials alnum before (c # s) =
     (case url_credential alnum before (c # s) of
        None \<Rightarrow> c # mask_credentials alnum (Some c) s
      | Some (new, rest) \<Rightarrow>
          if length rest \<le> length s then new @ mask_credentials alnum (Some 64) rest
          else c # mask_credentials alnum (Some c) s)"
  by pat_completeness auto

termination
  by (relation "measure (\<lambda>(a, b, s). length s)") auto

text \<open>\<^verbatim>\<open>https?://[^\s"'<>]+\<close>.\<close>

definition url_char :: "nat \<Rightarrow> bool" where
  "url_char c \<longleftrightarrow> \<not> py_space c \<and> c \<notin> {34, 39, 60, 62}"

definition url_match :: "pystr \<Rightarrow> (pystr \<times> pystr) option" where
  "url_match s =
     (let n = (if starts_folded (lit ''https://'') s then 8 else if starts_folded (lit ''http://'') s then 7 else 0);
          tail = takeWhile url_char (drop n s)
      in if n = 0 \<or> tail = [] then None else Some (take (n + length tail) s, drop (n + length tail) s))"

definition TOKEN_MARKS :: "pystr list" where
  "TOKEN_MARKS = [lit ''token='', lit ''/web/reset_password?'', lit ''/web/signup?'', lit ''/ic/login?'']"

definition has_token_mark :: "pystr \<Rightarrow> bool" where
  "has_token_mark url \<longleftrightarrow> (\<exists>n < length url. \<exists>m \<in> set TOKEN_MARKS. starts_folded m (drop n url))"

definition mask_token_url :: "pystr \<Rightarrow> (pystr \<times> pystr) option" where
  "mask_token_url s = map_option (\<lambda>(url, rest). (if has_token_mark url then MASK else url, rest)) (url_match s)"

section \<open>The walkers\<close>

lemma size_zip_elem2: "(x, y) \<in> set (zip xs ys) \<Longrightarrow> size y < Suc (size_list size ys)"
  by (meson le_imp_less_Suc set_zip_rightD size_list_estimation' order_refl)

fun mask_token_urls :: "json \<Rightarrow> json" where
  "mask_token_urls (JStr s) = JStr (sub_with mask_token_url s)"
| "mask_token_urls (JObj d) = JObj (map (\<lambda>(k, v). (k, mask_token_urls v)) d)"
| "mask_token_urls (JList xs) = JList (map mask_token_urls xs)"
| "mask_token_urls v = v"

fun drop_secret_keys :: "pystr set \<Rightarrow> json \<Rightarrow> json" where
  "drop_secret_keys names (JObj d) =
     JObj (filter (\<lambda>(k, v). k \<notin> names) (map (\<lambda>(k, v). (k, drop_secret_keys names v)) d))"
| "drop_secret_keys names (JList xs) = JList (map (drop_secret_keys names) xs)"
| "drop_secret_keys names v = v"

text \<open>The path of the first secret key.\<close>

function find_secret_key :: "pystr set \<Rightarrow> pystr \<Rightarrow> json \<Rightarrow> pystr option" where
  "find_secret_key names path (JObj d) =
     fold (\<lambda>(k, hit) found. case found of Some p \<Rightarrow> Some p
                                        | None \<Rightarrow> if k \<in> names then Some (path @ 46 # k) else hit)
       (map (\<lambda>(k, v). (k, find_secret_key names (path @ 46 # k) v)) d) None"
| "find_secret_key names path (JList xs) =
     fold (\<lambda>hit found. case found of Some p \<Rightarrow> Some p | None \<Rightarrow> hit)
       (map (\<lambda>(i, v). find_secret_key names (path @ 91 # decimal i @ [93]) v) (enumerate 0 xs)) None"
| "find_secret_key names path JNull = None"
| "find_secret_key names path (JBool b) = None"
| "find_secret_key names path (JInt i) = None"
| "find_secret_key names path (JFloat f) = None"
| "find_secret_key names path (JStr s) = None"
  by pat_completeness auto

termination
  by (relation "measure (\<lambda>(names, path, j). size j)")
    (auto simp: enumerate_eq_zip dest: size_obj_elem size_zip_elem2)

text \<open>The scrubber of a set of secrets, given as a list without repetition; \<open>None\<close> when a
  secret cannot be encoded.\<close>

record scrubber =
  sc_long :: "pystr list"
  sc_pattern :: "rx option"

fun all_variants :: "pystr list \<Rightarrow> pystr list option" where
  "all_variants [] = Some []"
| "all_variants (v # vs) =
     (case (secret_variants v, all_variants vs) of (Some xs, Some ys) \<Rightarrow> Some (remdups (xs @ ys)) | _ \<Rightarrow> None)"

definition scrubber_of :: "(pystr list \<Rightarrow> bool) \<Rightarrow> pystr list \<Rightarrow> scrubber option" where
  "scrubber_of too_deep values =
     (case (all_variants (filter (\<lambda>v. LONG_SECRET_CHARS < length v) values),
            all_variants (filter (\<lambda>v. length v \<le> LONG_SECRET_CHARS) values)) of
        (Some long, Some short) \<Rightarrow> Some \<lparr>sc_long = by_length long, sc_pattern = compiled too_deep short\<rparr>
      | _ \<Rightarrow> None)"

definition scrub_text :: "(nat \<Rightarrow> bool) \<Rightarrow> scrubber \<Rightarrow> pystr \<Rightarrow> pystr" where
  "scrub_text alnum sc s =
     (let s1 = fold (\<lambda>v s. sub_with (replace_match v) s) (sc_long sc) s;
          s2 = (case sc_pattern sc of None \<Rightarrow> s1 | Some r \<Rightarrow> sub_with (mask_match r) s1)
      in mask_credentials alnum None s2)"

fun scrub_value :: "(nat \<Rightarrow> bool) \<Rightarrow> scrubber \<Rightarrow> json \<Rightarrow> json" where
  "scrub_value alnum sc (JStr s) = JStr (scrub_text alnum sc s)"
| "scrub_value alnum sc (JObj d) =
     JObj (assign_all (map (\<lambda>(k, v). (scrub_text alnum sc k, scrub_value alnum sc v)) d))"
| "scrub_value alnum sc (JList xs) = JList (map (scrub_value alnum sc) xs)"
| "scrub_value alnum sc v = v"

section \<open>The pieces of a stored secret\<close>

definition SECRET_KEY_WORDS :: "pystr list" where
  "SECRET_KEY_WORDS = [lit ''password'', lit ''secret'', lit ''token'', lit ''passphrase'', lit ''key'']"

definition PUBLIC_KEYS :: "pystr list" where
  "PUBLIC_KEYS = [lit ''machine'', lit ''login'']"

definition names_secret :: "pystr \<Rightarrow> bool" where
  "names_secret k \<longleftrightarrow> (\<exists>n < length k. \<exists>m \<in> set SECRET_KEY_WORDS. starts_folded m (drop n k))"

lemma size_pushed:
  "sum_list (map (\<lambda>(j, b). Suc (size j)) (rev (map (\<lambda>(k, item). (item, f k)) d))) \<le>
     size_list (size_prod (\<lambda>_. 0) size) d"
  "sum_list (map (\<lambda>(j, b). Suc (size j)) (rev (map (\<lambda>item. (item, b)) xs))) = size_list size xs"
  by (induction d) (auto, induction xs, auto)

text \<open>The walk over a document: the stack, its top first, and the leaves so far.\<close>

function json_leaves :: "(json \<times> bool) list \<Rightarrow> pystr list \<Rightarrow> pystr list" where
  "json_leaves [] leaves = leaves"
| "json_leaves ((node, secret) # stack) leaves =
     (if MAX_PARTS \<le> length leaves then leaves
      else case node of
          JObj d \<Rightarrow>
            json_leaves
              (rev (map (\<lambda>(k, item). (item, k \<notin> set PUBLIC_KEYS \<and> (secret \<or> names_secret k))) d) @ stack) leaves
        | JList xs \<Rightarrow> json_leaves (rev (map (\<lambda>item. (item, secret)) xs) @ stack) leaves
        | JStr s \<Rightarrow> json_leaves stack (if secret then leaves @ [s] else leaves)
        | _ \<Rightarrow> json_leaves stack leaves)"
  by pat_completeness auto

termination
proof (relation "measure (\<lambda>(stack, leaves). sum_list (map (\<lambda>(j, b). Suc (size j)) stack))")
qed (auto simp: less_Suc_eq_le le_SucI size_pushed)

definition pem_char :: "nat \<Rightarrow> bool" where
  "pem_char c \<longleftrightarrow> 65 \<le> c \<and> c \<le> 90 \<or> 97 \<le> c \<and> c \<le> 122 \<or> 48 \<le> c \<and> c \<le> 57 \<or> c \<in> {43, 47, 61}"

definition pem_lines :: "pystr \<Rightarrow> pystr list" where
  "pem_lines s = filter (\<lambda>line. MIN_SECRET_LEN \<le> length line \<and> list_all pem_char line) (map strip (split_lines [] s))"

text \<open>\<open>loads\<close> is \<^verbatim>\<open>json.loads\<close>, \<open>None\<close> where it raises.\<close>

definition leaves_of :: "(pystr \<Rightarrow> json option) \<Rightarrow> pystr \<Rightarrow> pystr list" where
  "leaves_of loads s =
     (if take 1 (lstrip s) \<in> {lit ''{'', lit ''[''}
      then json_leaves [(case loads s of None \<Rightarrow> JNull | Some document \<Rightarrow> document, False)] [] else [])"

definition pieces_of :: "(pystr \<Rightarrow> json option) \<Rightarrow> pystr \<Rightarrow> pystr list" where
  "pieces_of loads s = leaves_of loads s @ (if sublist (lit ''-----BEGIN '') s then pem_lines s else [])"

definition add_pieces :: "pystr list \<Rightarrow> pystr list \<Rightarrow> pystr list" where
  "add_pieces found parts = fold (\<lambda>p ps. if MAX_PARTS < length ps then ps else List.insert p ps) found parts"

text \<open>The loop over the texts still to be looked into, last found first, with the set of
  pieces as a list without repetition. Nothing in its shape makes it end.\<close>

partial_function (option) split_pending ::
    "(pystr \<Rightarrow> json option) \<Rightarrow> pystr list \<Rightarrow> pystr list \<Rightarrow> pystr list option" where
  "split_pending loads parts pending =
     (case pending of
        [] \<Rightarrow> Some parts
      | s # rest \<Rightarrow>
          if MAX_PARTS < length parts then Some parts
          else split_pending loads (add_pieces (pieces_of loads s) parts)
                 (rev (filter (\<lambda>leaf. leaf \<notin> set parts) (leaves_of loads s)) @ rest))"

declare split_pending.simps [code]

definition secret_parts :: "(pystr \<Rightarrow> json option) \<Rightarrow> pystr \<Rightarrow> bool \<Rightarrow> pystr list option" where
  "secret_parts loads v structured = split_pending loads [v] (if structured then [v] else [])"

end
