(* ===== verification/Redact_Facts.thy ===== *)
theory Redact_Facts
  imports Mcp_Redact
begin

text \<open>
  What the redaction of answers gives: the prefix tree finds the same matches as the flat
  alternation, no known secret is left in an answer in any of its forms, the search for
  the pieces of a stored document ends, and the two walkers over keys agree.
\<close>

section \<open>The prefix tree\<close>

fun trie_words :: "trie \<Rightarrow> pystr set" where
  "trie_words (Node e ch) = (if e then {[]} else {}) \<union> (\<Union>(c, t) \<in> set ch. (#) c ` trie_words t)"

text \<open>Each character has one branch, and only a place where a word ends has none.\<close>

fun wf_trie :: "trie \<Rightarrow> bool" where
  "wf_trie (Node e ch) \<longleftrightarrow> distinct (map fst ch) \<and> (e \<or> ch \<noteq> []) \<and> (\<forall>(c, t) \<in> set ch. wf_trie t)"

lemma fst_on_branch: "fst ` set (on_branch c f ch) = insert c (fst ` set ch)"
  by (induction c f ch rule: on_branch.induct) auto

lemma distinct_on_branch: "distinct (map fst ch) \<Longrightarrow> distinct (map fst (on_branch c f ch))"
  by (induction c f ch rule: on_branch.induct) (auto simp: fst_on_branch)

lemma on_branch_elem:
  "(k, t) \<in> set (on_branch c f ch) \<Longrightarrow>
     (k, t) \<in> set ch \<or> k = c \<and> (t = f (Node False []) \<or> (\<exists>t'. (c, t') \<in> set ch \<and> t = f t'))"
  by (induction c f ch rule: on_branch.induct) (auto split: if_splits)

lemma on_branch_nonempty: "on_branch c f ch \<noteq> []"
  by (induction c f ch rule: on_branch.induct) auto

lemma on_branch_words:
  assumes "\<And>t. trie_words (f t) = insert w (trie_words t)"
  shows "(\<Union>(k, t) \<in> set (on_branch c f ch). (#) k ` trie_words t) =
    insert (c # w) (\<Union>(k, t) \<in> set ch. (#) k ` trie_words t)"
  using assms by (induction c f ch rule: on_branch.induct) auto

definition branching :: "trie \<Rightarrow> bool" where
  "branching t \<longleftrightarrow> wf_trie t \<or> t = Node False []"

lemma add_word_wf: "branching t \<Longrightarrow> wf_trie (add_word w t)"
proof (induction w t rule: add_word.induct)
  case (1 e ch)
  then show ?case by (auto simp: branching_def)
next
  case (2 c w e ch)
  have d: "distinct (map fst ch)" and sub: "\<And>k t. (k, t) \<in> set ch \<Longrightarrow> wf_trie t"
    using 2(2) by (auto simp: branching_def)
  have "wf_trie t" if "(k, t) \<in> set (on_branch c (add_word w) ch)" for k t
    using on_branch_elem[OF that] 2(1) sub by (auto simp: branching_def)
  then show ?case using distinct_on_branch[OF d] by (auto simp: on_branch_nonempty)
qed

lemma add_word_words: "trie_words (add_word w t) = insert w (trie_words t)"
proof (induction w arbitrary: t)
  case Nil
  then show ?case by (cases t) auto
next
  case (Cons c w)
  then show ?case by (cases t) (auto simp: on_branch_words)
qed

lemma trie_of_words: "trie_words (trie_of ws) = set ws"
proof -
  have "trie_words (fold add_word ws t) = set ws \<union> trie_words t" for t
    by (induction ws arbitrary: t) (auto simp: add_word_words)
  from this[of "Node False []"] show ?thesis by (simp add: trie_of_def)
qed

lemma trie_of_wf:
  assumes "ws \<noteq> []"
  shows "wf_trie (trie_of ws)"
proof -
  have "wf_trie (fold add_word us t)" if "wf_trie t" for us t
    using that by (induction us arbitrary: t) (auto simp: add_word_wf branching_def)
  with assms show ?thesis by (cases ws) (auto simp: trie_of_def add_word_wf branching_def)
qed

text \<open>The lengths of the words a text starts with, longest first.\<close>

definition word_lengths :: "pystr set \<Rightarrow> pystr \<Rightarrow> nat list" where
  "word_lengths W s = rev (filter (\<lambda>n. take n s \<in> W) [0..<Suc (length s)])"

lemma word_lengths_Nil: "word_lengths W [] = (if [] \<in> W then [0] else [])"
  by (simp add: word_lengths_def)

lemma word_lengths_Cons:
  "word_lengths W (c # s) = map Suc (word_lengths {w. c # w \<in> W} s) @ (if [] \<in> W then [0] else [])"
proof -
  have "[0..<Suc (length (c # s))] = 0 # map Suc [0..<Suc (length s)]"
    by (simp add: map_Suc_upt upt_conv_Cons del: upt_Suc)
  then show ?thesis by (simp only: word_lengths_def) (simp add: filter_map o_def rev_map)
qed

lemma only_branch:
  assumes "distinct (map fst xs)"
  shows "concat (map (\<lambda>(c, r). if x = c then g r else []) xs) = (case map_of xs x of None \<Rightarrow> [] | Some r \<Rightarrow> g r)"
  using assms
proof (induction xs)
  case (Cons p xs)
  obtain c r where p: "p = (c, r)" by fastforce
  show ?case
  proof (cases "x = c")
    case True
    then have "map_of xs x = None" using Cons.prems p by (simp add: map_of_eq_None_iff)
    then show ?thesis using Cons p True by simp
  qed (use Cons p in simp)
qed simp

lemma map_of_sort_key: "distinct (map fst xs) \<Longrightarrow> map_of (sort_key f xs) = map_of xs"
  by (rule map_of_inject_set[THEN iffD2]) (auto simp: distinct_map)

lemma trie_words_after:
  assumes "distinct (map fst ch)"
  shows "{w. x # w \<in> trie_words (Node e ch)} = (case map_of ch x of None \<Rightarrow> {} | Some t \<Rightarrow> trie_words t)"
proof (cases "map_of ch x")
  case None
  then have "(x, t) \<notin> set ch" for t by (auto simp: map_of_eq_None_iff rev_image_eqI)
  with None show ?thesis by auto
next
  case (Some t)
  have only: "(x, t') \<in> set ch \<longleftrightarrow> t' = t" for t'
    using Some map_of_eq_Some_iff[OF assms, of x t'] by auto
  have "x # w \<in> trie_words (Node e ch) \<longleftrightarrow> (\<exists>t'. (x, t') \<in> set ch \<and> w \<in> trie_words t')" for w
    by auto
  then show ?thesis by (simp add: only Some)
qed

definition branches :: "(nat \<times> trie) list \<Rightarrow> (nat \<times> rx) list" where
  "branches ch = sort_key fst (map (\<lambda>(c, t). (c, Rx_char c (trie_pattern t))) ch)"

lemma branches_facts:
  assumes "distinct (map fst ch)"
  shows "map_of (branches ch) x = map_option (\<lambda>t. Rx_char x (trie_pattern t)) (map_of ch x)"
    and "distinct (map fst (branches ch))"
    and "branches ch = [] \<longleftrightarrow> ch = []"
    and "(c, r) \<in> set (branches ch) \<Longrightarrow> \<exists>t. r = Rx_char c (trie_pattern t)"
proof -
  have m: "map_of (map (\<lambda>(c, t). (c, Rx_char c (trie_pattern t))) ch) x =
      map_option (\<lambda>t. Rx_char x (trie_pattern t)) (map_of ch x)"
    by (induction ch) auto
  have fst: "map fst (map (\<lambda>(c, t). (c, Rx_char c (trie_pattern t))) ch) = map fst ch" by auto
  show "map_of (branches ch) x = map_option (\<lambda>t. Rx_char x (trie_pattern t)) (map_of ch x)"
    using assms by (simp add: branches_def map_of_sort_key[of "map _ ch"] fst m del: map_map)
  have "mset (map fst (branches ch)) = image_mset fst (mset (map (\<lambda>(c, t). (c, Rx_char c (trie_pattern t))) ch))"
    by (simp add: branches_def)
  then have "mset (map fst (branches ch)) = mset (map fst ch)"
    by (simp only: fst flip: mset_map)
  then show "distinct (map fst (branches ch))" using assms mset_eq_imp_distinct_iff by blast
  have "length (branches ch) = length ch" by (simp add: branches_def)
  then show "branches ch = [] \<longleftrightarrow> ch = []" by (metis length_0_conv)
qed (auto simp: branches_def)

lemma trie_pattern_matches:
  "rx_matches (trie_pattern (Node e ch)) s =
     (if ch = [] then [s] else concat (map (\<lambda>r. rx_matches r s) (map snd (branches ch))) @ (if e then [s] else []))"
  if "distinct (map fst ch)"
proof -
  have "trie_pattern (Node e ch) =
     (case map snd (branches ch) of [] \<Rightarrow> Rx_empty | [b] \<Rightarrow> if e then Rx_group [b] True else b
       | _ \<Rightarrow> Rx_group (map snd (branches ch)) e)"
    by (simp only: trie_pattern.simps Let_def flip: branches_def)
  then show ?thesis using branches_facts(3)[OF that] by (auto split: list.split)
qed

lemma trie_matches:
  "wf_trie t \<Longrightarrow> rx_matches (trie_pattern t) s = map (\<lambda>n. drop n s) (word_lengths (trie_words t) s)"
proof (induction s arbitrary: t)
  case Nil
  obtain e ch where t: "t = Node e ch" by (cases t)
  have "rx_matches r [] = []" if "r \<in> snd ` set (branches ch)" for r
    using that branches_facts(4)[of ch] Nil t by fastforce
  then have "concat (map (\<lambda>r. rx_matches r []) (map snd (branches ch))) = []" by auto
  then show ?case using Nil t by (auto simp: trie_pattern_matches word_lengths_Nil simp del: trie_pattern.simps)
next
  case (Cons x s)
  obtain e ch where t: "t = Node e ch" by (cases t)
  then have d: "distinct (map fst ch)" and sub: "\<And>c t. (c, t) \<in> set ch \<Longrightarrow> wf_trie t"
    using Cons.prems by auto
  have "concat (map (\<lambda>r. rx_matches r (x # s)) (map snd (branches ch))) =
      concat (map (\<lambda>(c, r). if x = c then rx_matches r (x # s) else []) (branches ch))"
    using branches_facts(4)[OF d] by (auto intro!: arg_cong[of _ _ concat] map_cong split: if_splits) fastforce
  also have "\<dots> = (case map_of ch x of None \<Rightarrow> [] | Some t' \<Rightarrow> rx_matches (trie_pattern t') s)"
    by (subst only_branch[OF branches_facts(2)[OF d]]) (simp add: branches_facts(1)[OF d] split: option.split)
  also have "\<dots> = map (\<lambda>n. drop n (x # s)) (map Suc (word_lengths {w. x # w \<in> trie_words t} s))"
  proof (cases "map_of ch x")
    case None
    then show ?thesis unfolding t trie_words_after[OF d] by (simp add: word_lengths_def)
  next
    case (Some t')
    then show ?thesis using Cons.IH[of t'] sub[OF map_of_SomeD[OF Some]]
      unfolding t trie_words_after[OF d] by (simp add: o_def)
  qed
  finally have hit: "concat (map (\<lambda>r. rx_matches r (x # s)) (map snd (branches ch))) =
      map (\<lambda>n. drop n (x # s)) (map Suc (word_lengths {w. x # w \<in> trie_words t} s))" .
  have e: "[] \<in> trie_words t \<longleftrightarrow> e" unfolding t by auto
  show ?case
  proof (cases "ch = []")
    case True
    then have "{w. x # w \<in> trie_words t} = {}" and e using Cons.prems t by auto
    then show ?thesis using True
      unfolding t trie_pattern_matches[OF d] word_lengths_Cons by (simp add: word_lengths_def)
  next
    case False
    then have "rx_matches (trie_pattern t) (x # s) =
        concat (map (\<lambda>r. rx_matches r (x # s)) (map snd (branches ch))) @ (if e then [x # s] else [])"
      unfolding t trie_pattern_matches[OF d] by simp
    then show ?thesis unfolding hit word_lengths_Cons e by simp
  qed
qed

section \<open>The flat alternation\<close>

lemma word_rx_matches: "rx_matches (word_rx w) s = (if prefix w s then [drop (length w) s] else [])"
  by (induction w arbitrary: s) (auto split: list.split)

text \<open>The match of the longest word the text starts with.\<close>

definition longest_match :: "pystr set \<Rightarrow> pystr \<Rightarrow> pystr option \<Rightarrow> bool" where
  "longest_match W s r \<longleftrightarrow>
     (case r of
        None \<Rightarrow> \<forall>w \<in> W. \<not> prefix w s
      | Some rest \<Rightarrow> \<exists>w \<in> W. s = w @ rest \<and> (\<forall>v \<in> W. prefix v s \<longrightarrow> length v \<le> length w))"

lemma longest_match_unique: "longest_match W s r \<Longrightarrow> longest_match W s r' \<Longrightarrow> r = r'"
  by (auto simp: longest_match_def split: option.splits) (metis append_eq_append_conv le_antisym prefixI)

lemma longest_first:
  assumes "rx_matches r s = map (\<lambda>w. drop (length w) s) vs" and "set vs = {w \<in> W. prefix w s}"
    and "sorted_wrt (\<lambda>a b. length b \<le> length a) vs"
  shows "longest_match W s (rx_match r s)"
proof (cases vs)
  case Nil
  then show ?thesis using assms(1,2) by (auto simp: longest_match_def rx_match_def)
next
  case (Cons v vs')
  then have "v \<in> W" "prefix v s" "rx_match r s = Some (drop (length v) s)"
    using assms(1,2) by (auto simp: rx_match_def)
  moreover have "length u \<le> length v" if "u \<in> W" "prefix u s" for u
    using that assms(2,3) Cons by fastforce
  ultimately show ?thesis by (auto simp: longest_match_def prefix_def)
qed

lemma trie_longest:
  assumes "wf_trie t"
  shows "longest_match (trie_words t) s (rx_match (trie_pattern t) s)"
proof (rule longest_first)
  let ?vs = "map (\<lambda>n. take n s) (word_lengths (trie_words t) s)"
  have len: "n \<le> length s" if "n \<in> set (word_lengths (trie_words t) s)" for n
    using that by (auto simp: word_lengths_def simp del: upt_Suc)
  show "rx_matches (trie_pattern t) s = map (\<lambda>w. drop (length w) s) ?vs"
    using len by (simp add: trie_matches[OF assms])
  have "w \<in> set ?vs" if "w \<in> trie_words t" "prefix w s" for w
    using that by (auto simp: word_lengths_def prefix_def intro!: image_eqI[of _ _ "length w"] simp del: upt_Suc)
  moreover have "set ?vs \<subseteq> {w \<in> trie_words t. prefix w s}"
    by (auto simp: word_lengths_def take_is_prefix)
  ultimately show "set ?vs = {w \<in> trie_words t. prefix w s}" by blast
  have "sorted_wrt (\<lambda>a b. b \<le> a) (word_lengths (trie_words t) s)"
    by (simp add: word_lengths_def sorted_wrt_rev sorted_wrt_filter del: upt_Suc)
  then show "sorted_wrt (\<lambda>a b. length b \<le> length a) ?vs"
    by (rule sorted_wrt_map[THEN iffD2, OF sorted_wrt_mono_rel, rotated]) (use len in auto)
qed

lemma flat_matches:
  "rx_matches (flat_pattern ws) s = map (\<lambda>w. drop (length w) s) (filter (\<lambda>w. prefix w s) (by_length ws))"
proof -
  have "concat (map (\<lambda>r. rx_matches r s) (map word_rx us)) = map (\<lambda>w. drop (length w) s) (filter (\<lambda>w. prefix w s) us)"
    for us by (induction us) (auto simp: word_rx_matches)
  then show ?thesis by (simp add: flat_pattern_def)
qed

lemma by_length_decreasing: "sorted_wrt (\<lambda>a b. length b \<le> length a) (by_length ws)"
proof -
  have "sorted (map (\<lambda>v. (- int (length v), v)) (by_length ws))" by (simp add: by_length_def)
  then have "sorted_wrt (\<lambda>a b. (- int (length a), a) \<le> (- int (length b), b)) (by_length ws)"
    by (simp add: sorted_wrt_map)
  then show ?thesis by (rule sorted_wrt_mono_rel[rotated]) (auto simp: less_eq_prod_def)
qed

lemma set_by_length [simp]: "set (by_length ws) = set ws"
  by (simp add: by_length_def)

lemma flat_longest: "longest_match (set ws) s (rx_match (flat_pattern ws) s)"
  by (rule longest_first[OF flat_matches]) (auto simp: by_length_decreasing sorted_wrt_filter)

lemma compiled_longest:
  assumes "compiled too_deep ws = Some r"
  shows "longest_match (set ws) s (rx_match r s)"
proof -
  have "ws \<noteq> []" using assms by (auto simp: compiled_def)
  then have "longest_match (set ws) s (rx_match (trie_pattern (trie_of ws)) s)"
    using trie_longest[OF trie_of_wf, of ws s] by (simp add: trie_of_words)
  then show ?thesis using assms flat_longest[of ws s] by (auto simp: compiled_def split: if_splits)
qed

text \<open>C19. The prefix tree of a set of secrets and the flat alternation it falls back on, longest
  first, give the same text: whether the tree nests too deep for the compiler does not
  show in an answer, and in both the longest secret that starts at a place is the one
  masked there.\<close>

theorem tree_masks_as_the_flat_list:
  assumes "ws \<noteq> []"
  shows "sub_with (mask_match (trie_pattern (trie_of ws))) s = sub_with (mask_match (flat_pattern ws)) s \<and>
    longest_match (set ws) s (rx_match (trie_pattern (trie_of ws)) s)"
proof -
  have l: "longest_match (set ws) t (rx_match (trie_pattern (trie_of ws)) t)" for t
    using trie_longest[OF trie_of_wf[OF assms], of t] by (simp add: trie_of_words)
  then have "rx_match (trie_pattern (trie_of ws)) = rx_match (flat_pattern ws)"
    using flat_longest longest_match_unique by blast
  then have "mask_match (trie_pattern (trie_of ws)) = mask_match (flat_pattern ws)"
    by (simp add: mask_match_def fun_eq_iff)
  with l show ?thesis by simp
qed

theorem tree_masks_as_the_flat_list_witness:
  "let ws = [lit ''hunter2-secret'', lit ''hunter2-'', lit ''password1''];
       s = lit ''x hunter2-secrets''
   in sub_with (mask_match (flat_pattern ws)) s = lit ''x [secreto]s'' \<and>
      sub_with (mask_match (trie_pattern (trie_of ws))) s = lit ''x [secreto]s''"
proof -
  have "sub_with (mask_match (flat_pattern [lit ''hunter2-secret'', lit ''hunter2-'', lit ''password1'']))
      (lit ''x hunter2-secrets'') = lit ''x [secreto]s''"
    by code_simp
  then show ?thesis
    using tree_masks_as_the_flat_list[of "[lit ''hunter2-secret'', lit ''hunter2-'', lit ''password1'']"
      "lit ''x hunter2-secrets''"] by simp
qed

section \<open>What masking leaves\<close>

text \<open>A text that may not straddle a mask: long enough not to be within one, and without
  the brackets a mask starts and ends with.\<close>

definition whole :: "pystr \<Rightarrow> bool" where
  "whole v \<longleftrightarrow> MIN_SECRET_LEN \<le> length v \<and> 91 \<notin> set v \<and> 93 \<notin> set v"

lemma MASK_eq: "MASK = 91 # lit ''secreto'' @ [93]"
  by (simp add: MASK_def lit_def)

lemma MASK_ends: "suffix (xs @ [c]) MASK \<Longrightarrow> c = 93"
proof -
  assume "suffix (xs @ [c]) MASK"
  then have "suffix (xs @ [c]) ((91 # lit ''secreto'') @ [93])" by (simp add: MASK_eq)
  then show "c = 93" by (simp only: snoc_suffix_snoc)
qed

lemma whole_not_in_mask: "whole v \<Longrightarrow> \<not> sublist v MASK"
proof
  assume w: "whole v" and "sublist v MASK"
  then obtain p q where m: "p @ v @ q = MASK" unfolding sublist_def by metis
  have "length p + length v + length q = 9" using arg_cong[OF m, of length] by (simp add: MASK_def lit_def)
  moreover have "p \<noteq> []" using w m by (cases v) (auto simp: whole_def MASK_eq MIN_SECRET_LEN_def)
  moreover have "q \<noteq> []"
  proof
    assume "q = []"
    then have "suffix v MASK" using m by (auto simp: suffix_def simp flip: m)
    then show False using w MASK_ends by (cases v rule: rev_cases) (auto simp: whole_def MIN_SECRET_LEN_def)
  qed
  ultimately show False using w by (cases p; cases q) (auto simp: whole_def MIN_SECRET_LEN_def)
qed

lemma after_mask:
  assumes "whole v" and "sublist v (MASK @ t)"
  shows "sublist v t"
proof -
  from assms whole_not_in_mask consider "sublist v t"
    | xs ys where "v = xs @ ys" "suffix xs MASK" "prefix ys t"
    by (auto simp: sublist_append)
  then show ?thesis
  proof cases
    case 2
    then have "xs = []" using assms(1) MASK_ends by (cases xs rule: rev_cases) (auto simp: whole_def)
    with 2 show ?thesis by (simp add: prefix_imp_sublist)
  qed
qed

lemma before_mask:
  assumes "91 \<notin> set v" and "prefix v (xs @ MASK @ t)"
  shows "prefix v xs"
  using assms by (auto simp: prefix_append MASK_eq prefix_Cons)

lemma around_mask:
  assumes "whole v" and "sublist v (xs @ MASK @ t)"
  shows "sublist v xs \<or> sublist v t"
proof -
  from assms(2) consider "sublist v xs" | "sublist v (MASK @ t)"
    | us ys where "v = us @ ys" "suffix us xs" "prefix ys (MASK @ t)"
    by (auto simp: sublist_append[of v xs])
  then show ?thesis
  proof cases
    case 3
    then have "ys = []" using before_mask[of ys "[]" t] assms(1) by (simp add: whole_def)
    with 3 show ?thesis by (simp add: suffix_imp_sublist)
  qed (use after_mask[OF assms(1)] in auto)
qed

text \<open>What \<^const>\<open>sub_with\<close> needs of a match: a mask in the place of at least one character.\<close>

definition masks :: "(pystr \<Rightarrow> (pystr \<times> pystr) option) \<Rightarrow> bool" where
  "masks m \<longleftrightarrow> (\<forall>s new rest. m s = Some (new, rest) \<longrightarrow> new = MASK \<and> strict_suffix rest s)"

lemma masksD:
  assumes "masks m" and "m (c # s) = Some (new, rest)"
  shows "new = MASK" "length rest \<le> length s" "suffix rest s"
proof -
  have "new = MASK \<and> strict_suffix rest (c # s)" using assms by (simp add: masks_def)
  then show "new = MASK" "length rest \<le> length s" "suffix rest s"
    by (auto simp: strict_suffix_def suffix_Cons dest: suffix_length_le)
qed

lemma sub_with_prefix:
  assumes "masks m" and "91 \<notin> set v" and "prefix v (sub_with m s)"
  shows "prefix v s"
  using assms
proof (induction m s arbitrary: v rule: sub_with.induct)
  case (2 m c s)
  show ?case
  proof (cases "m (c # s)")
    case None
    then show ?thesis using 2(1)[OF None, of "tl v"] 2(4-) by (cases v) auto
  next
    case (Some nr)
    then have "prefix v (MASK @ sub_with m (snd nr))"
      using 2(4-) masksD[OF 2(4), of c s "fst nr" "snd nr"] by (cases nr) auto
    then show ?thesis using before_mask[of v "[]" "sub_with m (snd nr)"] 2(5) by simp
  qed
qed simp

lemma sub_with_masks:
  assumes "masks m" and "whole v" and "\<And>t. suffix t s \<Longrightarrow> prefix v t \<Longrightarrow> m t \<noteq> None"
  shows "\<not> sublist v (sub_with m s)"
  using assms
proof (induction m s rule: sub_with.induct)
  case (1 m)
  then show ?case by (auto simp: whole_def MIN_SECRET_LEN_def)
next
  case (2 m c s)
  have tl: "\<And>t. suffix t s \<Longrightarrow> prefix v t \<Longrightarrow> m t \<noteq> None" using 2(6) by (simp add: suffix_ConsI)
  show ?case
  proof (cases "m (c # s)")
    case None
    have "\<not> prefix v (c # sub_with m s)"
      using sub_with_prefix[of m v "c # s"] 2(4,5) 2(6)[of "c # s"] None by (auto simp: whole_def)
    then show ?thesis using 2(1)[OF None 2(4,5) tl] None by (auto simp: sublist_Cons_right)
  next
    case (Some nr)
    obtain new rest where nr: "nr = (new, rest)" by fastforce
    note m = masksD[OF 2(4) Some[unfolded nr]]
    have "\<not> sublist v (sub_with m rest)"
      using 2(2)[OF Some nr[symmetric] m(2) 2(4,5)] tl m(3) by (meson suffix_order.trans)
    then show ?thesis using after_mask[OF 2(5)] Some nr m by auto
  qed
qed

lemma replace_match_masks: "masks (replace_match v)"
  by (auto simp: masks_def replace_match_def prefix_def strict_suffix_def suffix_def split: if_splits)

lemma compiled_masks:
  assumes "compiled too_deep ws = Some r" and "[] \<notin> set ws"
  shows "masks (mask_match r)"
proof -
  have "strict_suffix rest s" if "rx_match r s = Some rest" for s rest
    using compiled_longest[OF assms(1), of s] that assms(2)
    by (auto simp: longest_match_def strict_suffix_def suffix_def)
  then show ?thesis by (auto simp: masks_def mask_match_def)
qed

lemma compiled_finds:
  assumes "compiled too_deep ws = Some r" and "v \<in> set ws" and "prefix v s"
  shows "mask_match r s \<noteq> None"
  using compiled_longest[OF assms(1), of s] assms(2,3)
  by (auto simp: longest_match_def mask_match_def split: option.splits)

text \<open>A credential is replaced between characters that stay.\<close>

lemma url_credentialD:
  assumes "url_credential alnum before s = Some (new, rest)"
  shows "\<exists>scheme info. s = scheme @ info @ 64 # rest \<and> new = scheme @ MASK @ [64] \<and> 58 \<in> set scheme"
proof -
  define sc where "sc = takeWhile scheme_char s"
  define after where "after = drop (length sc) s"
  define info where "info = takeWhile userinfo_char (drop 3 after)"
  have c: "take 3 after = lit ''://''" "drop (3 + length info) after = 64 # rest" "new = (sc @ lit ''://'') @ MASK @ [64]"
    using assms unfolding url_credential_def Let_def
    by (auto simp flip: sc_def after_def info_def split: if_splits) (metis drop_eq_Nil list.collapse)
  have "drop 3 after = info @ drop (length info) (drop 3 after)"
    by (metis info_def takeWhile_eq_take append_take_drop_id)
  then have "after = lit ''://'' @ info @ 64 # rest"
    using c(1,2) append_take_drop_id[of 3 after] by (simp add: add.commute)
  moreover have "s = sc @ after"
    by (metis sc_def after_def takeWhile_eq_take append_take_drop_id)
  ultimately show ?thesis using c(3)
    by (intro exI[of _ "sc @ lit ''://''"] exI[of _ info]) (simp, simp add: lit_def)
qed

lemma mask_credentials_prefix:
  assumes "91 \<notin> set v" and "prefix v (mask_credentials alnum before s)"
  shows "prefix v s"
  using assms
proof (induction alnum before s arbitrary: v rule: mask_credentials.induct)
  case (2 alnum before c s)
  show ?case
  proof (cases "url_credential alnum before (c # s)")
    case None
    then show ?thesis using 2(1)[OF None, of "tl v"] 2(4-) by (cases v) auto
  next
    case (Some nr)
    then obtain scheme info where nr: "c # s = scheme @ info @ 64 # snd nr" "fst nr = scheme @ MASK @ [64]"
      using url_credentialD[of alnum before "c # s" "fst nr" "snd nr"] by force
    have "length (snd nr) \<le> length s" using arg_cong[OF nr(1), of length] by simp
    then have "prefix v (scheme @ MASK @ 64 # mask_credentials alnum (Some 64) (snd nr))"
      using 2(5) Some nr(2) by (cases nr) simp
    from before_mask[OF 2(4) this] show ?thesis by (simp add: nr(1))
  qed
qed simp

lemma mask_credentials_keeps:
  assumes "whole v" and "sublist v (mask_credentials alnum before s)"
  shows "sublist v s"
  using assms
proof (induction alnum before s rule: mask_credentials.induct)
  case (2 alnum before c s)
  show ?case
  proof (cases "url_credential alnum before (c # s)")
    case None
    then show ?thesis
      using 2(1)[OF None 2(4)] 2(5) mask_credentials_prefix[of v alnum before "c # s"] 2(4)
      by (auto simp: sublist_Cons_right whole_def)
  next
    case (Some nr)
    then obtain scheme info where nr: "c # s = scheme @ info @ 64 # snd nr" "fst nr = scheme @ MASK @ [64]"
      using url_credentialD[of alnum before "c # s" "fst nr" "snd nr"] by force
    have le: "length (snd nr) \<le> length s" using arg_cong[OF nr(1), of length] by simp
    let ?out = "mask_credentials alnum (Some 64) (snd nr)"
    have "sublist v (scheme @ MASK @ 64 # ?out)"
      using 2(5) Some nr(2) le by (cases nr) simp
    from around_mask[OF 2(4) this] consider "sublist v scheme" | "prefix v (64 # ?out)" | "sublist v ?out"
      by (auto simp: sublist_Cons_right)
    then have "sublist v scheme \<or> sublist v (64 # snd nr)"
    proof cases
      case 2
      then have "prefix v (64 # snd nr)"
        using mask_credentials_prefix[of "tl v" alnum "Some 64" "snd nr"] \<open>whole v\<close>
        by (cases v) (auto simp: whole_def)
      then show ?thesis by (simp add: prefix_imp_sublist)
    next
      case 3
      then show ?thesis using "2.IH"(2)[OF Some prod.collapse le \<open>whole v\<close>] by (simp add: sublist_Cons_right)
    qed simp
    then show ?thesis unfolding nr(1) by (auto simp: sublist_appendI sublist_append)
  qed
qed simp

section \<open>No secret in an answer\<close>

lemma absent_stays_absent:
  assumes "masks m" and "whole v" and "\<not> sublist v s"
  shows "\<not> sublist v (sub_with m s)"
proof (rule sub_with_masks[OF assms(1,2)])
  fix t assume "suffix t s" "prefix v t"
  then have "sublist v s"
    by (meson prefix_imp_sublist suffix_imp_sublist sublist_order.order.trans)
  with assms(3) show "m t \<noteq> None" by simp
qed

lemma replaced_is_absent:
  assumes "whole v"
  shows "\<not> sublist v (sub_with (replace_match v) s)"
  using assms by (intro sub_with_masks[OF replace_match_masks])
    (auto simp: replace_match_def whole_def MIN_SECRET_LEN_def)

lemma all_replaced:
  assumes "whole v" and "v \<in> set vs \<or> \<not> sublist v s"
  shows "\<not> sublist v (fold (\<lambda>u s. sub_with (replace_match u) s) vs s)"
  using assms
proof (induction vs arbitrary: s)
  case (Cons u vs)
  have "v \<in> set vs \<or> \<not> sublist v (sub_with (replace_match u) s)"
    using Cons.prems replaced_is_absent absent_stays_absent[OF replace_match_masks] by auto
  then show ?case using Cons.IH Cons.prems(1) by simp
qed simp

lemma scrub_text_clean:
  assumes "whole v" and "v \<in> set (sc_long sc) \<or> (\<exists>ws. sc_pattern sc = compiled too_deep ws \<and> v \<in> set ws \<and> [] \<notin> set ws)"
    and "\<And>r. sc_pattern sc = Some r \<Longrightarrow> masks (mask_match r)"
  shows "\<not> sublist v (scrub_text alnum sc s)"
proof -
  let ?s1 = "fold (\<lambda>v s. sub_with (replace_match v) s) (sc_long sc) s"
  have "\<not> sublist v (case sc_pattern sc of None \<Rightarrow> ?s1 | Some r \<Rightarrow> sub_with (mask_match r) ?s1)"
  proof (cases "v \<in> set (sc_long sc)")
    case True
    then show ?thesis
      using all_replaced[OF assms(1)] absent_stays_absent[OF assms(3,1)] by (auto split: option.split)
  next
    case False
    then obtain ws where c: "sc_pattern sc = compiled too_deep ws" "v \<in> set ws" "[] \<notin> set ws"
      using assms(2) by auto
    then obtain r where r: "compiled too_deep ws = Some r" by (cases ws) (auto simp: compiled_def)
    have "\<not> sublist v (sub_with (mask_match r) ?s1)"
      by (rule sub_with_masks[OF compiled_masks[OF r c(3)] assms(1)]) (rule compiled_finds[OF r c(2)])
    then show ?thesis using c(1) r by simp
  qed
  then show ?thesis
    using mask_credentials_keeps[OF assms(1)] by (auto simp: scrub_text_def Let_def)
qed

lemma quote_clean: "91 \<notin> set (quote_byte b)" "93 \<notin> set (quote_byte b)" "1 \<le> length (quote_byte b)"
proof -
  have "b mod 16 < 16" "b div 16 mod 16 < 16" by simp_all
  then have "upper_hex (b mod 16) < 71" "upper_hex (b div 16 mod 16) < 71" by (auto simp: upper_hex_def)
  then show "91 \<notin> set (quote_byte b)" "93 \<notin> set (quote_byte b)" "1 \<le> length (quote_byte b)"
    by (auto simp: quote_byte_def unreserved_def)
qed

lemma b64_char_clean [simp]: "b64_char n \<noteq> 91" "b64_char n \<noteq> 93"
  by (auto simp: b64_char_def)

lemma b64_clean: "91 \<notin> set (b64 bs) \<and> 93 \<notin> set (b64 bs) \<and> length bs \<le> length (b64 bs)"
  by (induction bs rule: b64.induct) (auto simp: eq_commute[of _ "b64_char _"])

lemma encode_length: "encode v = Some bytes \<Longrightarrow> length v \<le> length bytes"
proof -
  assume "encode v = Some bytes"
  then have "bytes = concat (map utf8_char v)" by (simp add: encode_def split: if_splits)
  moreover have "length us \<le> length (concat (map utf8_char us))" for us
    by (induction us) (auto simp: utf8_char_def)
  ultimately show ?thesis by simp
qed

lemma variants_whole:
  assumes "encode v = Some bytes" and "MIN_SECRET_LEN \<le> length v"
  shows "whole (concat (map quote_byte bytes))" and "whole (b64 bytes)"
proof -
  have "length us \<le> length (concat (map quote_byte us))" for us
  proof (induction us)
    case (Cons b us)
    then show ?case using quote_clean(3)[of b] by simp
  qed simp
  then show "whole (concat (map quote_byte bytes))" "whole (b64 bytes)"
    using encode_length[OF assms(1)] assms(2) quote_clean b64_clean[of bytes] order_trans
    by (auto simp: whole_def) fastforce+
qed

lemma all_variantsD:
  assumes "all_variants vs = Some xs"
  shows "v \<in> set vs \<Longrightarrow> \<exists>ys. secret_variants v = Some ys \<and> set ys \<subseteq> set xs"
    and "w \<in> set xs \<Longrightarrow> MIN_SECRET_LEN \<le> length w"
proof -
  show "v \<in> set vs \<Longrightarrow> \<exists>ys. secret_variants v = Some ys \<and> set ys \<subseteq> set xs"
    using assms by (induction vs arbitrary: xs) (fastforce split: option.splits)+
  have "MIN_SECRET_LEN \<le> length w" if "secret_variants u = Some ys" "w \<in> set ys" for u ys w
    using that variants_whole[of u] by (auto simp: secret_variants_def whole_def split: if_splits)
  then show "w \<in> set xs \<Longrightarrow> MIN_SECRET_LEN \<le> length w"
    using assms by (induction vs arbitrary: xs) (fastforce split: option.splits)+
qed

lemma scrubber_ofD:
  assumes "scrubber_of too_deep values = Some sc"
  obtains long short where "sc = \<lparr>sc_long = by_length long, sc_pattern = compiled too_deep short\<rparr>"
    "[] \<notin> set short" "\<And>v. v \<in> set values \<Longrightarrow> \<exists>ys. secret_variants v = Some ys \<and> set ys \<subseteq> set long \<union> set short"
proof -
  obtain long short where l: "all_variants (filter (\<lambda>v. LONG_SECRET_CHARS < length v) values) = Some long"
    and sh: "all_variants (filter (\<lambda>v. length v \<le> LONG_SECRET_CHARS) values) = Some short"
    and sc: "sc = \<lparr>sc_long = by_length long, sc_pattern = compiled too_deep short\<rparr>"
    using assms by (auto simp: scrubber_of_def split: option.splits)
  have "[] \<notin> set short" using all_variantsD(2)[OF sh, of "[]"] by (auto simp: MIN_SECRET_LEN_def)
  moreover have "\<exists>ys. secret_variants v = Some ys \<and> set ys \<subseteq> set long \<union> set short" if "v \<in> set values" for v
    using all_variantsD(1)[OF l, of v] all_variantsD(1)[OF sh, of v] that
    by (cases "LONG_SECRET_CHARS < length v") fastforce+
  ultimately show ?thesis using that sc by blast
qed

lemma scrubber_masks:
  assumes "scrubber_of too_deep values = Some sc" and "v \<in> set values"
    and "secret_variants v = Some ys" and "w \<in> set ys" and "whole w"
  shows "\<not> sublist w (scrub_text alnum sc s)"
proof (rule scrubber_ofD[OF assms(1)])
  fix long short
  assume sc: "sc = \<lparr>sc_long = by_length long, sc_pattern = compiled too_deep short\<rparr>"
    and ne: "[] \<notin> set short"
    and vs: "\<And>v. v \<in> set values \<Longrightarrow> \<exists>ys. secret_variants v = Some ys \<and> set ys \<subseteq> set long \<union> set short"
  have "w \<in> set long \<or> w \<in> set short" using vs[OF assms(2)] assms(3,4) by auto
  then show ?thesis using ne sc compiled_masks
    by (intro scrub_text_clean[OF assms(5), of sc too_deep]) auto
qed

text \<open>Every text of a value, the keys among them.\<close>

fun json_texts :: "json \<Rightarrow> pystr set" where
  "json_texts (JStr s) = {s}"
| "json_texts (JObj d) = (\<Union>(k, v) \<in> set d. insert k (json_texts v))"
| "json_texts (JList xs) = (\<Union>x \<in> set xs. json_texts x)"
| "json_texts v = {}"

lemma scrub_value_texts:
  "t \<in> json_texts (scrub_value alnum sc j) \<Longrightarrow> \<exists>s. t = scrub_text alnum sc s"
proof (induction j)
  case (JObj d)
  then obtain k v where kv: "(k, v) \<in> set (assign_all (map (\<lambda>(k, v). (scrub_text alnum sc k, scrub_value alnum sc v)) d))"
    and t: "t = k \<or> t \<in> json_texts v"
    by auto
  from assign_all_values[OF kv] obtain k' v' where "(k', v') \<in> set d" "k = scrub_text alnum sc k'" "v = scrub_value alnum sc v'"
    by auto
  with t JObj.IH[of "(k', v')" v'] show ?case by auto
qed auto

text \<open>C6. No answer shows a known secret. In whatever a scrubber built from the secrets of
  the database returns, in every text and every key, no secret of eight characters or
  more is left quoted for a URL or in base 64, nor as it is if it has no square bracket:
  whether it was short enough for the tree or was replaced as it is, however secrets
  overlap, and whatever masking the credentials of URLs puts together.\<close>

theorem no_known_secret_in_an_answer:
  assumes "scrubber_of too_deep values = Some sc" and "v \<in> set values" and "MIN_SECRET_LEN \<le> length v"
    and "t \<in> json_texts (scrub_value alnum sc j)"
  shows "\<exists>bytes. encode v = Some bytes \<and> \<not> sublist (concat (map quote_byte bytes)) t \<and>
    \<not> sublist (b64 bytes) t \<and> (91 \<notin> set v \<and> 93 \<notin> set v \<longrightarrow> \<not> sublist v t)"
proof -
  obtain s where t: "t = scrub_text alnum sc s" using scrub_value_texts[OF assms(4)] by blast
  obtain bytes where b: "encode v = Some bytes"
      "secret_variants v = Some [v, concat (map quote_byte bytes), b64 bytes]"
  proof -
    have "\<exists>ys. secret_variants v = Some ys" using scrubber_ofD[OF assms(1)] assms(2) by metis
    with that assms(3) show ?thesis by (auto simp: secret_variants_def)
  qed
  note clean = scrubber_masks[OF assms(1,2) b(2), of _ alnum s, folded t]
  have "whole v" if "91 \<notin> set v \<and> 93 \<notin> set v" using that assms(3) by (simp add: whole_def)
  then show ?thesis using b(1) clean variants_whole[OF b(1) assms(3)] by auto
qed

text \<open>C20. When no scrubber is built: exactly when some value to mask has eight characters or
  more and a lone surrogate among them, which no encoding has. One such value, a piece of
  a JSON document where \<^verbatim>\<open>\ud800\<close> is spelled, fails every answer that has to be scrubbed.\<close>

theorem no_scrubber_iff_lone_surrogate:
  "scrubber_of too_deep values = None \<longleftrightarrow>
     (\<exists>v \<in> set values. MIN_SECRET_LEN \<le> length v \<and> (\<exists>c \<in> set v. 0xD800 \<le> c \<and> c \<le> 0xDFFF))"
proof -
  have one: "secret_variants v = None \<longleftrightarrow> MIN_SECRET_LEN \<le> length v \<and> (\<exists>c \<in> set v. 0xD800 \<le> c \<and> c \<le> 0xDFFF)" for v
    by (auto simp: secret_variants_def encode_def list_ex_iff surrogate_def)
  have all: "all_variants vs = None \<longleftrightarrow> (\<exists>v \<in> set vs. secret_variants v = None)" for vs
    by (induction vs) (auto split: option.splits)
  have "scrubber_of too_deep values = None \<longleftrightarrow>
      all_variants (filter (\<lambda>v. LONG_SECRET_CHARS < length v) values) = None \<or>
      all_variants (filter (\<lambda>v. \<not> LONG_SECRET_CHARS < length v) values) = None"
    by (simp add: scrubber_of_def not_less split: option.split)
  then have "scrubber_of too_deep values = None \<longleftrightarrow> (\<exists>v \<in> set values. secret_variants v = None)"
    unfolding all set_filter by blast
  then show ?thesis by (simp add: one)
qed

lemma encode_ascii: "list_all (\<lambda>c. c < 128) s \<Longrightarrow> encode s = Some s"
proof -
  assume a: "list_all (\<lambda>c. c < 128) s"
  then have "\<not> list_ex surrogate s" by (auto simp: list_all_iff list_ex_iff surrogate_def)
  moreover from a have "concat (map utf8_char s) = s" by (induction s) (auto simp: utf8_char_def)
  ultimately show ?thesis by (simp add: encode_def)
qed

lemma no_url_no_credential: "58 \<notin> set s \<Longrightarrow> mask_credentials alnum before s = s"
proof (induction alnum before s rule: mask_credentials.induct)
  case (2 alnum before c s)
  have "url_credential alnum before (c # s) \<noteq> Some (new, rest)" for new rest
  proof
    assume "url_credential alnum before (c # s) = Some (new, rest)"
    from url_credentialD[OF this] have "58 \<in> set (c # s)" by (metis Un_iff set_append)
    with 2(4) show False by simp
  qed
  then have "url_credential alnum before (c # s) = None" by (metis not_Some_eq surj_pair)
  then show ?case using 2 by simp
qed simp

lemma scrubber_of_one:
  assumes "length v \<le> LONG_SECRET_CHARS"
  shows "scrubber_of too_deep [v] =
    map_option (\<lambda>ws. \<lparr>sc_long = [], sc_pattern = compiled too_deep ws\<rparr>) (all_variants [v])"
  using assms by (auto simp: scrubber_of_def by_length_def split: option.split)

theorem no_known_secret_in_an_answer_witness:
  "\<exists>sc. scrubber_of (\<lambda>ws. False) [lit ''hunter2-secret''] = Some sc \<and>
     scrub_value (\<lambda>c. True) sc (JObj [(lit ''log'', JStr (lit ''hunter2-secret is it''))]) =
       JObj [(lit ''log'', JStr (lit ''[secreto] is it''))] \<and>
     \<not> sublist (lit ''hunter2-secret'') (lit ''[secreto] is it'') \<and>
     \<not> sublist (b64 (lit ''hunter2-secret'')) (lit ''[secreto] is it'')"
proof -
  let ?v = "lit ''hunter2-secret''"
  have e: "encode ?v = Some ?v" by (rule encode_ascii) code_simp
  define ws where "ws = remdups [?v, concat (map quote_byte ?v), b64 ?v]"
  define sc where "sc = \<lparr>sc_long = [], sc_pattern = compiled (\<lambda>ws. False) ws\<rparr>"
  have sc: "scrubber_of (\<lambda>ws. False) [?v] = Some sc"
    by (subst scrubber_of_one) (simp_all add: sc_def ws_def secret_variants_def e, simp_all add: lit_def
      LONG_SECRET_CHARS_def MIN_SECRET_LEN_def)
  let ?m = "mask_match (the (compiled (\<lambda>ws. False) ws))"
  have "compiled (\<lambda>ws. False) ws = Some (the (compiled (\<lambda>ws. False) ws))"
    by (simp add: compiled_def ws_def)
  then have "scrub_text (\<lambda>c. True) sc s = mask_credentials (\<lambda>c. True) None (sub_with ?m s)" for s
    unfolding scrub_text_def sc_def by (metis (no_types, lifting) fold_simps(1) option.simps(5) scrubber.select_convs)
  moreover have "sub_with ?m (lit ''log'') = lit ''log''" "sub_with ?m (lit ''hunter2-secret is it'') = lit ''[secreto] is it''"
    unfolding ws_def by code_simp+
  moreover have "58 \<notin> set (lit ''log'')" "58 \<notin> set (lit ''[secreto] is it'')" by code_simp+
  ultimately have out: "scrub_value (\<lambda>c. True) sc (JObj [(lit ''log'', JStr (lit ''hunter2-secret is it''))]) =
       JObj [(lit ''log'', JStr (lit ''[secreto] is it''))]"
    by (simp add: no_url_no_credential assign_all_def)
  have "\<exists>bytes. encode ?v = Some bytes \<and> \<not> sublist (concat (map quote_byte bytes)) (lit ''[secreto] is it'') \<and>
    \<not> sublist (b64 bytes) (lit ''[secreto] is it'') \<and>
    (91 \<notin> set ?v \<and> 93 \<notin> set ?v \<longrightarrow> \<not> sublist ?v (lit ''[secreto] is it''))"
    by (rule no_known_secret_in_an_answer[OF sc, where alnum = "\<lambda>c. True" and
      j = "JObj [(lit ''log'', JStr (lit ''hunter2-secret is it''))]"])
      (simp_all only: out, simp_all add: lit_def MIN_SECRET_LEN_def)
  moreover have "91 \<notin> set ?v \<and> 93 \<notin> set ?v" by code_simp
  ultimately show ?thesis using sc out e by auto
qed

end
