(* ===== verification/Redact_Parts.thy ===== *)
theory Redact_Parts
  imports Mcp_Redact
begin

text \<open>
  The pieces of a stored document and the names of secret keys: the search for pieces
  ends and is complete up to its limit, and what one walker leaves the other accepts.
\<close>

section \<open>The search for pieces\<close>

lemma add_pieces_simps [simp]:
  "add_pieces [] parts = parts"
  "add_pieces (p # ps) parts = add_pieces ps (if MAX_PARTS < length parts then parts else List.insert p parts)"
  by (simp_all add: add_pieces_def)

lemma add_pieces_grows:
  assumes "distinct parts" and "length parts \<le> Suc MAX_PARTS"
  shows "distinct (add_pieces found parts) \<and> length (add_pieces found parts) \<le> Suc MAX_PARTS \<and>
    set parts \<subseteq> set (add_pieces found parts)"
  using assms
proof (induction found arbitrary: parts)
  case (Cons p found)
  let ?next = "if MAX_PARTS < length parts then parts else List.insert p parts"
  have n: "distinct ?next" "length ?next \<le> Suc MAX_PARTS" "set parts \<subseteq> set ?next"
    using Cons.prems by (auto simp: List.insert_def)
  have "distinct (add_pieces found ?next) \<and> length (add_pieces found ?next) \<le> Suc MAX_PARTS \<and>
      set ?next \<subseteq> set (add_pieces found ?next)"
    by (rule Cons.IH[OF n(1,2)])
  then show ?case using n(3) unfolding add_pieces_simps by blast
qed simp

lemma add_pieces_all: "length (add_pieces found parts) \<le> MAX_PARTS \<Longrightarrow> set (add_pieces found parts) = set parts \<union> set found"
proof (induction found arbitrary: parts)
  case (Cons p found)
  have stop: "add_pieces ps parts = parts" if "MAX_PARTS < length parts" for ps parts
    using that by (induction ps) auto
  then have "\<not> MAX_PARTS < length parts" using Cons.prems by fastforce
  then show ?case using Cons by auto
qed simp

lemma add_pieces_new:
  assumes "distinct parts" and "length parts \<le> MAX_PARTS" and "p \<in> set found" and "p \<notin> set parts"
  shows "length parts < length (add_pieces found parts)"
proof (cases "length (add_pieces found parts) \<le> MAX_PARTS")
  case True
  have d: "distinct (add_pieces found parts)" using add_pieces_grows[OF assms(1)] assms(2) by simp
  have "set parts \<subset> set (add_pieces found parts)" using add_pieces_all[OF True] assms(3,4) by auto
  from psubset_card_mono[OF _ this] show ?thesis
    using distinct_card[OF d] distinct_card[OF assms(1)] by simp
qed (use assms(2) in simp)

text \<open>A line of a PEM block hides nothing more.\<close>

lemma pem_line_plain:
  assumes "p \<in> set (pem_lines s)"
  shows "pieces_of loads p = []"
proof -
  have pem: "\<And>c. c \<in> set p \<Longrightarrow> pem_char c" using assms by (auto simp: pem_lines_def list_all_iff)
  have "c \<in> set p" if "take 1 (lstrip p) = [c]" for c
  proof -
    from that have "c \<in> set (lstrip p)" by (cases "lstrip p") auto
    then show ?thesis by (auto simp: lstrip_def dest: set_dropWhileD)
  qed
  then have "take 1 (lstrip p) \<notin> {lit ''{'', lit ''[''}"
    using pem[of 123] pem[of 91] by (auto simp: lit_def pem_char_def)
  moreover have "\<not> sublist (lit ''-----BEGIN '') p"
  proof
    assume "sublist (lit ''-----BEGIN '') p"
    then have "45 \<in> set p" using set_mono_sublist by (fastforce simp: lit_def)
    with pem[of 45] show False by (simp add: pem_char_def)
  qed
  ultimately show ?thesis by (simp add: pieces_of_def leaves_of_def)
qed

definition pending_inv :: "(pystr \<Rightarrow> json option) \<Rightarrow> pystr list \<Rightarrow> pystr list \<Rightarrow> bool" where
  "pending_inv loads parts pending \<longleftrightarrow>
     distinct parts \<and> length parts \<le> Suc MAX_PARTS \<and>
     (length parts \<le> MAX_PARTS \<longrightarrow>
       (\<forall>p \<in> set parts. p \<in> set pending \<or> set (pieces_of loads p) \<subseteq> set parts))"

definition next_parts :: "(pystr \<Rightarrow> json option) \<Rightarrow> pystr list \<Rightarrow> pystr \<Rightarrow> pystr list" where
  "next_parts loads parts s = add_pieces (pieces_of loads s) parts"

definition next_pending :: "(pystr \<Rightarrow> json option) \<Rightarrow> pystr list \<Rightarrow> pystr \<Rightarrow> pystr list \<Rightarrow> pystr list" where
  "next_pending loads parts s rest = rev (filter (\<lambda>leaf. leaf \<notin> set parts) (leaves_of loads s)) @ rest"

lemma pending_inv_step:
  assumes inv: "pending_inv loads parts (s # rest)" and le: "length parts \<le> MAX_PARTS"
  shows "pending_inv loads (next_parts loads parts s) (next_pending loads parts s rest)"
proof -
  let ?parts = "next_parts loads parts s"
  have d: "distinct parts" "length parts \<le> Suc MAX_PARTS" using inv by (auto simp: pending_inv_def)
  have "p \<in> set (next_pending loads parts s rest) \<or> set (pieces_of loads p) \<subseteq> set ?parts"
    if short: "length ?parts \<le> MAX_PARTS" and p: "p \<in> set ?parts" for p
  proof -
    have all: "set ?parts = set parts \<union> set (pieces_of loads s)"
      using add_pieces_all short by (simp add: next_parts_def)
    consider "p \<in> set parts" | "p \<in> set (leaves_of loads s)" "p \<notin> set parts" | t where "p \<in> set (pem_lines t)"
      using p all by (auto simp: pieces_of_def split: if_splits)
    then show ?thesis
    proof cases
      case 1
      then show ?thesis using inv le all by (auto simp: pending_inv_def next_pending_def)
    next
      case 3
      then show ?thesis by (simp add: pem_line_plain)
    qed (auto simp: next_pending_def)
  qed
  then show ?thesis
    using add_pieces_grows[OF d] by (auto simp: pending_inv_def next_parts_def)
qed

lemma next_smaller:
  assumes "distinct parts" and "length parts \<le> MAX_PARTS"
  shows "length parts < length (next_parts loads parts s) \<or>
    length parts \<le> length (next_parts loads parts s) \<and> next_pending loads parts s rest = rest"
proof (cases "\<exists>leaf \<in> set (leaves_of loads s). leaf \<notin> set parts")
  case True
  then obtain leaf where "leaf \<in> set (pieces_of loads s)" "leaf \<notin> set parts" by (auto simp: pieces_of_def)
  from add_pieces_new[OF assms this] show ?thesis by (simp add: next_parts_def)
next
  case False
  then have "filter (\<lambda>leaf. leaf \<notin> set parts) (leaves_of loads s) = []" by (auto simp: filter_empty_conv)
  moreover have "length parts \<le> length (next_parts loads parts s)"
    using add_pieces_grows[OF assms(1), of "pieces_of loads s"] assms card_mono[OF finite_set, of "set parts"]
    by (simp add: next_parts_def flip: distinct_card)
  ultimately show ?thesis by (simp add: next_pending_def)
qed

lemma split_pending_step:
  "length parts \<le> MAX_PARTS \<Longrightarrow>
     split_pending loads parts (s # rest) =
       split_pending loads (next_parts loads parts s) (next_pending loads parts s rest)"
  by (subst split_pending.simps) (simp add: next_parts_def next_pending_def)

lemma split_pending_ends:
  assumes "pending_inv loads parts pending"
  shows "\<exists>ps. split_pending loads parts pending = Some ps \<and> pending_inv loads ps [] \<and> set parts \<subseteq> set ps"
  using assms
proof (induction "(Suc MAX_PARTS - length parts, length pending)" arbitrary: parts pending
    rule: wf_induct_rule[OF wf_lex_prod[OF wf_less_than wf_less_than]])
  case less: 1
  show ?case
  proof (cases "pending = [] \<or> MAX_PARTS < length parts")
    case True
    then have "split_pending loads parts pending = Some parts"
      by (subst split_pending.simps) (auto split: list.split)
    then show ?thesis using less(2) True by (auto simp: pending_inv_def)
  next
    case False
    then obtain s rest where p: "pending = s # rest" and le: "length parts \<le> MAX_PARTS"
      by (cases pending) auto
    have inv: "pending_inv loads (next_parts loads parts s) (next_pending loads parts s rest)"
      using pending_inv_step less(2) p le by simp
    have d: "distinct parts" using less(2) by (simp add: pending_inv_def)
    have "((Suc MAX_PARTS - length (next_parts loads parts s), length (next_pending loads parts s rest)),
      (Suc MAX_PARTS - length parts, length pending)) \<in> less_than <*lex*> less_than"
      using next_smaller[OF d le, of loads s rest] le p inv by (auto simp: pending_inv_def)
    from less(1)[OF this inv] obtain ps where
      "split_pending loads (next_parts loads parts s) (next_pending loads parts s rest) = Some ps"
      "pending_inv loads ps []" "set (next_parts loads parts s) \<subseteq> set ps" by auto
    then show ?thesis
      using split_pending_step[OF le] p add_pieces_grows[OF d, of "pieces_of loads s"] le
      by (auto simp: next_parts_def)
  qed
qed


definition token_doc :: pystr where
  "token_doc = lit ''{'' @ [34] @ lit ''token'' @ [34] @ lit '':'' @ [34] @ lit ''t0ken_value'' @ [34] @ lit ''}''"

definition token_loads :: "pystr \<Rightarrow> json option" where
  "token_loads s = (if s = token_doc then Some (JObj [(lit ''token'', JStr (lit ''t0ken_value''))]) else None)"

lemma token_doc_leaves: "leaves_of token_loads token_doc = [lit ''t0ken_value'']"
proof -
  have "names_secret (lit ''token'')"
    unfolding names_secret_def by (rule exI[of _ 0]) (simp add: lit_def SECRET_KEY_WORDS_def folds_to_def)
  moreover have "lit ''token'' \<notin> set PUBLIC_KEYS" by (simp add: PUBLIC_KEYS_def lit_eq)
  moreover have "take 1 (lstrip token_doc) = lit ''{''"
    by (simp add: token_doc_def lit_def lstrip_def py_space_def)
  ultimately show ?thesis by (simp add: leaves_of_def token_loads_def MAX_PARTS_def)
qed

lemma no_dash_no_pem: "45 \<notin> set s \<Longrightarrow> \<not> sublist (lit ''-----BEGIN '') s"
  using set_mono_sublist[of "lit ''-----BEGIN ''" s] by (auto simp: lit_def)


section \<open>Secret keys\<close>

text \<open>Every key of a value, at any depth.\<close>

fun json_keys :: "json \<Rightarrow> pystr set" where
  "json_keys (JObj d) = (\<Union>(k, v) \<in> set d. insert k (json_keys v))"
| "json_keys (JList xs) = (\<Union>x \<in> set xs. json_keys x)"
| "json_keys v = {}"

lemma fold_first_hit:
  "fold (\<lambda>h found. case found of Some p \<Rightarrow> Some p | None \<Rightarrow> f h) hits None = None \<longleftrightarrow> (\<forall>h \<in> set hits. f h = None)"
proof -
  have "fold (\<lambda>h found. case found of Some p \<Rightarrow> Some p | None \<Rightarrow> f h) hs (Some p) = Some p" for hs p
    by (induction hs) auto
  moreover have "fold (\<lambda>h found. case found of Some p \<Rightarrow> Some p | None \<Rightarrow> f h) (h # hs) None =
      fold (\<lambda>h found. case found of Some p \<Rightarrow> Some p | None \<Rightarrow> f h) hs (f h)" for h hs by simp
  ultimately show ?thesis
  proof (induction hits)
    case (Cons h hits)
    then show ?case by (cases "f h") auto
  qed simp
qed

declare decimal.simps [simp del]

lemma find_none: "find_secret_key names path j = None \<longleftrightarrow> json_keys j \<inter> names = {}"
proof (induction names path j rule: find_secret_key.induct)
  case (1 names path d)
  have IH: "find_secret_key names (path @ 46 # k) v = None \<longleftrightarrow> json_keys v \<inter> names = {}" if "(k, v) \<in> set d" for k v
    using 1[of "(k, v)" k v] that by simp
  define f where "f = (\<lambda>(k, hit). if k \<in> names then Some (path @ 46 # k) else hit)"
  have "find_secret_key names path (JObj d) =
      fold (\<lambda>h found. case found of Some p \<Rightarrow> Some p | None \<Rightarrow> f h)
        (map (\<lambda>(k, v). (k, find_secret_key names (path @ 46 # k) v)) d) None"
    by (auto simp: f_def intro!: fold_cong split: option.split)
  then have "find_secret_key names path (JObj d) = None \<longleftrightarrow>
      (\<forall>(k, v) \<in> set d. f (k, find_secret_key names (path @ 46 # k) v) = None)"
    by (auto simp: fold_first_hit)
  also have "\<dots> \<longleftrightarrow> (\<forall>(k, v) \<in> set d. k \<notin> names \<and> json_keys v \<inter> names = {})"
    using IH by (intro ball_cong) (auto simp: f_def split: if_splits)
  finally show ?case by auto
next
  case (2 names path xs)
  have "find_secret_key names path (JList xs) = None \<longleftrightarrow>
      (\<forall>(i, v) \<in> set (enumerate 0 xs). find_secret_key names (path @ 91 # decimal i @ [93]) v = None)"
    by (subst find_secret_key.simps, subst fold_first_hit) (simp add: case_prod_beta')
  also have "\<dots> \<longleftrightarrow> (\<forall>(i, v) \<in> set (enumerate 0 xs). json_keys v \<inter> names = {})"
  proof (intro ball_cong refl)
    fix p assume "p \<in> set (enumerate 0 xs)"
    then show "(case p of (i, v) \<Rightarrow> find_secret_key names (path @ 91 # decimal i @ [93]) v = None) =
        (case p of (i, v) \<Rightarrow> json_keys v \<inter> names = {})"
      using 2[of p "fst p" "snd p"] by (simp add: case_prod_beta')
  qed
  also have "\<dots> \<longleftrightarrow> (\<forall>v \<in> set (map snd (enumerate 0 xs)). json_keys v \<inter> names = {})"
    by (auto simp: case_prod_beta' simp del: map_snd_enumerate)
  finally show ?case by auto
qed auto

lemma drop_keys: "json_keys (drop_secret_keys names j) \<inter> names = {}"
proof (induction names j rule: drop_secret_keys.induct)
  case (1 names d)
  have "json_keys (drop_secret_keys names v) \<inter> names = {}" if "(k, v) \<in> set d" for k v using 1 that by blast
  then show ?case by auto
qed auto

lemma drop_nothing: "json_keys j \<inter> names = {} \<Longrightarrow> drop_secret_keys names j = j"
proof (induction names j rule: drop_secret_keys.induct)
  case (1 names d)
  have "drop_secret_keys names v = v" "k \<notin> names" if "(k, v) \<in> set d" for k v
    using 1(1)[of "(k, v)" k v] 1(2) that by auto
  then have "map (\<lambda>(k, v). (k, drop_secret_keys names v)) d = d" "filter (\<lambda>(k, v). k \<notin> names) d = d"
    by (auto intro!: map_idI filter_True)
  then show ?case by simp
next
  case (2 names xs)
  have "drop_secret_keys names x = x" if "x \<in> set xs" for x using 2 that by auto
  then show ?case by (simp add: map_idI)
qed auto

text \<open>The two walkers over secret keys agree. Arguments are accepted exactly when no key
  at any depth names an encrypted field, in lists of lists too; an answer with its secret
  keys dropped has none left, the check passes it, and an answer without one is left as it
  was.\<close>

theorem secret_keys_at_any_depth:
  "(find_secret_key names path j = None \<longleftrightarrow> json_keys j \<inter> names = {}) \<and>
   find_secret_key names path (drop_secret_keys names j) = None \<and>
   (drop_secret_keys names j = j \<longleftrightarrow> find_secret_key names path j = None)"
  by (metis find_none drop_keys drop_nothing)

end
