(* ===== verification/Mcp_Server.thy ===== *)
theory Mcp_Server
  imports Mcp_Schema Mcp_Approval Mcp_Redact Mcp_Answer Rate_Limit Roles
begin

text \<open>
  One JSON-RPC message of an agent, from the headers to the answer
  (\<^verbatim>\<open>incubacloud_mcp/models/mcp_server.py\<close> and \<^verbatim>\<open>protocol/headers.py\<close>, \<^verbatim>\<open>versions.py\<close>,
  \<^verbatim>\<open>signing.py\<close>, \<^verbatim>\<open>errors.py\<close>, \<^verbatim>\<open>context.py\<close>, \<^verbatim>\<open>tool_spec.py\<close>): the protocol it speaks, the
  session it belongs to, and a tool call through the limit, the role, the secrets, the
  schema and the approval to the tool. What a tool does is an argument, on a panel of any
  type; so are the HMAC, the base64 of a signed payload, Unicode's printable characters,
  the wording of messages and the tools' own preparations.
\<close>

section \<open>Protocol\<close>

datatype mcp_reason =
    Not_one_message | Bad_id | Bad_params | Bad_meta | Missing_version | Missing_session | Starts_with_initialize
  | Unsupported_version | Missing_capabilities | Version_header_missing | Version_header_differs | Method_header_differs
  | Name_header_missing | Name_header_differs | Bad_base64 | Session_not_found | Session_version_differs | No_such_method
  | Unknown_tool | Arguments_not_object | Url_elicitation nat pystr pystr

record mcp_error =
  err_status :: nat
  err_code :: int
  err_reason :: mcp_reason

definition INVALID_REQUEST :: int where "INVALID_REQUEST = -32600"
definition METHOD_NOT_FOUND :: int where "METHOD_NOT_FOUND = -32601"
definition INVALID_PARAMS :: int where "INVALID_PARAMS = -32602"
definition HEADER_MISMATCH :: int where "HEADER_MISMATCH = -32020"
definition UNSUPPORTED_PROTOCOL_VERSION :: int where "UNSUPPORTED_PROTOCOL_VERSION = -32022"
definition URL_ELICITATION_REQUIRED :: int where "URL_ELICITATION_REQUIRED = -32042"

abbreviation err :: "nat \<Rightarrow> int \<Rightarrow> mcp_reason \<Rightarrow> mcp_error" where
  "err st c r \<equiv> \<lparr>err_status = st, err_code = c, err_reason = r\<rparr>"

definition MODERN :: pystr where "MODERN = lit ''2026-07-28''"

definition LEGACY :: "pystr list" where
  "LEGACY = [lit ''2025-11-25'', lit ''2025-06-18'', lit ''2025-03-26'']"

definition SUPPORTED :: "pystr list" where "SUPPORTED = MODERN # LEGACY"

definition negotiate_legacy :: "json \<Rightarrow> pystr" where
  "negotiate_legacy requested = (if requested \<in> JStr ` set LEGACY then (case requested of JStr v \<Rightarrow> v | _ \<Rightarrow> []) else hd LEGACY)"

text \<open>The headers of a request, by name; the base64 of a header is decoded by \<open>unwrap\<close>.\<close>

type_synonym headers = "string \<Rightarrow> pystr option"

definition HEADER_PREFIX :: pystr where "HEADER_PREFIX = lit ''=?base64?''"
definition HEADER_SUFFIX :: pystr where "HEADER_SUFFIX = lit ''?=''"

definition decode_header_value :: "(pystr \<Rightarrow> pystr option) \<Rightarrow> pystr \<Rightarrow> (mcp_error, pystr) result" where
  "decode_header_value unwrap v =
     (if prefix HEADER_PREFIX v \<and> suffix HEADER_SUFFIX v \<and> length HEADER_PREFIX + length HEADER_SUFFIX \<le> length v
      then (case unwrap (take (length v - length HEADER_PREFIX - length HEADER_SUFFIX) (drop (length HEADER_PREFIX) v)) of
              None \<Rightarrow> Inl (err 400 HEADER_MISMATCH Bad_base64)
            | Some t \<Rightarrow> Inr t)
      else Inr v)"

definition NAMED_METHODS :: "(pystr \<times> string) list" where
  "NAMED_METHODS = [(lit ''tools/call'', ''name''), (lit ''prompts/get'', ''name''), (lit ''resources/read'', ''uri'')]"

definition check_modern_headers ::
    "(pystr \<Rightarrow> pystr option) \<Rightarrow> headers \<Rightarrow> pystr \<Rightarrow> dict \<Rightarrow> json \<Rightarrow> (mcp_error, unit) result" where
  "check_modern_headers unwrap h method params ver =
     (case h ''MCP-Protocol-Version'' of
        None \<Rightarrow> Inl (err 400 HEADER_MISMATCH Version_header_missing)
      | Some v \<Rightarrow>
          if v = [] then Inl (err 400 HEADER_MISMATCH Version_header_missing)
          else if JStr v \<noteq> ver then Inl (err 400 HEADER_MISMATCH Version_header_differs)
          else if h ''Mcp-Method'' \<noteq> Some method then Inl (err 400 HEADER_MISMATCH Method_header_differs)
          else (case map_of NAMED_METHODS method of
                  None \<Rightarrow> Inr ()
                | Some field \<Rightarrow>
                    (case h ''Mcp-Name'' of
                       None \<Rightarrow> Inl (err 400 HEADER_MISMATCH Name_header_missing)
                     | Some raw \<Rightarrow>
                         (case decode_header_value unwrap raw of
                            Inl e \<Rightarrow> Inl e
                          | Inr name \<Rightarrow>
                              if JStr name \<noteq> dget params field then Inl (err 400 HEADER_MISMATCH Name_header_differs) else Inr ()))))"

section \<open>Signed tokens\<close>

record signer =
  mac :: "pystr \<Rightarrow> pystr"
  enc :: "dict \<Rightarrow> pystr"
  dec :: "pystr \<Rightarrow> json option"

definition signed_text :: "pystr \<Rightarrow> pystr \<Rightarrow> pystr" where
  "signed_text label body = label @ 46 # body"

definition sign :: "signer \<Rightarrow> pystr \<Rightarrow> dict \<Rightarrow> pystr" where
  "sign k label pl = (let body = enc k pl in body @ 46 # mac k (signed_text label body))"

definition verify :: "signer \<Rightarrow> pystr \<Rightarrow> json \<Rightarrow> dict option" where
  "verify k label given_token =
     (case given_token of
        JStr t \<Rightarrow>
          if \<not> ascii t then None
          else (case split_on 46 t of
                  [body, m] \<Rightarrow>
                    if m \<noteq> mac k (signed_text label body) then None
                    else (case dec k body of Some (JObj d) \<Rightarrow> Some d | _ \<Rightarrow> None)
                | _ \<Rightarrow> None)
      | _ \<Rightarrow> None)"

section \<open>Who calls, in which protocol\<close>

record principal =
  pr_uid :: int
  pr_credential :: pystr
  pr_client :: pystr

record mcp_context = call_context +
  client_name :: pystr
  credential :: pystr

definition context_of :: "pystr \<Rightarrow> bool \<Rightarrow> json \<Rightarrow> pystr \<Rightarrow> principal \<Rightarrow> mcp_context" where
  "context_of v is_modern caps name p =
     \<lparr>version = v, modern = is_modern, capabilities = caps, principal_uid = pr_uid p, principal_client = pr_client p,
      client_name = name, credential = pr_credential p\<rparr>"

definition via :: "mcp_context \<Rightarrow> pystr" where
  "via ctx = (if client_name ctx = [] then credential ctx else credential ctx @ lit '' ('' @ client_name ctx @ [41])"

definition BRACKETS :: "nat list" where
  "BRACKETS = [40, 41, 0xFF08, 0xFF09, 0xFE59, 0xFE5A, 0x207D, 0x207E, 0x208D, 0x208E]"

definition client_name_of :: "(nat \<Rightarrow> bool) \<Rightarrow> (json \<Rightarrow> pystr) \<Rightarrow> json \<Rightarrow> pystr" where
  "client_name_of printable str_of info =
     (case info of
        JObj d \<Rightarrow>
          let n = dget d ''name'';
              name = filter (\<lambda>c. printable c \<and> c \<notin> set BRACKETS) (if truthy n then str_of n else [])
          in take 64 (join_with 32 (words name))
      | _ \<Rightarrow> [])"

definition ELICITATION_MODES :: "string list" where "ELICITATION_MODES = [''form'', ''url'']"

definition session_capabilities :: "json \<Rightarrow> json" where
  "session_capabilities caps =
     (case caps of
        JObj d \<Rightarrow>
          (case dget d ''elicitation'' of
             JObj el \<Rightarrow>
               JObj [(lit ''elicitation'', JObj (map (\<lambda>m. (lit m, JObj [])) (filter (\<lambda>m. map_of el (lit m) \<noteq> None) ELICITATION_MODES)))]
           | _ \<Rightarrow> JObj [])
      | _ \<Rightarrow> JObj [])"

definition SESSION_MAX_AGE :: int where "SESSION_MAX_AGE = 24 * 3600"

definition META_VERSION :: string where "META_VERSION = ''io.modelcontextprotocol/protocolVersion''"
definition META_CAPABILITIES :: string where "META_CAPABILITIES = ''io.modelcontextprotocol/clientCapabilities''"
definition META_CLIENT :: string where "META_CLIENT = ''io.modelcontextprotocol/clientInfo''"
definition META_SERVER :: string where "META_SERVER = ''io.modelcontextprotocol/serverInfo''"

text \<open>\<open>seconds\<close> is \<^verbatim>\<open>time.time()\<close>: what a session's age is measured with, to the fraction.\<close>

definition session_payload :: "mcp_context \<Rightarrow> rat \<Rightarrow> dict" where
  "session_payload ctx seconds =
     [(lit ''v'', JStr (version ctx)), (lit ''c'', capabilities ctx), (lit ''n'', JStr (client_name ctx)),
      (lit ''u'', JInt (principal_uid ctx)), (lit ''t'', JInt \<lfloor>seconds\<rfloor>)]"

text \<open>\<^verbatim>\<open>isinstance(state.get("t"), int)\<close> takes a boolean too.\<close>

definition int_field :: "json \<Rightarrow> int option" where
  "int_field v = (case v of JInt i \<Rightarrow> Some i | JBool b \<Rightarrow> Some (of_bool b) | _ \<Rightarrow> None)"

definition read_session :: "signer \<Rightarrow> rat \<Rightarrow> pystr \<Rightarrow> principal \<Rightarrow> (mcp_error, dict) result" where
  "read_session k seconds session_id p =
     (case verify k (lit ''session'') (JStr session_id) of
        None \<Rightarrow> Inl (err 404 INVALID_REQUEST Session_not_found)
      | Some st \<Rightarrow>
          if st = [] \<or> \<not> json_eq (dget st ''u'') (JInt (pr_uid p)) \<or> dget st ''v'' \<notin> JStr ` set LEGACY \<or>
             (case int_field (dget st ''t'') of None \<Rightarrow> True | Some t \<Rightarrow> seconds - of_int t > of_int SESSION_MAX_AGE)
          then Inl (err 404 INVALID_REQUEST Session_not_found)
          else Inr st)"

record request_env =
  unwrap :: "pystr \<Rightarrow> pystr option"
  keys :: signer
  seconds :: rat
  printable :: "nat \<Rightarrow> bool"
  str_of :: "json \<Rightarrow> pystr"

definition str_field :: "dict \<Rightarrow> string \<Rightarrow> pystr" where
  "str_field d key = (case dget d key of JStr s \<Rightarrow> s | _ \<Rightarrow> [])"

definition legacy_context ::
    "request_env \<Rightarrow> pystr \<Rightarrow> dict \<Rightarrow> headers \<Rightarrow> principal \<Rightarrow> (mcp_error, mcp_context option) result" where
  "legacy_context r method params h p =
     (if method = lit ''initialize'' then
        Inr (Some (context_of (negotiate_legacy (dget params ''protocolVersion'')) False
          (session_capabilities (dget params ''capabilities'')) (client_name_of (printable r) (str_of r) (dget params ''clientInfo'')) p))
      else case h ''Mcp-Session-Id'' of
          None \<Rightarrow> Inr None
        | Some [] \<Rightarrow> Inr None
        | Some session_id \<Rightarrow>
            (case read_session (keys r) (seconds r) session_id p of
               Inl e \<Rightarrow> Inl e
             | Inr st \<Rightarrow>
                 if (case h ''MCP-Protocol-Version'' of None \<Rightarrow> False | Some v \<Rightarrow> v \<noteq> [] \<and> JStr v \<noteq> dget st ''v'')
                 then Inl (err 400 INVALID_REQUEST Session_version_differs)
                 else Inr (Some (context_of (str_field st ''v'') False
                        (if truthy (dget st ''c'') then dget st ''c'' else JObj []) (str_field st ''n'') p))))"

text \<open>\<^verbatim>\<open>value or {}\<close>, which must then be an object.\<close>

definition object_or_empty :: "json \<Rightarrow> dict option" where
  "object_or_empty v = (if truthy v then (case v of JObj d \<Rightarrow> Some d | _ \<Rightarrow> None) else Some [])"

definition call_context_of ::
    "request_env \<Rightarrow> pystr \<Rightarrow> json \<Rightarrow> headers \<Rightarrow> principal \<Rightarrow> (mcp_error, mcp_context \<times> dict) result" where
  "call_context_of r method given_params h p =
     (case object_or_empty given_params of
        None \<Rightarrow> Inl (err 400 INVALID_PARAMS Bad_params)
      | Some params \<Rightarrow>
          (case object_or_empty (dget params ''_meta'') of
             None \<Rightarrow> Inl (err 400 INVALID_PARAMS Bad_meta)
           | Some meta \<Rightarrow>
               let v = dget meta META_VERSION in
               if \<not> truthy v then
                 (case legacy_context r method params h p of
                    Inl e \<Rightarrow> Inl e
                  | Inr (Some ctx) \<Rightarrow> Inr (ctx, params)
                  | Inr None \<Rightarrow>
                      if h ''MCP-Protocol-Version'' = Some MODERN then Inl (err 400 INVALID_PARAMS Missing_version)
                      else Inl (err 400 INVALID_REQUEST Missing_session))
               else (case check_modern_headers (unwrap r) h method params v of
                       Inl e \<Rightarrow> Inl e
                     | Inr _ \<Rightarrow>
                         if v \<in> JStr ` set LEGACY then Inl (err 400 INVALID_REQUEST Starts_with_initialize)
                         else if v \<noteq> JStr MODERN then Inl (err 400 UNSUPPORTED_PROTOCOL_VERSION Unsupported_version)
                         else (case dget meta META_CAPABILITIES of
                                 JObj caps \<Rightarrow>
                                   Inr (context_of MODERN True (JObj caps)
                                     (client_name_of (printable r) (str_of r) (dget meta META_CLIENT)) p, params)
                               | _ \<Rightarrow> Inl (err 400 INVALID_PARAMS Missing_capabilities)))))"

section \<open>Tools\<close>

record tool_spec =
  spec_name :: pystr
  min_group :: role
  input_schema :: schema
  read_only :: bool
  destructive :: bool
  confirm_mode :: confirm_mode
  untrusted :: bool
  audited :: bool

text \<open>What \<^verbatim>\<open>__post_init__\<close> refuses to declare otherwise.\<close>

definition declared :: "tool_spec \<Rightarrow> bool" where
  "declared spec \<longleftrightarrow> \<not> (destructive spec \<and> confirm_mode spec = Never)"

text \<open>A refusal with its words (\<^verbatim>\<open>UserError\<close> and its kin), a concurrency error, another error
  of the database and any other one, with what \<^verbatim>\<open>safe_error_response\<close> says of them.\<close>

datatype tool_failure = Told pystr | Concurrency | Database pystr | Failed pystr

datatype 'p tool_end = Answers json 'p | Raises tool_failure 'p

record audit_row =
  au_action :: pystr
  au_details :: pystr
  au_targets :: "(string \<times> int) list"
  au_via :: pystr

record 'p server =
  desk_of :: desk
  quota :: rl_table
  panel :: 'p
  audit_log :: "audit_row list"

record 'p mcp_world =
  specs :: "tool_spec list"
  caller_of :: caller
  user_cap :: int
  limits :: rl_env
  clock :: int
  field_names :: "pystr set"
  known :: "'p \<Rightarrow> pystr list"
  too_deep :: "pystr list \<Rightarrow> bool"
  alnum :: "nat \<Rightarrow> bool"
  frepr :: "rat \<Rightarrow> pystr"
  to_text :: "json \<Rightarrow> pystr"
  say :: "string \<Rightarrow> pystr"
  schema_words :: "schema_error \<Rightarrow> pystr"
  role_words :: "access_error \<Rightarrow> pystr"
  secret_words :: "pystr \<Rightarrow> pystr"
  lookup_of :: "'p \<Rightarrow> lookup"
  check_records :: "'p \<Rightarrow> json \<Rightarrow> pystr option"
  prepare :: "tool_spec \<Rightarrow> json \<Rightarrow> 'p \<Rightarrow> (tool_failure, json) result"
  said :: "tool_spec \<Rightarrow> json \<Rightarrow> 'p \<Rightarrow> pystr option option"
  default_words :: "tool_spec \<Rightarrow> pystr"
  digest_of :: "pystr \<Rightarrow> json \<Rightarrow> pystr"
  fresh :: fresh_values
  raced :: bool
  request_key :: signer
  invoke :: "tool_spec \<Rightarrow> json \<Rightarrow> 'p \<Rightarrow> 'p tool_end"
  known_failing :: "'p \<Rightarrow> pystr list"
  writes_of :: "tool_spec \<Rightarrow> json \<Rightarrow> bool"
  recorded :: "tool_spec \<Rightarrow> json \<Rightarrow> json"
  target_exists :: "string \<Rightarrow> int \<Rightarrow> bool"
  server_info :: json

datatype failure = Protocol mcp_error | Retry | Crash

datatype answer = Result dict | Stopped Mcp_Approval.gate

definition finish :: "'p mcp_world \<Rightarrow> mcp_context \<Rightarrow> dict \<Rightarrow> dict" where
  "finish w ctx result =
     (if \<not> modern ctx then result
      else let r = (if map_of result (lit ''resultType'') = None then dset (lit ''resultType'') (JStr (lit ''complete'')) result else result);
               meta = (case dget r ''_meta'' of JObj m \<Rightarrow> m | _ \<Rightarrow> [])
           in dset (lit ''_meta'') (JObj (dset (lit META_SERVER) (server_info w) meta)) r)"

definition text_content :: "pystr \<Rightarrow> json" where
  "text_content t = JObj [(lit ''type'', JStr (lit ''text'')), (lit ''text'', JStr t)]"

definition error_result :: "'p mcp_world \<Rightarrow> mcp_context \<Rightarrow> pystr \<Rightarrow> answer" where
  "error_result w ctx told =
     Result (finish w ctx [(lit ''content'', JList [text_content told]), (lit ''isError'', JBool True)])"

definition tool_result :: "'p mcp_world \<Rightarrow> mcp_context \<Rightarrow> tool_spec \<Rightarrow> json \<Rightarrow> bool \<Rightarrow> answer" where
  "tool_result w ctx spec pl is_error =
     (let t = (case pl of
                 JObj d \<Rightarrow> if is_error \<and> fst ` set d \<subseteq> {lit ''ok'', lit ''error''} then to_text w (dget d ''error'') else dumps (frepr w) pl
               | _ \<Rightarrow> dumps (frepr w) pl);
          content = (if untrusted spec \<and> \<not> is_error
                     then [text_content (say w ''untrusted notice''),
                           text_content (lit ''<untrusted_data>'' @ 10 # t @ 10 # lit ''</untrusted_data>'')]
                     else [text_content t])
      in Result (finish w ctx [(lit ''content'', JList content), (lit ''isError'', JBool is_error)]))"

definition visible_specs :: "'p mcp_world \<Rightarrow> tool_spec list" where
  "visible_specs w = sort_key spec_name (filter (\<lambda>spec. has_cloud_group (caller_of w) (min_group spec)) (specs w))"

definition over_user_limit :: "'p mcp_world \<Rightarrow> int \<Rightarrow> rl_table \<Rightarrow> (rl_error, bool \<times> rl_table) result" where
  "over_user_limit w user tab =
     map_sum id (\<lambda>(ok, tab'). (\<not> ok, tab'))
       (hit (limits w) (''mcp_user:'' @ map char_of (int_text user)) None (Some (user_cap w)) 60 tab)"

text \<open>\<^verbatim>\<open>json.dumps(\<dots>, sort_keys=True)\<close>.\<close>

fun keys_sorted :: "json \<Rightarrow> json" where
  "keys_sorted (JObj d) = JObj (sort_key fst (map (\<lambda>(k, v). (k, keys_sorted v)) d))"
| "keys_sorted (JList xs) = JList (map keys_sorted xs)"
| "keys_sorted v = v"

definition AUDIT_TARGETS :: "string list" where
  "AUDIT_TARGETS = [''instance_id'', ''host_id'', ''project_id'']"

definition audit_call :: "'p mcp_world \<Rightarrow> mcp_context \<Rightarrow> tool_spec \<Rightarrow> json \<Rightarrow> scrubber \<Rightarrow> pystr \<Rightarrow> audit_row" where
  "audit_call w ctx spec args sc outcome =
     (let detail0 = dumps (frepr w) (keys_sorted (scrub_value (alnum w) sc (recorded w spec args)));
          detail = (if outcome = [] then detail0
                    else lit ''refused: '' @ scrub_text (alnum w) sc outcome @ [32, 183, 32] @ detail0);
          named = List.map_filter (\<lambda>f. case args of
                     JObj d \<Rightarrow> (case int_field (dget d f) of
                                 Some i \<Rightarrow> if target_exists w f i then Some (f, i) else None
                               | None \<Rightarrow> None)
                   | _ \<Rightarrow> None) AUDIT_TARGETS
      in \<lparr>au_action = lit ''Agent: '' @ spec_name spec, au_details = take 2000 detail, au_targets = named, au_via = via ctx\<rparr>)"

text \<open>The keys an \<^verbatim>\<open>update_\<close> tool writes back whole.\<close>

definition replaced_whole :: "'p mcp_world \<Rightarrow> pystr list" where
  "replaced_whole w =
     concat (map (\<lambda>spec. if prefix (lit ''update_'') (spec_name spec)
                         then (case map_of (s_props (input_schema spec)) (lit ''vals'') of None \<Rightarrow> [] | Some v \<Rightarrow> map fst (s_props v))
                         else []) (specs w))"

definition PAGE_SLACK :: int where "PAGE_SLACK = 1024"
definition GUARD_MARGIN :: int where "GUARD_MARGIN = 128"

fun flag_cut :: "json \<Rightarrow> json" where
  "flag_cut (JList xs) = JObj [(lit ''items'', JList xs), (lit ''truncated'', JBool True)]"
| "flag_cut (JObj d) = JObj (dset (lit ''truncated'') (JBool True) d)"
| "flag_cut v = v"

definition guarded :: "'p mcp_world \<Rightarrow> json \<Rightarrow> json" where
  "guarded w pl =
     (if size_of (frepr w) pl > MAX_BYTES + PAGE_SLACK
      then let (cut_answer, was_cut) = fit_answer (frepr w) pl (MAX_BYTES - GUARD_MARGIN) (replaced_whole w)
           in if was_cut then flag_cut cut_answer else cut_answer
      else pl)"

definition cleaned :: "'p mcp_world \<Rightarrow> tool_spec \<Rightarrow> scrubber \<Rightarrow> json \<Rightarrow> json" where
  "cleaned w spec sc result =
     (let v = scrub_value (alnum w) sc (drop_secret_keys (field_names w) result)
      in guarded w (if untrusted spec then mask_token_urls v else v))"

definition scrubber_with :: "'p mcp_world \<Rightarrow> pystr list \<Rightarrow> 'p \<Rightarrow> scrubber option" where
  "scrubber_with w extra p = scrubber_of (too_deep w) (remdups (known w p @ extra))"

fun failure_words :: "tool_failure \<Rightarrow> pystr" where
  "failure_words (Told t) = t"
| "failure_words Concurrency = []"
| "failure_words (Database t) = t"
| "failure_words (Failed t) = t"

fun of_database :: "tool_failure \<Rightarrow> bool" where
  "of_database Concurrency = True"
| "of_database (Database t) = True"
| "of_database _ = False"

text \<open>What an answer says of itself: \<^verbatim>\<open>{'ok': False}\<close> is a refusal that keeps what was written.\<close>

definition refusal_of :: "'p mcp_world \<Rightarrow> json \<Rightarrow> pystr option" where
  "refusal_of w result =
     (case result of
        JObj d \<Rightarrow>
          if dget d ''ok'' = JBool False
          then Some (to_text w (if truthy (dget d ''error'') then dget d ''error'' else JStr (say w ''refused'')))
          else None
      | _ \<Rightarrow> None)"

definition run :: "'p mcp_world \<Rightarrow> tool_spec \<Rightarrow> json \<Rightarrow> mcp_context \<Rightarrow> 'p server \<Rightarrow> (failure, answer) result \<times> 'p server" where
  "run w spec args ctx s =
     (let before = known w (panel s) in
      case invoke w spec args (panel s) of
        Raises f p \<Rightarrow>
          if f = Concurrency then (Inl Retry, s)
          else (case scrubber_with w (before @ (if of_database f then [] else known_failing w p)) (panel s) of
                  None \<Rightarrow> (Inl Crash, s)
                | Some sc \<Rightarrow>
                    let log = (if audited spec \<and> \<not> read_only spec \<and> writes_of w spec args
                               then audit_call w ctx spec args sc (failure_words f) # audit_log s else audit_log s)
                    in (Inr (error_result w ctx (scrub_text (alnum w) sc (failure_words f))), s\<lparr>audit_log := log\<rparr>))
      | Answers result p \<Rightarrow>
          (case scrubber_with w before p of
             None \<Rightarrow> (Inl Crash, s)
           | Some sc \<Rightarrow>
               let outcome = (case refusal_of w result of None \<Rightarrow> [] | Some t \<Rightarrow> t);
                   log = (if audited spec \<and> \<not> read_only spec \<and> writes_of w spec args
                          then audit_call w ctx spec args sc outcome # audit_log s else audit_log s)
               in (Inr (tool_result w ctx spec (cleaned w spec sc result) (outcome \<noteq> [])), s\<lparr>panel := p, audit_log := log\<rparr>)))"

text \<open>The checks before a tool: the role, the secrets, the schema, the records and the tool's
  own preparation. The error of a concurrent transaction retries the request.\<close>

definition checked_args :: "'p mcp_world \<Rightarrow> tool_spec \<Rightarrow> json \<Rightarrow> 'p \<Rightarrow> (tool_failure, json) result" where
  "checked_args w spec arguments p =
     (case check_cloud_group (caller_of w) (min_group spec) of
        Inl e \<Rightarrow> Inl (Told (role_words w e))
      | Inr _ \<Rightarrow>
          (case find_secret_key (field_names w) (lit ''arguments'') arguments of
             Some path \<Rightarrow> Inl (Told (secret_words w path))
           | None \<Rightarrow>
               (case validate (input_schema spec) arguments [] of
                  Inl e \<Rightarrow> Inl (Told (schema_words w e))
                | Inr v \<Rightarrow>
                    (case resolve (input_schema spec) v (lookup_of w p) [] of
                       Inl e \<Rightarrow> Inl (Told (schema_words w e))
                     | Inr args \<Rightarrow>
                         (case check_records w p args of
                            Some t \<Rightarrow> Inl (Told t)
                          | None \<Rightarrow> prepare w spec args p)))))"

definition confirm_gate ::
    "'p mcp_world \<Rightarrow> tool_spec \<Rightarrow> json \<Rightarrow> mcp_context \<Rightarrow> dict \<Rightarrow> (pystr \<Rightarrow> pystr) \<Rightarrow> 'p \<Rightarrow> desk \<Rightarrow> Mcp_Approval.gate \<times> desk" where
  "confirm_gate w spec args ctx params scrub p d =
     gate (verify (request_key w) (lit ''request'')) (raced w) (fresh w) scrub (spec_name spec) (confirm_mode spec)
       (default_words w spec) (said w spec args p) (digest_of w (spec_name spec) args) (call_context.truncate ctx)
       (dget params ''requestState'') (dget params ''inputResponses'') (clock w) d"

definition tools_call ::
    "'p mcp_world \<Rightarrow> dict \<Rightarrow> mcp_context \<Rightarrow> 'p server \<Rightarrow> (failure, answer) result \<times> 'p server" where
  "tools_call w params ctx s =
     (let name = dget params ''name'';
          given_args = dget params ''arguments'';
          arguments = (if given_args = JNull then JObj [] else given_args);
          status = (if modern ctx then 400 else 200)
      in case find (\<lambda>spec. JStr (spec_name spec) = name) (specs w) of
           None \<Rightarrow> (Inl (Protocol (err status INVALID_PARAMS Unknown_tool)), s)
         | Some spec \<Rightarrow>
             if (case arguments of JObj d \<Rightarrow> False | _ \<Rightarrow> True)
             then (Inl (Protocol (err status INVALID_PARAMS Arguments_not_object)), s)
             else (case over_user_limit w (principal_uid ctx) (quota s) of
                     Inl e \<Rightarrow> (Inl Crash, s)
                   | Inr (over, tab) \<Rightarrow>
                       let s = s\<lparr>quota := tab\<rparr> in
                       if over then (Inr (error_result w ctx (say w ''too many calls'')), s)
                       else case scrubber_with w [] (panel s) of
                           None \<Rightarrow> (Inl Crash, s)
                         | Some sc \<Rightarrow>
                             (case checked_args w spec arguments (panel s) of
                                Inl f \<Rightarrow>
                                  if f = Concurrency then (Inl Retry, s)
                                  else (Inr (error_result w ctx (scrub_text (alnum w) sc (failure_words f))), s)
                              | Inr args \<Rightarrow>
                                  (case confirm_gate w spec args ctx params (scrub_text (alnum w) sc) (panel s) (desk_of s) of
                                     (Runs u, d) \<Rightarrow> run w spec args ctx (s\<lparr>desk_of := d\<rparr>)
                                   | (Raises_url i link told, d) \<Rightarrow>
                                       (Inl (Protocol (err 200 URL_ELICITATION_REQUIRED (Url_elicitation i link told))),
                                        s\<lparr>desk_of := d\<rparr>)
                                   | (g, d) \<Rightarrow> (Inr (Stopped g), s\<lparr>desk_of := d\<rparr>)))))"

section \<open>One message\<close>

definition discover :: "'p mcp_world \<Rightarrow> dict" where
  "discover w =
     [(lit ''supportedVersions'', JList (map JStr SUPPORTED)),
      (lit ''capabilities'', JObj [(lit ''tools'', JObj [(lit ''listChanged'', JBool False)])]),
      (lit ''instructions'', JStr (say w ''instructions'')), (lit ''ttlMs'', JInt 300000), (lit ''cacheScope'', JStr (lit ''private''))]"

definition tools_list :: "'p mcp_world \<Rightarrow> (tool_spec \<Rightarrow> json) \<Rightarrow> mcp_context \<Rightarrow> dict" where
  "tools_list w listed_as ctx =
     (lit ''tools'', JList (map listed_as (visible_specs w))) #
     (if modern ctx then [(lit ''ttlMs'', JInt 300000), (lit ''cacheScope'', JStr (lit ''private''))] else [])"

definition initialize :: "'p mcp_world \<Rightarrow> request_env \<Rightarrow> mcp_context \<Rightarrow> dict \<times> pystr" where
  "initialize w r ctx =
     ([(lit ''protocolVersion'', JStr (version ctx)),
       (lit ''capabilities'', JObj [(lit ''tools'', JObj [(lit ''listChanged'', JBool False)])]),
       (lit ''serverInfo'', server_info w), (lit ''instructions'', JStr (say w ''instructions''))],
      sign (keys r) (lit ''session'') (session_payload ctx (seconds r)))"

text \<open>The answer, with the session id it hands out.\<close>

definition dispatch ::
    "'p mcp_world \<Rightarrow> (tool_spec \<Rightarrow> json) \<Rightarrow> request_env \<Rightarrow> pystr \<Rightarrow> dict \<Rightarrow> mcp_context \<Rightarrow> 'p server \<Rightarrow>
     (failure, answer \<times> pystr option) result \<times> 'p server" where
  "dispatch w listed_as r method params ctx s =
     (if method = lit ''server/discover'' \<and> modern ctx then (Inr (Result (finish w ctx (discover w)), None), s)
      else if method = lit ''initialize'' \<and> \<not> modern ctx then
        (case initialize w r ctx of (result, session) \<Rightarrow> (Inr (Result result, Some session), s))
      else if method = lit ''ping'' \<and> \<not> modern ctx then (Inr (Result [], None), s)
      else if method = lit ''tools/list'' then (Inr (Result (finish w ctx (tools_list w listed_as ctx)), None), s)
      else if method = lit ''tools/call'' then apfst (map_sum id (\<lambda>a. (a, None))) (tools_call w params ctx s)
      else (Inl (Protocol (err (if modern ctx then 404 else 200) METHOD_NOT_FOUND No_such_method)), s))"

datatype reply_body = No_body | Error_body "json option" mcp_error | Answer_body json answer

record reply =
  rp_status :: nat
  rp_body :: reply_body
  rp_session :: "pystr option"

text \<open>A request Odoo retries, or that ends in an error of the server, is undone but for its
  count: both are \<open>Inl\<close>.\<close>

definition handle ::
    "'p mcp_world \<Rightarrow> (tool_spec \<Rightarrow> json) \<Rightarrow> request_env \<Rightarrow> json \<Rightarrow> headers \<Rightarrow> principal \<Rightarrow> 'p server \<Rightarrow>
     (failure, reply) result \<times> 'p server" where
  "handle w listed_as r message0 h p s =
     (case message0 of
        JObj m \<Rightarrow>
          (case (dget m ''jsonrpc'' = JStr (lit ''2.0''), dget m ''method'') of
             (True, JStr method) \<Rightarrow>
               (case map_of m (lit ''id'') of
                  None \<Rightarrow> (Inr \<lparr>rp_status = 202, rp_body = No_body, rp_session = None\<rparr>, s)
                | Some i \<Rightarrow>
                    if (case i of JStr t \<Rightarrow> False | JInt n \<Rightarrow> False | _ \<Rightarrow> True)
                    then (Inr \<lparr>rp_status = 400, rp_body = Error_body None (err 400 INVALID_REQUEST Bad_id), rp_session = None\<rparr>, s)
                    else (case call_context_of r method (dget m ''params'') h p of
                            Inl e \<Rightarrow> (Inr \<lparr>rp_status = err_status e, rp_body = Error_body (Some i) e, rp_session = None\<rparr>, s)
                          | Inr (ctx, params) \<Rightarrow>
                              (case dispatch w listed_as r method params ctx s of
                                 (Inl (Protocol e), s') \<Rightarrow>
                                   (Inr \<lparr>rp_status = err_status e, rp_body = Error_body (Some i) e, rp_session = None\<rparr>, s')
                               | (Inl f, s') \<Rightarrow> (Inl f, s\<lparr>quota := quota s'\<rparr>)
                               | (Inr (a, session), s') \<Rightarrow>
                                   (Inr \<lparr>rp_status = 200, rp_body = Answer_body i a, rp_session = session\<rparr>, s'))))
           | _ \<Rightarrow> (Inr \<lparr>rp_status = 400, rp_body = Error_body None (err 400 INVALID_REQUEST Not_one_message), rp_session = None\<rparr>, s))
      | _ \<Rightarrow> (Inr \<lparr>rp_status = 400, rp_body = Error_body None (err 400 INVALID_REQUEST Not_one_message), rp_session = None\<rparr>, s))"

end
