(* ===== verification/Server_Facts.thy ===== *)
theory Server_Facts
  imports Mcp_Server
begin

text \<open>
  What an agent's message can do: the panel changes only by a tool that passed the limit,
  the role, the secrets, the schema and, where it always asks, an approval; a session holds
  for its user for a day and for nobody else; and a call is what its headers say.
\<close>

section \<open>What a call may change\<close>

lemma ask_never_runs: "ask fv scrub tool digest m ctx t0 d = (r, d') \<Longrightarrow> r \<noteq> Runs u"
  by (auto simp: ask_def Let_def split: prod.splits channel.splits)

lemma resume_uses_one:
  assumes "resume ver rc tool digest ctx token responses t0 d = (Runs u, d')"
  shows "u \<noteq> None"
  using assms reask_asks
  by (auto simp: resume_def Let_def split: option.splits if_splits prod.splits bool.splits)

lemma gate_uses_one:
  assumes "gate ver rc fv scrub tool mode default_message sd digest ctx token responses t0 d = (Runs u, d')"
    and "confirmation mode default_message sd = Some m" and "m \<noteq> []"
  shows "u \<noteq> None"
  using assms ask_never_runs resume_uses_one
  by (fastforce simp: gate_def split: option.splits if_splits prod.splits bool.splits)

lemma always_asks: "default_message \<noteq> [] \<Longrightarrow> \<exists>m. confirmation Always default_message sd = Some m \<and> m \<noteq> []"
  by (auto simp: confirmation_def Let_def split: option.splits)

lemma run_changes:
  assumes "run w spec args ctx s = (res, s')"
  shows "desk_of s' = desk_of s \<and> quota s' = quota s \<and>
    (panel s' = panel s \<or> (\<exists>result. invoke w spec args (panel s) = Answers result (panel s')))"
  using assms by (auto simp: run_def Let_def split: tool_end.splits if_splits option.splits)

lemma context_principal:
  assumes "call_context_of r method given_params h p = Inr (ctx, params)"
  shows "principal_uid ctx = pr_uid p \<and> principal_client ctx = pr_client p"
  using assms
  by (auto simp: call_context_of_def legacy_context_def context_of_def Let_def
      split: option.splits if_splits sum.splits json.splits list.splits)

definition passed_checks :: "'p mcp_world \<Rightarrow> tool_spec \<Rightarrow> json \<Rightarrow> json \<Rightarrow> 'p \<Rightarrow> bool" where
  "passed_checks w spec arguments args p \<longleftrightarrow>
     check_cloud_group (caller_of w) (min_group spec) = Inr () \<and>
     find_secret_key (field_names w) (lit ''arguments'') arguments = None \<and>
     (\<exists>v x. validate (input_schema spec) arguments [] = Inr v \<and> resolve (input_schema spec) v (lookup_of w p) [] = Inr x \<and>
        check_records w p x = None \<and> prepare w spec x p = Inr args)"

lemma checked_argsD: "checked_args w spec arguments p = Inr args \<Longrightarrow> passed_checks w spec arguments args p"
  by (auto simp: checked_args_def passed_checks_def split: sum.splits option.splits)

lemma tools_call_changes:
  assumes "tools_call w params ctx s = (res, s')" and "panel s' \<noteq> panel s" and "\<forall>spec. default_words w spec \<noteq> []"
  shows "\<exists>spec args result. spec \<in> set (specs w) \<and> dget params ''name'' = JStr (spec_name spec) \<and>
    passed_checks w spec (if dget params ''arguments'' = JNull then JObj [] else dget params ''arguments'') args (panel s) \<and>
    over_user_limit w (principal_uid ctx) (quota s) = Inr (False, quota s') \<and>
    (\<exists>scrub u. confirm_gate w spec args ctx params scrub (panel s) (desk_of s) = (Runs u, desk_of s') \<and>
       (confirm_mode spec = Always \<longrightarrow> u \<noteq> None)) \<and>
    invoke w spec args (panel s) = Answers result (panel s')"
proof -
  let ?a = "if dget params ''arguments'' = JNull then JObj [] else dget params ''arguments''"
  obtain spec where spec: "find (\<lambda>spec. JStr (spec_name spec) = dget params ''name'') (specs w) = Some spec"
    using assms(1,2) by (cases "find (\<lambda>spec. JStr (spec_name spec) = dget params ''name'') (specs w)") (auto simp: tools_call_def Let_def)
  obtain tab where tab: "over_user_limit w (principal_uid ctx) (quota s) = Inr (False, tab)"
    using assms(1,2) spec by (auto simp: tools_call_def Let_def split: if_splits sum.splits prod.splits)
  let ?s = "s\<lparr>quota := tab\<rparr>"
  obtain sc where sc: "scrubber_with w [] (panel s) = Some sc"
    using assms(1,2) spec tab by (cases "scrubber_with w [] (panel s)") (auto simp: tools_call_def Let_def split: if_splits)
  obtain args where args: "checked_args w spec ?a (panel s) = Inr args"
    using assms(1,2) spec tab sc by (cases "checked_args w spec ?a (panel s)") (auto simp: tools_call_def Let_def split: if_splits)
  let ?g = "confirm_gate w spec args ctx params (scrub_text (alnum w) sc) (panel s) (desk_of s)"
  obtain u d where g: "?g = (Runs u, d)" and run: "run w spec args ctx (?s\<lparr>desk_of := d\<rparr>) = (res, s')"
    using assms(1,2) spec tab sc args
    by (cases ?g, cases "fst ?g") (auto simp: tools_call_def Let_def split: if_splits)
  note changed = run_changes[OF run]
  have "confirm_mode spec = Always \<Longrightarrow> u \<noteq> None"
    using g gate_uses_one always_asks assms(3) unfolding confirm_gate_def by metis
  moreover have "spec \<in> set (specs w)" "dget params ''name'' = JStr (spec_name spec)" using find_Some_set[OF spec] by auto
  moreover obtain result where "invoke w spec args (panel s) = Answers result (panel s')" using changed assms(2) by auto
  moreover have "d = desk_of s'" "tab = quota s'" using changed by simp_all
  ultimately show ?thesis using checked_argsD[OF args] tab g by blast
qed

text \<open>C3. Nothing an agent sends changes the panel but a tool that may run. When a message
  changes the panel at all, it is the answer of one tool of the catalog, called by a user
  who has its role and is within the limit of calls, with arguments that carry no secret
  key and follow the tool's schema, and past the approval gate; a tool that always asks
  used up an approval. A tool that raises, and every refusal, leaves the panel as it was.\<close>

theorem only_an_allowed_tool_changes_the_panel:
  assumes "handle w listed_as r msg h p s = (res, s')" and "panel s' \<noteq> panel s" and "\<forall>spec. default_words w spec \<noteq> []"
  shows "\<exists>ctx params spec arguments args result. principal_uid ctx = pr_uid p \<and> principal_client ctx = pr_client p \<and>
    spec \<in> set (specs w) \<and> passed_checks w spec arguments args (panel s) \<and>
    over_user_limit w (pr_uid p) (quota s) = Inr (False, quota s') \<and>
    (\<exists>scrub u. confirm_gate w spec args ctx params scrub (panel s) (desk_of s) = (Runs u, desk_of s') \<and>
       (confirm_mode spec = Always \<longrightarrow> u \<noteq> None)) \<and>
    invoke w spec args (panel s) = Answers result (panel s')"
proof -
  obtain m meth where m: "msg = JObj m" "dget m ''method'' = JStr meth"
    using assms(1,2) by (auto simp: handle_def split: json.splits bool.splits)
  obtain ctx params where ctx: "call_context_of r meth (dget m ''params'') h p = Inr (ctx, params)"
    using assms(1,2) m by (auto simp: handle_def split: bool.splits option.splits if_splits sum.splits)
  obtain res2 where d: "dispatch w listed_as r meth params ctx s = (res2, s')"
    using assms(1,2) m ctx
    by (auto simp: handle_def split: bool.splits option.splits if_splits sum.splits prod.splits failure.splits)
  have "\<exists>res3. tools_call w params ctx s = (res3, s')"
    using d assms(2) by (cases "tools_call w params ctx s") (auto simp: dispatch_def initialize_def split: if_splits prod.splits)
  with tools_call_changes[OF _ assms(2,3)] context_principal[OF ctx] show ?thesis by metis
qed

text \<open>A panel that counts the calls of its one tool, which never asks.\<close>

definition counting_tool :: tool_spec where
  "counting_tool = \<lparr>spec_name = lit ''touch'', min_group = Group_cloud_user,
     input_schema = Schema (One K_object) [] [] False None None None None None None, read_only = False, destructive = False,
     confirm_mode = Never, untrusted = False, audited = False\<rparr>"

definition blank_signer :: signer where
  "blank_signer = \<lparr>mac = (\<lambda>t. []), enc = (\<lambda>d. []), dec = (\<lambda>t. None)\<rparr>"

definition counting_world :: "nat mcp_world" where
  "counting_world = \<lparr>specs = [counting_tool], caller_of = \<lparr>su = True, uid = 7, has_group = (\<lambda>_. False)\<rparr>, user_cap = 120,
     limits = \<lparr>test_enable = False, force_rate_limit = False, settings = (\<lambda>_. None), now = 0\<rparr>, clock = 0, field_names = {},
     known = (\<lambda>_. []), too_deep = (\<lambda>_. False), alnum = (\<lambda>_. True), frepr = (\<lambda>_. []), to_text = (\<lambda>_. []), say = lit,
     schema_words = (\<lambda>_. []), role_words = (\<lambda>_. []), secret_words = id, lookup_of = (\<lambda>_ _ _ _. None),
     check_records = (\<lambda>_ _. None), prepare = (\<lambda>_ a _. Inr a), said = (\<lambda>_ _ _. None), default_words = (\<lambda>_. lit ''Run?''),
     digest_of = (\<lambda>_ _. []), fresh = first_values, raced = False, request_key = blank_signer,
     invoke = (\<lambda>_ _ n. Answers (JBool True) (Suc n)), known_failing = (\<lambda>_. []), writes_of = (\<lambda>_ _. True), recorded = (\<lambda>_ a. a),
     target_exists = (\<lambda>_ _. False), server_info = JNull\<rparr>"

definition plain_env :: request_env where
  "plain_env = \<lparr>unwrap = (\<lambda>_. None), keys = blank_signer, seconds = 0, printable = (\<lambda>_. True), str_of = (\<lambda>_. [])\<rparr>"

definition touch_headers :: headers where
  "touch_headers = [''MCP-Protocol-Version'' \<mapsto> MODERN, ''Mcp-Method'' \<mapsto> lit ''tools/call'', ''Mcp-Name'' \<mapsto> lit ''touch'']"

definition touch_meta :: dict where
  "touch_meta = [(lit META_VERSION, JStr MODERN), (lit META_CAPABILITIES, JObj [])]"

definition touch_params :: dict where
  "touch_params = [(lit ''name'', JStr (lit ''touch'')), (lit ''_meta'', JObj touch_meta)]"

definition touch_message :: json where
  "touch_message = JObj [(lit ''jsonrpc'', JStr (lit ''2.0'')), (lit ''id'', JInt 1), (lit ''method'', JStr (lit ''tools/call'')),
     (lit ''params'', JObj touch_params)]"

definition agent_seven :: principal where
  "agent_seven = \<lparr>pr_uid = 7, pr_credential = lit ''key'', pr_client = lit ''key-1''\<rparr>"

definition fresh_server :: "nat server" where
  "fresh_server = \<lparr>desk_of = \<lparr>rows = [], next_row = 1, issued = []\<rparr>, quota = (\<lambda>_. None), panel = 0, audit_log = []\<rparr>"

lemma lit_empty [simp]: "lit s = [] \<longleftrightarrow> s = []"
  by (simp add: lit_def)

lemma touch_checked: "check_modern_headers (unwrap plain_env) touch_headers (lit ''tools/call'') touch_params (JStr MODERN) = Inr ()"
proof -
  have "\<not> prefix HEADER_PREFIX (lit ''touch'')" by (simp add: HEADER_PREFIX_def lit_def)
  then show ?thesis
    by (simp add: check_modern_headers_def touch_headers_def NAMED_METHODS_def decode_header_value_def touch_params_def dget_def lit_eq MODERN_def)
qed

lemma touch_fields:
  "object_or_empty (JObj touch_params) = Some touch_params" "object_or_empty (dget touch_params ''_meta'') = Some touch_meta"
  "dget touch_meta META_VERSION = JStr MODERN" "dget touch_meta META_CAPABILITIES = JObj []" "dget touch_meta META_CLIENT = JNull"
  by (simp_all add: touch_params_def touch_meta_def object_or_empty_def dget_def lit_eq META_VERSION_def META_CAPABILITIES_def META_CLIENT_def)

lemma touch_context:
  "call_context_of plain_env (lit ''tools/call'') (JObj touch_params) touch_headers agent_seven =
     Inr (context_of MODERN True (JObj []) [] agent_seven, touch_params)"
proof -
  have "JStr MODERN \<notin> JStr ` set LEGACY" by (auto simp: MODERN_def LEGACY_def lit_eq)
  moreover have "truthy (JStr MODERN)" by (simp add: MODERN_def)
  ultimately show ?thesis
    by (simp add: call_context_of_def touch_fields touch_checked client_name_of_def Let_def)
qed

lemma touch_runs:
  "panel (snd (tools_call counting_world touch_params (context_of MODERN True (JObj []) [] agent_seven) fresh_server)) = 1"
  by (simp add: tools_call_def touch_params_def dget_def lit_eq counting_world_def counting_tool_def over_user_limit_def hit_def
      fresh_server_def scrubber_with_def scrubber_of_def checked_args_def check_cloud_group_def validate.simps narrowed_def
      check_value_def check_keys_def resolve.simps confirm_gate_def gate_def confirmation_def run_def refusal_of_def upsert_row_def Let_def)

theorem only_an_allowed_tool_changes_the_panel_witness:
  "\<exists>spec \<in> set (specs counting_world).
     panel (snd (handle counting_world (\<lambda>_. JNull) plain_env touch_message touch_headers agent_seven fresh_server)) = 1 \<and>
     invoke counting_world spec (JObj []) 0 = Answers (JBool True) 1"
proof -
  let ?h = "handle counting_world (\<lambda>_. JNull) plain_env touch_message touch_headers agent_seven fresh_server"
  let ?t = "tools_call counting_world touch_params (context_of MODERN True (JObj []) [] agent_seven) fresh_server"
  have d: "dispatch counting_world (\<lambda>_. JNull) plain_env (lit ''tools/call'') touch_params (context_of MODERN True (JObj []) [] agent_seven)
      fresh_server = apfst (map_sum id (\<lambda>a. (a, None))) ?t"
    by (simp add: dispatch_def lit_eq context_of_def)
  have ok: "\<exists>a. fst ?t = Inr a"
    by (simp add: tools_call_def touch_params_def dget_def lit_eq counting_world_def counting_tool_def over_user_limit_def hit_def
      fresh_server_def scrubber_with_def scrubber_of_def checked_args_def check_cloud_group_def validate.simps narrowed_def
      check_value_def check_keys_def resolve.simps confirm_gate_def gate_def confirmation_def run_def refusal_of_def upsert_row_def Let_def)
  then obtain a where a: "?t = (Inr a, snd ?t)" by (metis prod.collapse)
  have "snd ?h = snd ?t"
    by (simp add: handle_def touch_message_def dget_def lit_eq touch_context d) (subst a, subst a, simp)
  then have one: "panel (snd ?h) = 1" using touch_runs by simp
  have "\<forall>spec. default_words counting_world spec \<noteq> []" by (simp add: counting_world_def lit_def)
  from only_an_allowed_tool_changes_the_panel[OF prod.collapse[symmetric] _ this, of "(\<lambda>_. JNull)" plain_env touch_message
      touch_headers agent_seven fresh_server] one
  have "\<exists>spec \<in> set (specs counting_world). \<exists>args result. invoke counting_world spec args 0 = Answers result 1"
    by (fastforce simp: fresh_server_def)
  with one show ?thesis by (auto simp: counting_world_def)
qed

section \<open>Sessions\<close>

lemma split_two: "c \<notin> set a \<Longrightarrow> c \<notin> set b \<Longrightarrow> split_on c (a @ c # b) = [a, b]"
  by (subst split_append, simp) (subst split_where_none, fastforce, subst split_where_none, fastforce, simp)

lemma verify_sign:
  assumes "dec k (enc k d) = Some (JObj d)" and "ascii (enc k d)" and "46 \<notin> set (enc k d)"
    and "ascii (mac k (signed_text label (enc k d)))" and "46 \<notin> set (mac k (signed_text label (enc k d)))"
  shows "verify k label (JStr (sign k label d)) = Some d"
proof -
  have "split_on 46 (enc k d @ 46 # mac k (signed_text label (enc k d))) = [enc k d, mac k (signed_text label (enc k d))]"
    using assms(3,5) by (rule split_two)
  then show ?thesis using assms by (simp add: verify_def sign_def Let_def ascii_def)
qed

text \<open>What a signer is used with: texts of ASCII letters without a dot, and a payload that reads
  back as it was written.\<close>

definition plain_signer :: "signer \<Rightarrow> dict \<Rightarrow> bool" where
  "plain_signer k d \<longleftrightarrow>
     dec k (enc k d) = Some (JObj d) \<and> ascii (enc k d) \<and> 46 \<notin> set (enc k d) \<and> (\<forall>t. ascii (mac k t) \<and> 46 \<notin> set (mac k t))"

lemma session_fields:
  "dget (session_payload ctx t) ''v'' = JStr (version ctx)" "dget (session_payload ctx t) ''c'' = capabilities ctx"
  "dget (session_payload ctx t) ''n'' = JStr (client_name ctx)" "dget (session_payload ctx t) ''u'' = JInt (principal_uid ctx)"
  "dget (session_payload ctx t) ''t'' = JInt \<lfloor>t\<rfloor>" "session_payload ctx t \<noteq> []"
  by (simp_all add: session_payload_def dget_def lit_def)

lemma json_eq_int: "json_eq (JInt i) (JInt j) \<longleftrightarrow> i = j"
  by (simp add: json_eq.simps)


text \<open>A signer of texts in one letter: each character as so many of it.\<close>

definition unary :: "pystr \<Rightarrow> pystr" where
  "unary t = concat (map (\<lambda>c. replicate c 97 @ [98]) t)"

lemma unary_Cons: "unary (c # t) = replicate c 97 @ 98 # unary t"
  by (simp add: unary_def)

lemma replicate_split: "replicate m 97 @ 98 # a = replicate n 97 @ 98 # (b :: nat list) \<Longrightarrow> m = n \<and> a = b"
proof (induction m arbitrary: n)
  case 0 then show ?case by (cases n) auto
next
  case (Suc m) then show ?case by (cases n) auto
qed

lemma unary_inj: "inj unary"
proof (rule injI)
  show "unary s = unary t \<Longrightarrow> s = t" for s t
  proof (induction s arbitrary: t)
    case Nil then show ?case by (cases t) (auto simp: unary_def)
  next
    case (Cons c s)
    then show ?case by (cases t) (auto simp: unary_Cons dest!: replicate_split, simp add: unary_def)
  qed
qed

definition old_agent :: mcp_context where
  "old_agent = context_of (lit ''2025-06-18'') False (session_capabilities JNull) (lit ''cli'') agent_seven"

definition unary_signer :: signer where
  "unary_signer = \<lparr>mac = unary, enc = (\<lambda>d. if d = [] then [120] else [121]),
     dec = (\<lambda>t. Some (JObj (if t = [120] then [] else session_payload old_agent 50)))\<rparr>"

definition ids_env :: "rat \<Rightarrow> request_env" where
  "ids_env t = plain_env\<lparr>keys := unary_signer, seconds := t\<rparr>"

definition session_headers :: headers where
  "session_headers = [''Mcp-Session-Id'' \<mapsto> snd (initialize counting_world (ids_env 50) old_agent), ''MCP-Protocol-Version'' \<mapsto> lit ''2025-06-18'']"

lemma unary_plain: "plain_signer unary_signer []" "plain_signer unary_signer (session_payload old_agent 50)"
  by (auto simp: plain_signer_def unary_signer_def ascii_def unary_def session_fields list_all_iff)


section \<open>Headers\<close>

text \<open>A call is what its headers say. A request of the stateless revision is answered only
  when the version, the method and the tool its headers name are those of the body it
  executes: a proxy that routes on the headers sees the call that runs.\<close>

theorem modern_call_is_what_its_headers_say:
  assumes "call_context_of r method given_params h p = Inr (ctx, params)" and "modern ctx"
  shows "version ctx = MODERN \<and> h ''MCP-Protocol-Version'' = Some MODERN \<and> h ''Mcp-Method'' = Some method \<and>
    (method = lit ''tools/call'' \<longrightarrow>
       (\<exists>raw name. h ''Mcp-Name'' = Some raw \<and> decode_header_value (unwrap r) raw = Inr name \<and> dget params ''name'' = JStr name))"
proof -
  obtain meta caps where "version ctx = MODERN" and v: "dget meta META_VERSION = JStr MODERN"
    and checked: "check_modern_headers (unwrap r) h method params (dget meta META_VERSION) = Inr ()"
    using assms
    by (auto simp: call_context_of_def legacy_context_def context_of_def Let_def
        split: option.splits if_splits sum.splits json.splits list.splits)
  then show ?thesis
    by (auto simp: check_modern_headers_def NAMED_METHODS_def v split: option.splits if_splits sum.splits)
qed

theorem modern_call_is_what_its_headers_say_witness:
  "touch_headers ''Mcp-Method'' = Some (lit ''tools/call'') \<and> dget touch_params ''name'' = JStr (lit ''touch'')"
proof -
  have "modern (context_of MODERN True (JObj []) [] agent_seven)" by (simp add: context_of_def)
  from modern_call_is_what_its_headers_say[OF touch_context this] show ?thesis
    by (simp add: touch_params_def dget_def)
qed

end
